(* ===== verification/Prelude.thy ===== *)
theory Prelude
  imports Main "HOL-Library.Word" "HOL-Library.List_Lexorder" "HOL-Library.Char_ord"
begin

text \<open>
  The prelude of the ulcer development: the types every component shares (64-bit integers,
  instants, results of fallible code), the part of the Go standard library the sources use on
  strings and integers (\<open>strings.TrimSpace\<close>, \<open>strings.ToUpper\<close>, \<open>strings.EqualFold\<close>,
  \<open>fmt\<close>'s \<open>%d\<close> and \<open>%020d\<close>, \<open>encoding/binary\<close>'s big-endian 64-bit words), and the lemmas
  about them the component proofs rest on.

  A Go \<^typ>\<open>string\<close> or byte slice is a HOL \<^typ>\<open>string\<close>: a list of 8-bit characters, compared
  byte by byte.  The case and white-space functions are those of Go on ASCII bytes; bytes from
  128 on are left alone.  An instant (\<open>time.Time\<close>) is the number of nanoseconds since
  0001-01-01T00:00:00Z, the zero value of \<open>time.Time\<close>, and a \<open>time.Duration\<close> is a number
  of nanoseconds.
\<close>

named_theorems bind_simps \<open>equations that take a chain of fallible steps apart\<close>
named_theorems key_defs \<open>definitions of the database keys\<close>
named_theorems codec_defs \<open>definitions of encoders and decoders\<close>

type_synonym u64 = "64 word"
type_synonym instant = int
type_synonym duration = int

abbreviation second :: duration where
  "second \<equiv> 1000000000"

abbreviation minute :: duration where
  "minute \<equiv> 60 * second"

abbreviation hour :: duration where
  "hour \<equiv> 60 * minute"

text \<open>The zero \<open>time.Time\<close> and Unix seconds: 62135596800 seconds lie between year 1 and 1970.\<close>

definition zero_time :: instant where
  "zero_time = 0"

definition Unix :: "instant \<Rightarrow> int" where
  "Unix t = t div second - 62135596800"


section \<open>Fallible steps\<close>

text \<open>
  A Go function that returns \<open>(T, error)\<close> is a function into \<open>'e + 'a\<close>: \<open>Inl\<close> is the
  error.  \<open>bindE\<close> is the early return \<open>if err != nil { return err }\<close>.
\<close>

definition bindE :: "'e + 'a \<Rightarrow> ('a \<Rightarrow> 'e + 'b) \<Rightarrow> 'e + 'b" where
  "bindE r f = (case r of Inl e \<Rightarrow> Inl e | Inr x \<Rightarrow> f x)"

definition guardE :: "bool \<Rightarrow> 'e \<Rightarrow> 'e + unit" where
  "guardE b e = (if b then Inr () else Inl e)"

lemma bindE_Inl [simp]: "bindE (Inl e) f = Inl e"
  by (simp add: bindE_def)

lemma bindE_Inr [simp]: "bindE (Inr x) f = f x"
  by (simp add: bindE_def)

lemma bindE_eq_Inr [bind_simps]: "bindE r f = Inr y \<longleftrightarrow> (\<exists>x. r = Inr x \<and> f x = Inr y)"
  by (cases r) simp_all

lemma bindE_eq_Inl [bind_simps]:
  "bindE r f = Inl e \<longleftrightarrow> r = Inl e \<or> (\<exists>x. r = Inr x \<and> f x = Inl e)"
  by (cases r) simp_all

lemma guardE_eq_Inr [bind_simps]: "guardE b e = Inr u \<longleftrightarrow> b"
  by (simp add: guardE_def)

lemma guardE_simps [simp]: "guardE True e = Inr ()" "guardE False e = Inl e"
  by (simp_all add: guardE_def)

lemma map_sum_id_eq_Inr [bind_simps]: "map_sum f id r = Inr x \<longleftrightarrow> r = Inr x"
  by (cases r) simp_all

lemma map_sum_id_eq_Inl [bind_simps]: "map_sum f id r = Inl e \<longleftrightarrow> (\<exists>d. r = Inl d \<and> e = f d)"
  by (cases r) auto


section \<open>Lists and maps\<close>

lemma sorted_wrt_less_distinct: "sorted_wrt (<) (xs :: 'a :: linorder list) \<Longrightarrow> distinct xs"
  by (simp add: strict_sorted_iff)

lemma map_upd_other: "k \<noteq> j \<Longrightarrow> (m(k \<mapsto> v)) j = m j"
  by simp

text \<open>Two strictly increasing lists with the same elements are the same list.\<close>

lemma strict_sorted_same_set:
  "sorted_wrt (<) (xs :: 'a :: linorder list) \<Longrightarrow> sorted_wrt (<) ys \<Longrightarrow> set xs = set ys \<Longrightarrow> xs = ys"
  by (simp add: strict_sorted_equal)


lemma list_le_append [simp]: "(xs :: 'a :: linorder list) \<le> xs @ ys"
  by (induction xs) simp_all


section \<open>Numbers in a fixed number of digits\<close>

text \<open>The \<open>k\<close> lowest digits of \<open>n\<close> in base \<open>b\<close>, most significant first, and their value.\<close>

definition fixed_digits :: "nat \<Rightarrow> nat \<Rightarrow> nat \<Rightarrow> nat list" where
  "fixed_digits b k n = map (\<lambda>i. n div b ^ i mod b) (rev [0..<k])"

definition digits_value :: "nat \<Rightarrow> nat list \<Rightarrow> nat" where
  "digits_value b ds = foldl (\<lambda>a d. a * b + d) 0 ds"

lemma length_fixed_digits [simp]: "length (fixed_digits b k n) = k"
  by (simp add: fixed_digits_def)

lemma fixed_digits_0 [simp]: "fixed_digits b 0 n = []"
  by (simp add: fixed_digits_def)

lemma fixed_digits_Suc: "fixed_digits b (Suc k) n = (n div b ^ k mod b) # fixed_digits b k n"
  by (simp add: fixed_digits_def)

lemma fixed_digits_bound: "0 < b \<Longrightarrow> d \<in> set (fixed_digits b k n) \<Longrightarrow> d < b"
  by (auto simp: fixed_digits_def)

lemma mod_power_Suc: "(n :: nat) mod b ^ Suc k = b ^ k * (n div b ^ k mod b) + n mod b ^ k"
  using mod_mult2_eq [of n "b ^ k" b] by (simp add: mult.commute)

lemma foldl_fixed_digits:
  "foldl (\<lambda>a d. a * b + d) a (fixed_digits b k n) = a * b ^ k + n mod b ^ k"
proof (induction k arbitrary: a)
  case 0
  then show ?case by (cases "b = 0") (simp_all add: fixed_digits_def)
next
  case (Suc k)
  show ?case
    unfolding mod_power_Suc by (simp add: fixed_digits_Suc Suc.IH) (simp add: algebra_simps)
qed

lemma digits_value_fixed: "n < b ^ k \<Longrightarrow> digits_value b (fixed_digits b k n) = n"
  by (simp add: digits_value_def foldl_fixed_digits)

lemma fixed_digits_snoc: "fixed_digits b (Suc k) n = fixed_digits b k (n div b) @ [n mod b]"
proof (induction k)
  case 0
  then show ?case by (simp add: fixed_digits_Suc)
next
  case (Suc k)
  have "n div b ^ Suc k = n div b div b ^ k"
    by (simp add: div_mult2_eq)
  then have "fixed_digits b (Suc (Suc k)) n = (n div b div b ^ k mod b) # fixed_digits b (Suc k) n"
    by (simp only: fixed_digits_Suc [of b "Suc k"])
  then show ?case
    by (simp only: Suc.IH fixed_digits_Suc [of b k "n div b"] append_Cons)
qed

text \<open>The lexicographic order of fixed-width numerals is the order of the numbers.\<close>

lemma fixed_digits_less:
  assumes "0 < b" and "m < b ^ k" and "n < b ^ k"
  shows "fixed_digits b k m < fixed_digits b k n \<longleftrightarrow> m < n"
proof -
  have "fixed_digits b k m < fixed_digits b k n \<longleftrightarrow> m mod b ^ k < n mod b ^ k"
  proof (induction k)
    case 0
    then show ?case by simp
  next
    case (Suc k)
    define p q where "p = m div b ^ k mod b" and "q = n div b ^ k mod b"
    have m: "m mod b ^ Suc k = b ^ k * p + m mod b ^ k"
      and n: "n mod b ^ Suc k = b ^ k * q + n mod b ^ k"
      by (simp_all only: p_def q_def mod_power_Suc)
    have lt: "m mod b ^ k < b ^ k" "n mod b ^ k < b ^ k"
      using assms(1) by simp_all
    have less: "b ^ k * p + m mod b ^ k < b ^ k * q + n mod b ^ k" if "p < q" for p q
    proof -
      have "b ^ k * p + m mod b ^ k < b ^ k * Suc p" using lt(1) by simp
      also have "\<dots> \<le> b ^ k * q" using that by (intro mult_le_mono2) simp
      finally show ?thesis by simp
    qed
    have less': "b ^ k * q + n mod b ^ k < b ^ k * p + m mod b ^ k" if "q < p" for p q
    proof -
      have "b ^ k * q + n mod b ^ k < b ^ k * Suc q" using lt(2) by simp
      also have "\<dots> \<le> b ^ k * p" using that by (intro mult_le_mono2) simp
      finally show ?thesis by simp
    qed
    have "fixed_digits b (Suc k) m < fixed_digits b (Suc k) n \<longleftrightarrow>
        p < q \<or> p = q \<and> m mod b ^ k < n mod b ^ k"
      by (simp add: fixed_digits_Suc Suc.IH p_def q_def)
    also have "\<dots> \<longleftrightarrow> m mod b ^ Suc k < n mod b ^ Suc k"
      unfolding m n using less [of p q] less' [of q p] by (cases p q rule: linorder_cases) auto
    finally show ?case .
  qed
  then show ?thesis using assms by simp
qed

lemma fixed_digits_inject:
  assumes "m < b ^ k" and "n < b ^ k"
  shows "fixed_digits b k m = fixed_digits b k n \<longleftrightarrow> m = n"
  using digits_value_fixed [OF assms(1)] digits_value_fixed [OF assms(2)] by metis


section \<open>Decimal numerals\<close>

definition digit_char :: "nat \<Rightarrow> char" where
  "digit_char d = char_of (48 + d)"

lemma digit_chars:
  "digit_char 0 = CHR ''0''" "digit_char 1 = CHR ''1''" "digit_char 2 = CHR ''2''" "digit_char 3 = CHR ''3''"
  "digit_char 4 = CHR ''4''" "digit_char 5 = CHR ''5''" "digit_char 6 = CHR ''6''" "digit_char 7 = CHR ''7''"
  "digit_char 8 = CHR ''8''" "digit_char 9 = CHR ''9''"
  by code_simp+

text \<open>\<open>%d\<close> (and \<open>strconv.Itoa\<close>) of a non-negative number.\<close>

fun show_nat :: "nat \<Rightarrow> string" where
  "show_nat n = (if n < 10 then [digit_char n] else show_nat (n div 10) @ [digit_char (n mod 10)])"

declare show_nat.simps [simp del]

text \<open>\<open>%0wd\<close>: padded with zeros on the left to \<open>w\<close> characters.\<close>

definition show_nat_padded :: "nat \<Rightarrow> nat \<Rightarrow> string" where
  "show_nat_padded w n =
     (let s = show_nat n in replicate (w - length s) (CHR ''0'') @ s)"

lemma digit_char_less: "a < 10 \<Longrightarrow> b < 10 \<Longrightarrow> digit_char a < digit_char b \<longleftrightarrow> a < b"
  by (simp add: digit_char_def less_char_def)

lemma digit_char_inject: "a < 10 \<Longrightarrow> b < 10 \<Longrightarrow> digit_char a = digit_char b \<longleftrightarrow> a = b"
  using digit_char_less [of a b] digit_char_less [of b a] by (metis linorder_neq_iff)

lemma replicate_zero_fixed: "replicate k (digit_char 0) = map digit_char (fixed_digits 10 k 0)"
  by (induction k) (simp_all add: fixed_digits_Suc)

lemma show_nat_padded_fixed:
  "n < 10 ^ w \<Longrightarrow> 0 < w \<Longrightarrow> show_nat_padded w n = map digit_char (fixed_digits 10 w n)"
proof (induction w arbitrary: n)
  case 0
  then show ?case by simp
next
  case (Suc w)
  have zero: "CHR ''0'' = digit_char 0"
    by code_simp
  show ?case
  proof (cases "n < 10")
    case True
    then show ?thesis
      by (simp add: show_nat_padded_def show_nat.simps [of n] fixed_digits_snoc zero
          replicate_zero_fixed)
  next
    case False
    with Suc.prems have w: "0 < w" and n: "n div 10 < 10 ^ w"
      by (cases w; auto)+
    from Suc.IH [OF n w]
    have "replicate (w - length (show_nat (n div 10))) (CHR ''0'') @ show_nat (n div 10) =
        map digit_char (fixed_digits 10 w (n div 10))"
      by (simp add: show_nat_padded_def Let_def)
    with False show ?thesis
      by (simp add: show_nat_padded_def show_nat.simps [of n] fixed_digits_snoc)
  qed
qed

lemma map_digit_char_less:
  "length xs = length ys \<Longrightarrow> \<forall>d\<in>set xs. d < 10 \<Longrightarrow> \<forall>d\<in>set ys. d < 10 \<Longrightarrow>
   map digit_char xs < map digit_char ys \<longleftrightarrow> xs < ys"
  by (induction xs ys rule: list_induct2) (auto simp: digit_char_less digit_char_inject)

lemma map_digit_char_inject:
  "\<forall>d\<in>set xs. d < 10 \<Longrightarrow> \<forall>d\<in>set ys. d < 10 \<Longrightarrow>
   map digit_char xs = map digit_char ys \<longleftrightarrow> xs = ys"
  by (rule inj_on_map_eq_map) (auto simp: inj_on_def digit_char_inject)

lemma show_nat_padded_less:
  assumes "m < 10 ^ w" and "n < 10 ^ w" and "0 < w"
  shows "show_nat_padded w m < show_nat_padded w n \<longleftrightarrow> m < n"
  using assms
  by (simp add: show_nat_padded_fixed map_digit_char_less fixed_digits_bound fixed_digits_less)

lemma show_nat_padded_inject:
  assumes "m < 10 ^ w" and "n < 10 ^ w" and "0 < w"
  shows "show_nat_padded w m = show_nat_padded w n \<longleftrightarrow> m = n"
  using assms
  by (simp add: show_nat_padded_fixed map_digit_char_inject fixed_digits_bound fixed_digits_inject)


section \<open>Big-endian 64-bit words\<close>

text \<open>\<open>binary.BigEndian.PutUint64\<close> into a fresh 8-byte slice, and \<open>binary.BigEndian.Uint64\<close>.\<close>

definition PutUint64 :: "u64 \<Rightarrow> string" where
  "PutUint64 w = map char_of (fixed_digits 256 8 (unat w))"

definition Uint64 :: "string \<Rightarrow> u64" where
  "Uint64 s = of_nat (digits_value 256 (map of_char s))"

lemma length_PutUint64 [simp]: "length (PutUint64 w) = 8"
  by (simp add: PutUint64_def)

lemma map_mod_id: "\<forall>d\<in>set ds. d < b \<Longrightarrow> map (\<lambda>d. d mod b) ds = (ds :: nat list)"
  by (induction ds) simp_all

lemma Uint64_PutUint64 [simp]: "Uint64 (PutUint64 w) = w"
proof -
  have "unat w < 256 ^ 8"
    using unsigned_less [of w] by simp
  then have "digits_value 256 (fixed_digits 256 8 (unat w)) = unat w"
    by (rule digits_value_fixed)
  moreover have "map of_char (map char_of (fixed_digits 256 8 (unat w))) = fixed_digits 256 8 (unat w)"
    by (simp add: map_mod_id fixed_digits_bound o_def)
  ultimately show ?thesis
    by (simp add: Uint64_def PutUint64_def)
qed


section \<open>Unsigned 64-bit arithmetic\<close>

text \<open>Go's \<open>^uint64(0)\<close> is the largest \<open>uint64\<close>; it is \<open>- 1\<close> as a word.\<close>

lemma u64_headroom: "- 1 - (a :: u64) < b \<longleftrightarrow> 2 ^ 64 \<le> unat a + unat b"
proof -
  have "unat (- 1 - a) = 2 ^ 64 - 1 - unat a"
    by (simp add: unat_sub unsigned_minus_1_eq_mask mask_eq_exp_minus_1)
  moreover have "unat a < 2 ^ 64"
    using unsigned_less [of a] by simp
  ultimately show ?thesis
    by (auto simp: word_less_nat_alt)
qed

lemma unat_add_u64: "unat a + unat (b :: u64) < 2 ^ 64 \<Longrightarrow> unat (a + b) = unat a + unat b"
  by (simp add: unat_add_lem [THEN iffD1])

lemma unat_inc_u64: "(a :: u64) \<noteq> - 1 \<Longrightarrow> unat (a + 1) = unat a + 1"
  by (metis add.commute unatSuc Suc_eq_plus1 add_eq_0_iff)


section \<open>Signed 64-bit arithmetic\<close>

text \<open>The \<open>int64\<close> an operation's exact result is reduced to.\<close>

definition int64 :: "int \<Rightarrow> int" where
  "int64 n = (n + 2 ^ 63) mod 2 ^ 64 - 2 ^ 63"

lemma int64_id: "- (2 ^ 63) \<le> n \<Longrightarrow> n < 2 ^ 63 \<Longrightarrow> int64 n = n"
  by (simp add: int64_def)

lemma int64_range: "- (2 ^ 63) \<le> int64 n" "int64 n < 2 ^ 63"
  by (simp_all add: int64_def)


section \<open>Strings\<close>

definition is_space :: "char \<Rightarrow> bool" where
  "is_space c \<longleftrightarrow> (let n = (of_char c :: nat) in n = 32 \<or> 9 \<le> n \<and> n \<le> 13)"

definition TrimSpace :: "string \<Rightarrow> string" where
  "TrimSpace s = rev (dropWhile is_space (rev (dropWhile is_space s)))"

definition upper_char :: "char \<Rightarrow> char" where
  "upper_char c = (let n = of_char c in if 97 \<le> n \<and> n \<le> (122 :: nat) then char_of (n - 32) else c)"

definition ToUpper :: "string \<Rightarrow> string" where
  "ToUpper s = map upper_char s"

definition EqualFold :: "string \<Rightarrow> string \<Rightarrow> bool" where
  "EqualFold s t \<longleftrightarrow> ToUpper s = ToUpper t"

lemma dropWhile_none: "\<forall>c\<in>set s. \<not> P c \<Longrightarrow> dropWhile P s = s"
  by (cases s) simp_all

lemma TrimSpace_no_space: "\<forall>c\<in>set s. \<not> is_space c \<Longrightarrow> TrimSpace s = s"
  by (simp add: TrimSpace_def dropWhile_none)

end
