(* ===== verification/Channel.thy ===== *)
theory Channel
  imports Prelude
begin

text \<open>
  Go channels as the hub and the event bus use them: a buffer with a capacity and a closed flag.
  Closing a closed channel and sending on a closed channel panic; a \<open>select\<close> with a \<open>default\<close>
  branch sends or receives only when it can do so at once.
\<close>

record 'm chan =
  capacity :: nat
  buffer :: "'m list"
  is_closed :: bool

definition make_chan :: "nat \<Rightarrow> 'm chan" where
  "make_chan n = \<lparr>capacity = n, buffer = [], is_closed = False\<rparr>"

text \<open>\<open>close(c)\<close>; \<open>None\<close> is the panic.\<close>

definition close_chan :: "'m chan \<Rightarrow> 'm chan option" where
  "close_chan c = (if is_closed c then None else Some (c\<lparr>is_closed := True\<rparr>))"

datatype 'm send_outcome = SendPanic | Sent "'m chan" | Full

text \<open>\<open>select { case c <- m: ... default: ... }\<close>\<close>

definition try_send :: "'m chan \<Rightarrow> 'm \<Rightarrow> 'm send_outcome" where
  "try_send c m =
     (if is_closed c then SendPanic
      else if length (buffer c) < capacity c then Sent (c\<lparr>buffer := buffer c @ [m]\<rparr>)
      else Full)"

datatype 'm recv_outcome = Received 'm "'m chan" | Closed | WouldBlock

text \<open>\<open>m, ok := <-c\<close>; a closed channel still yields what is in its buffer.\<close>

definition try_recv :: "'m chan \<Rightarrow> 'm recv_outcome" where
  "try_recv c = (case buffer c of
       m # ms \<Rightarrow> Received m (c\<lparr>buffer := ms\<rparr>)
     | [] \<Rightarrow> if is_closed c then Closed else WouldBlock)"

definition within_capacity :: "'m chan \<Rightarrow> bool" where
  "within_capacity c \<longleftrightarrow> length (buffer c) \<le> capacity c"

lemma make_chan_simps [simp]:
  "capacity (make_chan n) = n" "buffer (make_chan n) = []" "is_closed (make_chan n) = False"
  by (simp_all add: make_chan_def)

lemma close_chan_eq_Some [simp]: "close_chan c = Some c' \<longleftrightarrow> \<not> is_closed c \<and> c' = c\<lparr>is_closed := True\<rparr>"
  by (auto simp: close_chan_def)

lemma try_send_eq_Sent [simp]:
  "try_send c m = Sent c' \<longleftrightarrow> \<not> is_closed c \<and> length (buffer c) < capacity c \<and> c' = c\<lparr>buffer := buffer c @ [m]\<rparr>"
  by (auto simp: try_send_def)

lemma try_send_eq_Full [simp]: "try_send c m = Full \<longleftrightarrow> \<not> is_closed c \<and> capacity c \<le> length (buffer c)"
  by (auto simp: try_send_def)

lemma try_send_eq_SendPanic [simp]: "try_send c m = SendPanic \<longleftrightarrow> is_closed c"
  by (auto simp: try_send_def)

lemma try_recv_eq_Received [simp]:
  "try_recv c = Received m c' \<longleftrightarrow> (\<exists>ms. buffer c = m # ms \<and> c' = c\<lparr>buffer := ms\<rparr>)"
  by (cases "buffer c") (auto simp: try_recv_def)

end
