(* ===== verification/Json.thy ===== *)
theory Json
  imports Prelude
begin

text \<open>
  The part of \<open>encoding/json\<close> the sources use.  A document is modelled by its tree: \<open>JTime\<close> is
  the RFC 3339 string of an instant, \<open>JRaw\<close> a JSON text included verbatim (a
  \<open>json.RawMessage\<close>).  The readers below are what \<open>json.Unmarshal\<close> does for one field of a
  struct: a missing or null member leaves the zero value, a member of another type is an error,
  a number outside \<open>uint64\<close> is an error, and of two members with one name the last counts.
  \<open>quote\<close> and \<open>compact\<close> are the text side: the string literal \<open>json.Marshal\<close> writes (HTML
  escaping on) and what it makes of a raw message.
\<close>

datatype json =
    JNull
  | JBool bool
  | JNum int
  | JStr string
  | JTime instant
  | JRaw string
  | JArr "json list"
  | JObj "(string \<times> json) list"

datatype json_error = JsonType string | JsonSyntax


section \<open>Members of an object\<close>

fun member :: "(string \<times> json) list \<Rightarrow> string \<Rightarrow> json option" where
  "member [] k = None"
| "member ((k', v) # ms) k =
     (case member ms k of Some w \<Rightarrow> Some w | None \<Rightarrow> if k' = k then Some v else None)"

lemma member_append:
  "member (xs @ ys) k = (case member ys k of Some w \<Rightarrow> Some w | None \<Rightarrow> member xs k)"
  by (induction xs k rule: member.induct) (auto split: option.splits)

definition members :: "json \<Rightarrow> json_error + (string \<times> json) list" where
  "members j = (case j of JObj ms \<Rightarrow> Inr ms | JNull \<Rightarrow> Inr [] | _ \<Rightarrow> Inl (JsonType ''object''))"

text \<open>\<open>omitempty\<close>: a member that is left out when its value is empty.\<close>

definition omit_string :: "string \<Rightarrow> string \<Rightarrow> (string \<times> json) list" where
  "omit_string k s = (if s = [] then [] else [(k, JStr s)])"

definition omit_raw :: "string \<Rightarrow> string \<Rightarrow> (string \<times> json) list" where
  "omit_raw k s = (if s = [] then [] else [(k, JRaw s)])"

definition omit_time :: "string \<Rightarrow> instant option \<Rightarrow> (string \<times> json) list" where
  "omit_time k t = (case t of None \<Rightarrow> [] | Some t \<Rightarrow> [(k, JTime t)])"

definition omit_object :: "string \<Rightarrow> (string \<times> json) list \<Rightarrow> (string \<times> json) list" where
  "omit_object k ms = (if ms = [] then [] else [(k, JObj ms)])"


section \<open>Readers of one field\<close>

definition read_string :: "(string \<times> json) list \<Rightarrow> string \<Rightarrow> json_error + string" where
  "read_string ms k = (case member ms k of
       None \<Rightarrow> Inr [] | Some JNull \<Rightarrow> Inr [] | Some (JStr s) \<Rightarrow> Inr s | Some _ \<Rightarrow> Inl (JsonType k))"

definition read_raw :: "(string \<times> json) list \<Rightarrow> string \<Rightarrow> json_error + string" where
  "read_raw ms k = (case member ms k of
       None \<Rightarrow> Inr [] | Some (JRaw s) \<Rightarrow> Inr s | Some _ \<Rightarrow> Inl (JsonType k))"

definition read_u64 :: "(string \<times> json) list \<Rightarrow> string \<Rightarrow> json_error + u64" where
  "read_u64 ms k = (case member ms k of
       None \<Rightarrow> Inr 0 | Some JNull \<Rightarrow> Inr 0
     | Some (JNum n) \<Rightarrow> if 0 \<le> n \<and> n < 2 ^ 64 then Inr (of_int n) else Inl (JsonType k)
     | Some _ \<Rightarrow> Inl (JsonType k))"

definition read_time :: "(string \<times> json) list \<Rightarrow> string \<Rightarrow> json_error + instant" where
  "read_time ms k = (case member ms k of
       None \<Rightarrow> Inr zero_time | Some JNull \<Rightarrow> Inr zero_time | Some (JTime t) \<Rightarrow> Inr t
     | Some _ \<Rightarrow> Inl (JsonType k))"

definition read_time_pointer :: "(string \<times> json) list \<Rightarrow> string \<Rightarrow> json_error + instant option" where
  "read_time_pointer ms k = (case member ms k of
       None \<Rightarrow> Inr None | Some JNull \<Rightarrow> Inr None | Some (JTime t) \<Rightarrow> Inr (Some t)
     | Some _ \<Rightarrow> Inl (JsonType k))"

fun strings_of :: "json list \<Rightarrow> json_error + string list" where
  "strings_of [] = Inr []"
| "strings_of (JStr s # js) = bindE (strings_of js) (\<lambda>ss. Inr (s # ss))"
| "strings_of (JNull # js) = bindE (strings_of js) (\<lambda>ss. Inr ([] # ss))"
| "strings_of (_ # js) = Inl (JsonType ''string'')"

definition read_strings :: "(string \<times> json) list \<Rightarrow> string \<Rightarrow> json_error + string list option" where
  "read_strings ms k = (case member ms k of
       None \<Rightarrow> Inr None | Some JNull \<Rightarrow> Inr None
     | Some (JArr js) \<Rightarrow> bindE (strings_of js) (\<lambda>ss. Inr (Some ss))
     | Some _ \<Rightarrow> Inl (JsonType k))"

definition read_object :: "(string \<times> json) list \<Rightarrow> string \<Rightarrow> json_error + (string \<times> json) list" where
  "read_object ms k = (case member ms k of
       None \<Rightarrow> Inr [] | Some JNull \<Rightarrow> Inr [] | Some (JObj fs) \<Rightarrow> Inr fs
     | Some _ \<Rightarrow> Inl (JsonType k))"

lemmas omit_defs = omit_string_def omit_raw_def omit_time_def omit_object_def
lemmas read_defs = read_string_def read_raw_def read_u64_def read_time_def
  read_time_pointer_def read_strings_def read_object_def

lemma strings_of_map_JStr [simp]: "strings_of (map JStr ss) = Inr ss"
  by (induction ss) simp_all

lemma member_omit [simp]:
  "member (omit_string k s) k' = (if k = k' \<and> s \<noteq> [] then Some (JStr s) else None)"
  "member (omit_raw k s) k' = (if k = k' \<and> s \<noteq> [] then Some (JRaw s) else None)"
  "member (omit_time k t) k' = (if k = k' then map_option JTime t else None)"
  "member (omit_object k ms) k' = (if k = k' \<and> ms \<noteq> [] then Some (JObj ms) else None)"
  by (auto simp: omit_defs split: option.splits)

lemma u64_number [simp]: "0 \<le> uint (w :: u64) \<and> uint w < 18446744073709551616"
  using uint_lt2p [of w] by simp


section \<open>Text\<close>

definition hex_digit :: "nat \<Rightarrow> char" where
  "hex_digit d = (if d < 10 then char_of (48 + d) else char_of (87 + d))"

definition u_escape :: "nat \<Rightarrow> string" where
  "u_escape n =
     [CHR 0x5C, CHR ''u'', CHR ''0'', CHR ''0'', hex_digit (n div 16 mod 16), hex_digit (n mod 16)]"

text \<open>One byte of a string literal as \<open>json.Marshal\<close> writes it.\<close>

definition escape_char :: "char \<Rightarrow> string" where
  "escape_char c = (let n = (of_char c :: nat) in
     if n = 34 then [CHR 0x5C, c]
     else if n = 92 then [c, c]
     else if n = 8 then [CHR 0x5C, CHR ''b'']
     else if n = 9 then [CHR 0x5C, CHR ''t'']
     else if n = 10 then [CHR 0x5C, CHR ''n'']
     else if n = 12 then [CHR 0x5C, CHR ''f'']
     else if n = 13 then [CHR 0x5C, CHR ''r'']
     else if n < 32 \<or> n = 60 \<or> n = 62 \<or> n = 38 then u_escape n
     else [c])"

definition quote :: "string \<Rightarrow> string" where
  "quote s = CHR 0x22 # concat (map escape_char s) @ [CHR 0x22]"

text \<open>
  A raw message in a marshalled document: white space outside string literals goes, and
  \<open><\<close>, \<open>>\<close> and \<open>&\<close> are escaped.  \<open>quoted\<close> says whether the scan is inside a literal,
  \<open>esc\<close> whether the byte before was a backslash inside one.
\<close>

fun compact :: "bool \<Rightarrow> bool \<Rightarrow> string \<Rightarrow> string" where
  "compact quoted esc [] = []"
| "compact quoted esc (c # cs) = (let n = (of_char c :: nat) in
     if \<not> quoted \<and> (n = 32 \<or> n = 9 \<or> n = 10 \<or> n = 13) then compact False False cs
     else if n = 60 \<or> n = 62 \<or> n = 38 then u_escape n @ compact quoted False cs
     else if n = 34 \<and> \<not> esc then c # compact (\<not> quoted) False cs
     else c # compact quoted (quoted \<and> n = 92 \<and> \<not> esc) cs)"

text \<open>A nil raw message is written \<open>null\<close>.\<close>

definition raw_text :: "string \<Rightarrow> string" where
  "raw_text s = (if s = [] then ''null'' else compact False False s)"

end
