(* ===== verification/Model.thy ===== *)
theory Model
  imports Json
begin

text \<open>
  \<open>internal/model/model.go\<close>: the records the host keeps (\<open>Instance\<close>, \<open>InstanceSpec\<close>,
  \<open>Event\<close>, \<open>Usage\<close>), the validation of instance names, the canonical form of a
  specification, and the JSON documents the records are stored as.  The decoders are proved to
  undo the encoders.  A nil slice is \<open>None\<close> where the code tells it from an empty one, a nil
  map or raw message is empty.
\<close>

section \<open>Instances\<close>

record Instance =
  ID :: string
  Name :: string
  CreatedAt :: instant
  LastSeenAt :: "instant option"
  AgentVersion :: string
  Capabilities :: "string list option"
  DesiredGeneration :: u64
  DesiredDigest :: string
  DesiredSpec :: string
  AppliedGeneration :: u64
  AppliedDigest :: string
  Phase :: string
  Reason :: string

definition ascii_between :: "nat \<Rightarrow> char \<Rightarrow> nat \<Rightarrow> bool" where
  "ascii_between a c b \<longleftrightarrow> a \<le> of_char c \<and> of_char c \<le> b"

text \<open>\<open>[a-z0-9]\<close> and \<open>[a-z0-9-]\<close>.\<close>

definition label_char :: "char \<Rightarrow> bool" where
  "label_char c \<longleftrightarrow> ascii_between 97 c 122 \<or> ascii_between 48 c 57"

definition label_or_hyphen :: "char \<Rightarrow> bool" where
  "label_or_hyphen c \<longleftrightarrow> label_char c \<or> c = CHR ''-''"

text \<open>\<open>^[a-z0-9](?:[a-z0-9-]{0,61}[a-z0-9])?$\<close>\<close>

definition instanceNamePattern :: "string \<Rightarrow> bool" where
  "instanceNamePattern name = (case name of
       [] \<Rightarrow> False
     | c # rest \<Rightarrow> label_char c \<and>
         (rest = [] \<or>
          length (butlast rest) \<le> 61 \<and> list_all label_or_hyphen (butlast rest) \<and> label_char (last rest)))"

datatype model_error = ErrInvalidInstanceName | MarshalError

definition ValidateInstanceName :: "string \<Rightarrow> model_error option" where
  "ValidateInstanceName name = (if \<not> instanceNamePattern name then Some ErrInvalidInstanceName else None)"

definition Instance_members :: "Instance \<Rightarrow> (string \<times> json) list" where
  "Instance_members i =
     [(''id'', JStr (ID i)), (''name'', JStr (Name i)), (''created_at'', JTime (CreatedAt i))]
     @ omit_time ''last_seen_at'' (LastSeenAt i)
     @ omit_string ''agent_version'' (AgentVersion i)
     @ [(''capabilities'', case Capabilities i of None \<Rightarrow> JNull | Some cs \<Rightarrow> JArr (map JStr cs)),
        (''desired_generation'', JNum (uint (DesiredGeneration i)))]
     @ omit_string ''desired_digest'' (DesiredDigest i)
     @ omit_raw ''desired_spec'' (DesiredSpec i)
     @ [(''applied_generation'', JNum (uint (AppliedGeneration i)))]
     @ omit_string ''applied_digest'' (AppliedDigest i)
     @ [(''phase'', JStr (Phase i))]
     @ omit_string ''reason'' (Reason i)"

definition marshal_Instance :: "Instance \<Rightarrow> json" where
  "marshal_Instance i = JObj (Instance_members i)"

definition unmarshal_Instance :: "json \<Rightarrow> json_error + Instance" where
  "unmarshal_Instance j =
     bindE (members j) (\<lambda>ms.
     bindE (read_string ms ''id'') (\<lambda>id'.
     bindE (read_string ms ''name'') (\<lambda>name.
     bindE (read_time ms ''created_at'') (\<lambda>created.
     bindE (read_time_pointer ms ''last_seen_at'') (\<lambda>seen.
     bindE (read_string ms ''agent_version'') (\<lambda>version.
     bindE (read_strings ms ''capabilities'') (\<lambda>caps.
     bindE (read_u64 ms ''desired_generation'') (\<lambda>dgen.
     bindE (read_string ms ''desired_digest'') (\<lambda>ddig.
     bindE (read_raw ms ''desired_spec'') (\<lambda>dspec.
     bindE (read_u64 ms ''applied_generation'') (\<lambda>agen.
     bindE (read_string ms ''applied_digest'') (\<lambda>adig.
     bindE (read_string ms ''phase'') (\<lambda>phase.
     bindE (read_string ms ''reason'') (\<lambda>reason.
     Inr \<lparr>ID = id', Name = name, CreatedAt = created, LastSeenAt = seen, AgentVersion = version,
          Capabilities = caps, DesiredGeneration = dgen, DesiredDigest = ddig, DesiredSpec = dspec,
          AppliedGeneration = agen, AppliedDigest = adig, Phase = phase, Reason = reason\<rparr>))))))))))))))"

lemma member_Instance_members:
  "member (Instance_members i) ''id'' = Some (JStr (ID i))"
  "member (Instance_members i) ''name'' = Some (JStr (Name i))"
  "member (Instance_members i) ''created_at'' = Some (JTime (CreatedAt i))"
  "member (Instance_members i) ''last_seen_at'' = map_option JTime (LastSeenAt i)"
  "member (Instance_members i) ''agent_version'' =
     (if AgentVersion i \<noteq> [] then Some (JStr (AgentVersion i)) else None)"
  "member (Instance_members i) ''capabilities'' =
     Some (case Capabilities i of None \<Rightarrow> JNull | Some cs \<Rightarrow> JArr (map JStr cs))"
  "member (Instance_members i) ''desired_generation'' = Some (JNum (uint (DesiredGeneration i)))"
  "member (Instance_members i) ''desired_digest'' =
     (if DesiredDigest i \<noteq> [] then Some (JStr (DesiredDigest i)) else None)"
  "member (Instance_members i) ''desired_spec'' =
     (if DesiredSpec i \<noteq> [] then Some (JRaw (DesiredSpec i)) else None)"
  "member (Instance_members i) ''applied_generation'' = Some (JNum (uint (AppliedGeneration i)))"
  "member (Instance_members i) ''applied_digest'' =
     (if AppliedDigest i \<noteq> [] then Some (JStr (AppliedDigest i)) else None)"
  "member (Instance_members i) ''phase'' = Some (JStr (Phase i))"
  "member (Instance_members i) ''reason'' =
     (if Reason i \<noteq> [] then Some (JStr (Reason i)) else None)"
  by (simp_all add: Instance_members_def member_append split: option.splits)

lemma read_Instance_members:
  "read_string (Instance_members i) ''agent_version'' = Inr (AgentVersion i)"
  "read_string (Instance_members i) ''desired_digest'' = Inr (DesiredDigest i)"
  "read_raw (Instance_members i) ''desired_spec'' = Inr (DesiredSpec i)"
  "read_string (Instance_members i) ''applied_digest'' = Inr (AppliedDigest i)"
  "read_string (Instance_members i) ''reason'' = Inr (Reason i)"
  "read_time_pointer (Instance_members i) ''last_seen_at'' = Inr (LastSeenAt i)"
  "read_strings (Instance_members i) ''capabilities'' = Inr (Capabilities i)"
  by (simp_all add: read_defs member_Instance_members split: option.splits)

lemma unmarshal_marshal_Instance [simp]: "unmarshal_Instance (marshal_Instance i) = Inr i"
  by (simp add: unmarshal_Instance_def marshal_Instance_def members_def read_Instance_members)
    (simp add: read_defs member_Instance_members)

text \<open>The fields a new instance starts with: \<open>model.Instance{ID, Name, CreatedAt, Capabilities, Phase}\<close>.\<close>

definition zero_Instance :: Instance where
  "zero_Instance = \<lparr>ID = [], Name = [], CreatedAt = zero_time, LastSeenAt = None, AgentVersion = [],
     Capabilities = None, DesiredGeneration = 0, DesiredDigest = [], DesiredSpec = [],
     AppliedGeneration = 0, AppliedDigest = [], Phase = [], Reason = []\<rparr>"


section \<open>Specifications\<close>

record InstanceSpec =
  Engine :: string
  Artifact :: string
  DesiredPhase :: string
  Config :: string
  Labels :: "(string \<times> string) list"

definition labels_text :: "(string \<times> string) list \<Rightarrow> string" where
  "labels_text ls = ''{'' @
     concat (case map (\<lambda>(k, v). quote k @ '':'' @ quote v) (sort_key fst ls) of
        [] \<Rightarrow> [] | m # ms \<Rightarrow> m # map (\<lambda>x. CHR '','' # x) ms) @ ''}''"

text \<open>\<open>json.Marshal\<close> of a specification: the members in the order of the struct, map keys sorted.\<close>

definition marshal_InstanceSpec :: "InstanceSpec \<Rightarrow> string" where
  "marshal_InstanceSpec s =
     ''{'' @ quote ''engine'' @ '':'' @ quote (Engine s) @
     '','' @ quote ''artifact'' @ '':'' @ quote (Artifact s) @
     '','' @ quote ''desired_phase'' @ '':'' @ quote (DesiredPhase s) @
     '','' @ quote ''config'' @ '':'' @ raw_text (Config s) @
     (if Labels s = [] then [] else '','' @ quote ''labels'' @ '':'' @ labels_text (Labels s)) @ ''}''"

text \<open>
  \<open>json_valid\<close> is the scanner of \<open>encoding/json\<close>, which rejects a raw message that is not
  JSON; \<open>sha256_hex\<close> is the lower-case hexadecimal SHA-256 of a byte string.
\<close>

definition CanonicalSpec ::
    "(string \<Rightarrow> bool) \<Rightarrow> (string \<Rightarrow> string) \<Rightarrow> InstanceSpec \<Rightarrow> model_error + string \<times> string" where
  "CanonicalSpec json_valid sha256_hex spec =
     (if Config spec \<noteq> [] \<and> \<not> json_valid (Config spec) then Inl MarshalError
      else let canonical = marshal_InstanceSpec spec in Inr (canonical, sha256_hex canonical))"


section \<open>Events and usage\<close>

text \<open>
  The data of an event is a JSON object.  Go reads its numbers back as \<open>float64\<close>, which is exact up
  to 2 to the 53rd; here they are kept as they are.
\<close>

record Event =
  EventID :: u64
  EventType :: string
  ResourceID :: string
  At :: instant
  Data :: "(string \<times> json) list"

definition marshal_Event :: "Event \<Rightarrow> json" where
  "marshal_Event e = JObj (
     [(''id'', JNum (uint (EventID e))), (''type'', JStr (EventType e))]
     @ omit_string ''resource_id'' (ResourceID e)
     @ [(''at'', JTime (At e))]
     @ omit_object ''data'' (Data e))"

definition unmarshal_Event :: "json \<Rightarrow> json_error + Event" where
  "unmarshal_Event j =
     bindE (members j) (\<lambda>ms.
     bindE (read_u64 ms ''id'') (\<lambda>id'.
     bindE (read_string ms ''type'') (\<lambda>type.
     bindE (read_string ms ''resource_id'') (\<lambda>rid.
     bindE (read_time ms ''at'') (\<lambda>at.
     bindE (read_object ms ''data'') (\<lambda>data.
     Inr \<lparr>EventID = id', EventType = type, ResourceID = rid, At = at, Data = data\<rparr>))))))"

lemma unmarshal_marshal_Event [simp]: "unmarshal_Event (marshal_Event e) = Inr e"
  by (cases e)
    (simp add: marshal_Event_def unmarshal_Event_def members_def read_defs member_append
      split: option.splits)

record Usage =
  UplinkBytes :: u64
  DownlinkBytes :: u64

definition zero_Usage :: Usage where
  "zero_Usage = \<lparr>UplinkBytes = 0, DownlinkBytes = 0\<rparr>"

definition marshal_Usage :: "Usage \<Rightarrow> json" where
  "marshal_Usage u = JObj [(''uplink_bytes'', JNum (uint (UplinkBytes u))),
     (''downlink_bytes'', JNum (uint (DownlinkBytes u)))]"

definition unmarshal_Usage :: "json \<Rightarrow> json_error + Usage" where
  "unmarshal_Usage j =
     bindE (members j) (\<lambda>ms.
     bindE (read_u64 ms ''uplink_bytes'') (\<lambda>up.
     bindE (read_u64 ms ''downlink_bytes'') (\<lambda>down.
     Inr \<lparr>UplinkBytes = up, DownlinkBytes = down\<rparr>)))"

lemma unmarshal_marshal_Usage [simp]: "unmarshal_Usage (marshal_Usage u) = Inr u"
  by (cases u) (simp add: marshal_Usage_def unmarshal_Usage_def members_def read_defs)

end
