(* ===== verification/Proto.thy ===== *)
theory Proto
  imports Prelude
begin

text \<open>
  The messages of the control stream, \<open>gen/control/v1/control.pb.go\<close>: one record per message,
  one datatype per \<open>oneof\<close> (\<open>NoInstanceBody\<close> and \<open>NoHostBody\<close> are the unset ones).  An
  element of a repeated message field is a pointer, so it may be nil (\<open>None\<close>).  Observation
  times are carried but never read by the sources and are left out.
\<close>

record InstanceHello =
  HelloInstanceId :: string
  HelloName :: string
  HelloAgentVersion :: string
  HelloCapabilities :: "string list option"

record InstanceStatus =
  StatusInstanceId :: string
  StatusAppliedGeneration :: u64
  StatusSpecDigest :: string
  StatusPhase :: string
  StatusReason :: string

record MeterDelta =
  Sequence :: u64
  PrincipalId :: string
  QuotaEpoch :: string
  DeltaUplink :: u64
  DeltaDownlink :: u64

record MeterBatch =
  BatchInstanceId :: string
  FirstSequence :: u64
  Deltas :: "MeterDelta option list"

datatype InstanceMessage =
    HelloMessage InstanceHello
  | StatusMessage InstanceStatus
  | MetersMessage MeterBatch
  | NoInstanceBody

record DesiredState =
  DesiredInstanceId :: string
  Generation :: u64
  SpecDigest :: string
  CanonicalSpecBytes :: string

record MeterAck =
  AckInstanceId :: string
  ContiguousSequence :: u64

record HostNotice =
  NoticeCode :: string
  NoticeText :: string

datatype HostMessage =
    DesiredMessage DesiredState
  | MeterAckMessage MeterAck
  | NoticeMessage HostNotice
  | NoHostBody

definition GetHello :: "InstanceMessage \<Rightarrow> InstanceHello option" where
  "GetHello m = (case m of HelloMessage h \<Rightarrow> Some h | _ \<Rightarrow> None)"

end
