(* ===== verification/Badger.thy ===== *)
theory Badger
  imports Json "HOL-Library.Sublist"
begin

text \<open>
  Badger (\<open>github.com/dgraph-io/badger/v4\<close>), the key-value database of the host and of the
  agents, is a third-party package: the definitions that use it take its operations as an
  argument, a \<open>badger\<close> record over an unknown database type.  A transaction is the database as
  the transaction sees it.  The locale \<open>badger_laws\<close> states what the sources rely on, as the
  package documents it: a transaction reads its own writes, a key that was deleted or whose time
  to live has passed is not found, an iterator walks the keys of a prefix in byte order, a commit
  that succeeds publishes the writes and one that fails leaves none of them.  Any operation may
  fail.  A commit that meets a concurrent writer fails with \<open>ErrConflict\<close>; the contents are then
  whatever that writer left, which \<open>rely\<close> describes.

  \<open>map_badger\<close> is a database that has these properties, a list of entries with expiry times and
  a number of commits that still fail with \<open>ErrConflict\<close>.
\<close>

section \<open>The interface\<close>

text \<open>What is stored under a key: bytes, or the JSON text of a document.\<close>

datatype stored = Bytes string | Doc json

datatype badger_error = ErrKeyNotFound | ErrConflict | BadgerFailure string

text \<open>The item of a key: what \<open>item.Value\<close> hands to its callback, or its error.\<close>

type_synonym item = "badger_error + stored"

record 'db badger =
  txn_get :: "'db \<Rightarrow> instant \<Rightarrow> string \<Rightarrow> badger_error + item"
  txn_set :: "'db \<Rightarrow> string \<Rightarrow> stored \<Rightarrow> badger_error + 'db"
  txn_set_ttl :: "'db \<Rightarrow> instant \<Rightarrow> string \<Rightarrow> stored \<Rightarrow> duration \<Rightarrow> badger_error + 'db"
  txn_delete :: "'db \<Rightarrow> string \<Rightarrow> badger_error + 'db"
  txn_iterate :: "'db \<Rightarrow> instant \<Rightarrow> string \<Rightarrow> string \<Rightarrow> (string \<times> item) list"
  txn_commit :: "'db \<Rightarrow> 'db \<Rightarrow> badger_error option \<times> 'db"

text \<open>The contents of a database at an instant.\<close>

type_synonym contents = "instant \<Rightarrow> string \<Rightarrow> stored option"

locale badger_laws =
  fixes B :: "'db badger"
    and look :: "'db \<Rightarrow> contents"
    and rely :: "contents \<Rightarrow> contents \<Rightarrow> bool"
  assumes get_value: "txn_get B s now k = Inr (Inr v) \<Longrightarrow> look s now k = Some v"
    and get_item: "txn_get B s now k = Inr it \<Longrightarrow> look s now k \<noteq> None"
    and get_missing: "txn_get B s now k = Inl ErrKeyNotFound \<Longrightarrow> look s now k = None"
    and set_value: "txn_set B s k v = Inr s' \<Longrightarrow> look s' t = (look s t)(k \<mapsto> v)"
    and set_ttl_alive: "txn_set_ttl B s now k v d = Inr s' \<Longrightarrow> t + second \<le> now + d \<Longrightarrow>
          look s' t = (look s t)(k \<mapsto> v)"
    and set_ttl_expired: "txn_set_ttl B s now k v d = Inr s' \<Longrightarrow> now + d \<le> t \<Longrightarrow>
          look s' t = (look s t)(k := None)"
    and set_ttl_others: "txn_set_ttl B s now k v d = Inr s' \<Longrightarrow> j \<noteq> k \<Longrightarrow> look s' t j = look s t j"
    and delete_key: "txn_delete B s k = Inr s' \<Longrightarrow> look s' t = (look s t)(k := None)"
    and iterate_sorted: "prefix p start \<Longrightarrow>
          sorted_wrt (<) (map fst (txn_iterate B s now p start))"
    and iterate_keys: "prefix p start \<Longrightarrow>
          k \<in> fst ` set (txn_iterate B s now p start) \<longleftrightarrow>
            look s now k \<noteq> None \<and> prefix p k \<and> start \<le> k"
    and iterate_values: "prefix p start \<Longrightarrow> (k, Inr v) \<in> set (txn_iterate B s now p start) \<Longrightarrow>
          look s now k = Some v"
    and commit_publishes: "txn_commit B s txn = (None, s') \<Longrightarrow> look s' = look txn"
    and commit_discards: "txn_commit B s txn = (Some e, s') \<Longrightarrow> e \<noteq> ErrConflict \<Longrightarrow> look s' = look s"
    and commit_conflict: "txn_commit B s txn = (Some ErrConflict, s') \<Longrightarrow> rely (look s) (look s')"
begin

lemma iterate_all_values:
  assumes p: "prefix p start"
    and ok: "\<forall>(k, it) \<in> set (txn_iterate B s now p start). \<exists>v. it = Inr v"
    and it: "(k, it) \<in> set (txn_iterate B s now p start)"
  shows "it = Inr (the (look s now k))"
  using iterate_values [OF p, of k _ s now] ok it by fastforce

end

text \<open>
  A database none of whose operations fails, except that a commit may meet a conflict:
  \<open>attempts\<close> bounds how many commits in a row do.
\<close>

locale reliable_badger = badger_laws +
  assumes get_total: "look s now k = Some v \<Longrightarrow> txn_get B s now k = Inr (Inr v)"
    and get_total_none: "look s now k = None \<Longrightarrow> txn_get B s now k = Inl ErrKeyNotFound"
    and set_total: "\<exists>s'. txn_set B s k v = Inr s'"
    and set_ttl_total: "\<exists>s'. txn_set_ttl B s now k v d = Inr s'"
    and delete_total: "\<exists>s'. txn_delete B s k = Inr s'"
    and iterate_total: "prefix p start \<Longrightarrow> (k, it) \<in> set (txn_iterate B s now p start) \<Longrightarrow>
          \<exists>v. it = Inr v"
    and commit_total: "txn_commit B s txn = (Some e, s') \<Longrightarrow> e = ErrConflict"


section \<open>Transactions\<close>

text \<open>
  \<open>db.Update\<close>: the body runs on a transaction; an error discards it, and otherwise it is
  committed.  \<open>db.View\<close> is the body run on the database itself.  The bodies return their value
  together with the transaction they leave.
\<close>

definition Update ::
    "'db badger \<Rightarrow> (badger_error \<Rightarrow> 'e) \<Rightarrow> 'db \<Rightarrow> ('db \<Rightarrow> 'e + 'a \<times> 'db) \<Rightarrow> ('e + 'a) \<times> 'db" where
  "Update B wrap s body = (case body s of
       Inl e \<Rightarrow> (Inl e, s)
     | Inr (a, txn) \<Rightarrow> (case txn_commit B s txn of
           (None, s') \<Rightarrow> (Inr a, s')
         | (Some e, s') \<Rightarrow> (Inl (wrap e), s')))"

context badger_laws
begin

lemma Update_ok:
  assumes "Update B wrap s body = (Inr a, s')"
  obtains txn where "body s = Inr (a, txn)" and "look s' = look txn"
  using assms
  by (auto simp: Update_def split: sum.splits prod.splits option.splits dest: commit_publishes)

lemma Update_error:
  assumes "Update B wrap s body = (Inl e, s')"
  shows "look s' = look s \<or> e = wrap ErrConflict \<and> rely (look s) (look s')"
  using assms commit_discards commit_conflict
  by (auto simp: Update_def split: sum.splits prod.splits option.splits) metis+

end

context reliable_badger
begin

lemma Update_total:
  assumes "body s = Inr (a, txn)"
  shows "(\<exists>s'. Update B wrap s body = (Inr a, s')) \<or> (\<exists>s'. Update B wrap s body = (Inl (wrap ErrConflict), s'))"
  using assms commit_total by (fastforce simp: Update_def split: prod.splits option.splits)

end


section \<open>A database with these properties\<close>

text \<open>Each entry has a value and, if it was stored with a time to live, the instant it expires.\<close>

record map_db =
  entries :: "(string \<times> stored \<times> instant option) list"
  conflicts :: nat

definition empty_db :: map_db where
  "empty_db = \<lparr>entries = [], conflicts = 0\<rparr>"

fun alive :: "instant \<Rightarrow> stored \<times> instant option \<Rightarrow> stored option" where
  "alive now (v, None) = Some v"
| "alive now (v, Some expiry) = (if now < expiry then Some v else None)"

definition map_look :: "map_db \<Rightarrow> contents" where
  "map_look s now k = Option.bind (map_of (entries s) k) (alive now)"

definition put :: "string \<Rightarrow> stored \<times> instant option \<Rightarrow> map_db \<Rightarrow> map_db" where
  "put k e s = s\<lparr>entries := (k, e) # filter (\<lambda>x. fst x \<noteq> k) (entries s)\<rparr>"

definition map_iterate :: "map_db \<Rightarrow> instant \<Rightarrow> string \<Rightarrow> string \<Rightarrow> (string \<times> item) list" where
  "map_iterate s now p start =
     map (\<lambda>k. (k, Inr (the (map_look s now k))))
       (filter (\<lambda>k. map_look s now k \<noteq> None \<and> prefix p k \<and> start \<le> k)
         (sort (remdups (map fst (entries s)))))"

definition map_badger :: "map_db badger" where
  "map_badger = \<lparr>
     txn_get = (\<lambda>s now k. case map_look s now k of None \<Rightarrow> Inl ErrKeyNotFound | Some v \<Rightarrow> Inr (Inr v)),
     txn_set = (\<lambda>s k v. Inr (put k (v, None) s)),
     txn_set_ttl = (\<lambda>s now k v d. Inr (put k (v, Some (now + d)) s)),
     txn_delete = (\<lambda>s k. Inr (s\<lparr>entries := filter (\<lambda>x. fst x \<noteq> k) (entries s)\<rparr>)),
     txn_iterate = map_iterate,
     txn_commit = (\<lambda>s txn. if 0 < conflicts s then (Some ErrConflict, s\<lparr>conflicts := conflicts s - 1\<rparr>)
                           else (None, txn))\<rparr>"

lemma map_of_filter_key: "map_of (filter (\<lambda>x. fst x \<noteq> k) xs) = (map_of xs)(k := None)"
  by (induction xs) (auto simp: fun_eq_iff)

lemma map_look_put: "map_look (put k e s) t = (map_look s t)(k := alive t e)"
  by (auto simp: map_look_def put_def map_of_filter_key fun_eq_iff)

lemma map_look_delete:
  "map_look (s\<lparr>entries := filter (\<lambda>x. fst x \<noteq> k) (entries s)\<rparr>) t = (map_look s t)(k := None)"
  by (auto simp: map_look_def map_of_filter_key fun_eq_iff)

lemma map_look_conflicts: "map_look (s\<lparr>conflicts := n\<rparr>) = map_look s"
  by (simp add: map_look_def fun_eq_iff)

lemma map_look_key: "map_look s now k \<noteq> None \<Longrightarrow> k \<in> fst ` set (entries s)"
  by (auto simp: map_look_def map_of_eq_None_iff bind_eq_Some_conv dest: map_of_SomeD
      intro: image_eqI [rotated])

lemma map_iterate_keys:
  "fst ` set (map_iterate s now p start) =
     {k. map_look s now k \<noteq> None \<and> prefix p k \<and> start \<le> k}"
  using map_look_key [of s now] by (auto simp: map_iterate_def image_image)

interpretation map_db: reliable_badger map_badger map_look "(=)"
proof unfold_locales
  fix s :: map_db and now :: instant and p start :: string
  have "sorted_wrt (<) (sort (remdups (map fst (entries s))))"
    by (simp add: strict_sorted_iff)
  then show "sorted_wrt (<) (map fst (txn_iterate map_badger s now p start))"
    by (simp add: map_badger_def map_iterate_def o_def sorted_wrt_filter)
next
  fix s :: map_db and now :: instant and p start k :: string
  show "k \<in> fst ` set (txn_iterate map_badger s now p start) \<longleftrightarrow>
      map_look s now k \<noteq> None \<and> prefix p k \<and> start \<le> k"
    by (simp add: map_badger_def map_iterate_keys)
qed (auto simp: map_badger_def map_look_put map_look_delete map_look_conflicts map_iterate_def
       split: option.splits if_splits)

text \<open>The operations of \<open>map_badger\<close>, for evaluation on concrete databases.\<close>

lemma map_badger_ops:
  "txn_get map_badger s now k =
     (case map_look s now k of None \<Rightarrow> Inl ErrKeyNotFound | Some v \<Rightarrow> Inr (Inr v))"
  "txn_set map_badger s k v = Inr (put k (v, None) s)"
  "txn_set_ttl map_badger s now k v d = Inr (put k (v, Some (now + d)) s)"
  "txn_delete map_badger s k = Inr (s\<lparr>entries := filter (\<lambda>x. fst x \<noteq> k) (entries s)\<rparr>)"
  "txn_iterate map_badger s now p start = map_iterate s now p start"
  "txn_commit map_badger s txn =
     (if 0 < conflicts s then (Some ErrConflict, s\<lparr>conflicts := conflicts s - 1\<rparr>) else (None, txn))"
  by (simp_all add: map_badger_def)

lemma conflicts_put [simp]: "conflicts (put k e s) = conflicts s"
  by (simp add: put_def)

lemma map_look_empty [simp]: "map_look empty_db t k = None"
  by (simp add: map_look_def empty_db_def)

text \<open>The database with the given entries, none of which expires.\<close>

definition db_of :: "(string \<times> stored) list \<Rightarrow> nat \<Rightarrow> map_db" where
  "db_of es n = \<lparr>entries = map (\<lambda>(k, v). (k, v, None)) es, conflicts = n\<rparr>"

lemma map_look_db_of [simp]: "map_look (db_of es n) t = map_of es"
  by (induction es) (auto simp: db_of_def map_look_def fun_eq_iff)

lemma conflicts_db_of [simp]: "conflicts (db_of es n) = n"
  by (simp add: db_of_def)

lemmas map_badger_simps = map_badger_ops map_look_put map_look_delete map_look_conflicts

end
