(* ===== verification/Store.thy ===== *)
theory Store
  imports Model Proto Badger
begin

text \<open>
  \<open>internal/store/store.go\<close>: the host's durable state.  Every operation takes the Badger
  operations \<open>B\<close>, the instant it runs at and the database, and returns its result together with
  the database it leaves; an operation that only reads returns the result alone.  Where a Go
  method returns a value along with an error, the value is left out: no caller reads it.
\<close>

section \<open>Errors and keys\<close>

datatype store_error =
    ErrNotFound
  | ErrAlreadyConfigured
  | StoreBadger badger_error
  | StoreJson json_error
  | StoreFailure string

definition operatorReadyKey :: string where "operatorReadyKey = ''auth/operator-ready''"
definition pendingTOTPKey :: string where "pendingTOTPKey = ''auth/pending-totp''"
definition totpSecretKey :: string where "totpSecretKey = ''auth/totp-secret''"
definition totpStepKey :: string where "totpStepKey = ''auth/totp-step''"
definition recoveryPrefix :: string where "recoveryPrefix = ''auth/recovery/''"
definition sessionPrefix :: string where "sessionPrefix = ''auth/session/''"
definition instancePrefix :: string where "instancePrefix = ''instance/''"
definition meterAckPrefix :: string where "meterAckPrefix = ''meter/ack/''"
definition usageTotalKey :: string where "usageTotalKey = ''meter/usage/total''"
definition eventSequenceKey :: string where "eventSequenceKey = ''meta/events-sequence''"
definition eventPrefix :: string where "eventPrefix = ''events/''"

definition defaultEventLimit :: nat where "defaultEventLimit = 500"

definition instanceKey :: "string \<Rightarrow> string" where "instanceKey iid = instancePrefix @ iid"
definition meterAckKey :: "string \<Rightarrow> string" where "meterAckKey iid = meterAckPrefix @ iid"
definition recoveryKey :: "string \<Rightarrow> string" where "recoveryKey hash = recoveryPrefix @ hash"
definition sessionKey :: "string \<Rightarrow> string" where "sessionKey hash = sessionPrefix @ hash"

definition eventKey :: "u64 \<Rightarrow> string" where
  "eventKey sequence = eventPrefix @ show_nat_padded 20 (unat sequence)"

declare operatorReadyKey_def [key_defs] pendingTOTPKey_def [key_defs] totpSecretKey_def [key_defs]
  totpStepKey_def [key_defs] recoveryPrefix_def [key_defs] sessionPrefix_def [key_defs]
  instancePrefix_def [key_defs] meterAckPrefix_def [key_defs] usageTotalKey_def [key_defs]
  eventSequenceKey_def [key_defs] eventPrefix_def [key_defs] instanceKey_def [key_defs]
  meterAckKey_def [key_defs] recoveryKey_def [key_defs] sessionKey_def [key_defs]
  eventKey_def [key_defs]

definition ofB :: "badger_error + 'a \<Rightarrow> store_error + 'a" where
  "ofB r = map_sum StoreBadger id r"

text \<open>\<open>txn.Get\<close> with \<open>ErrKeyNotFound\<close> reported as \<open>ErrNotFound\<close>, then \<open>item.Value\<close>.\<close>

definition get_found :: "'db badger \<Rightarrow> instant \<Rightarrow> 'db \<Rightarrow> string \<Rightarrow> store_error + stored" where
  "get_found B now txn k = (case txn_get B txn now k of
       Inl ErrKeyNotFound \<Rightarrow> Inl ErrNotFound
     | Inl e \<Rightarrow> Inl (StoreBadger e)
     | Inr it \<Rightarrow> ofB it)"

text \<open>\<open>json.Unmarshal\<close> of stored bytes: what is not a document is a syntax error.\<close>

definition decode :: "(json \<Rightarrow> json_error + 'a) \<Rightarrow> stored \<Rightarrow> store_error + 'a" where
  "decode unmarshal v = (case v of
       Doc j \<Rightarrow> map_sum StoreJson id (unmarshal j)
     | Bytes _ \<Rightarrow> Inl (StoreJson JsonSyntax))"

definition setUint64 :: "'db badger \<Rightarrow> 'db \<Rightarrow> string \<Rightarrow> u64 \<Rightarrow> store_error + 'db" where
  "setUint64 B txn k w = ofB (txn_set B txn k (Bytes (PutUint64 w)))"

text \<open>The eight bytes of a 64-bit number; anything of another length is an error.\<close>

definition stored_u64 :: "string \<Rightarrow> stored \<Rightarrow> store_error + u64" where
  "stored_u64 message v = (case v of
       Bytes b \<Rightarrow> if length b \<noteq> 8 then Inl (StoreFailure message) else Inr (Uint64 b)
     | Doc _ \<Rightarrow> Inl (StoreFailure message))"

definition getUint64 :: "'db badger \<Rightarrow> instant \<Rightarrow> 'db \<Rightarrow> string \<Rightarrow> store_error + u64" where
  "getUint64 B now txn k = (case txn_get B txn now k of
       Inl ErrKeyNotFound \<Rightarrow> Inr 0
     | Inl e \<Rightarrow> Inl (StoreBadger e)
     | Inr it \<Rightarrow> bindE (ofB it) (stored_u64 (''invalid uint64 at '' @ k)))"

text \<open>\<open>value, _ := getUint64(...)\<close>: on an error the value is 0.\<close>

definition getUint64_or_zero :: "'db badger \<Rightarrow> instant \<Rightarrow> 'db \<Rightarrow> string \<Rightarrow> u64" where
  "getUint64_or_zero B now txn k = (case getUint64 B now txn k of Inl _ \<Rightarrow> 0 | Inr w \<Rightarrow> w)"

definition getUsage :: "'db badger \<Rightarrow> instant \<Rightarrow> 'db \<Rightarrow> store_error + Usage" where
  "getUsage B now txn = (case txn_get B txn now usageTotalKey of
       Inl ErrKeyNotFound \<Rightarrow> Inr zero_Usage
     | Inl e \<Rightarrow> Inl (StoreBadger e)
     | Inr it \<Rightarrow> bindE (ofB it) (decode unmarshal_Usage))"

definition getString :: "'db badger \<Rightarrow> instant \<Rightarrow> 'db \<Rightarrow> string \<Rightarrow> store_error + string" where
  "getString B now s k = bindE (get_found B now s k) (\<lambda>v.
     case v of Bytes b \<Rightarrow> Inr b | Doc _ \<Rightarrow> Inl (StoreFailure ''document under a byte key''))"


section \<open>The operator\<close>

definition OperatorReady :: "'db badger \<Rightarrow> instant \<Rightarrow> 'db \<Rightarrow> store_error + bool" where
  "OperatorReady B now s = (case txn_get B s now operatorReadyKey of
       Inl ErrKeyNotFound \<Rightarrow> Inr False
     | Inl e \<Rightarrow> Inl (StoreBadger e)
     | Inr _ \<Rightarrow> Inr True)"

definition PendingTOTP :: "'db badger \<Rightarrow> instant \<Rightarrow> 'db \<Rightarrow> store_error + string" where
  "PendingTOTP B now s = getString B now s pendingTOTPKey"

definition TOTPSecret :: "'db badger \<Rightarrow> instant \<Rightarrow> 'db \<Rightarrow> store_error + string" where
  "TOTPSecret B now s = getString B now s totpSecretKey"

fun set_recovery_hashes :: "'db badger \<Rightarrow> string list \<Rightarrow> 'db \<Rightarrow> store_error + 'db" where
  "set_recovery_hashes B [] txn = Inr txn"
| "set_recovery_hashes B (hash # hashes) txn =
     bindE (ofB (txn_set B txn (recoveryKey hash) (Bytes [CHR 0x01]))) (set_recovery_hashes B hashes)"

definition SessionHash :: "(string \<Rightarrow> string) \<Rightarrow> string \<Rightarrow> string" where
  "SessionHash sha256_hex token = sha256_hex token"

definition CompleteOperator ::
    "'db badger \<Rightarrow> (string \<Rightarrow> string) \<Rightarrow> instant \<Rightarrow> string \<Rightarrow> u64 \<Rightarrow> string list \<Rightarrow> string \<Rightarrow> duration \<Rightarrow>
     'db \<Rightarrow> (store_error + unit) \<times> 'db" where
  "CompleteOperator B sha256_hex now secret totpStep recoveryHashes sessionToken sessionTTL s =
     Update B StoreBadger s (\<lambda>txn.
       case txn_get B txn now operatorReadyKey of
         Inr _ \<Rightarrow> Inl ErrAlreadyConfigured
       | Inl ErrKeyNotFound \<Rightarrow>
           bindE (ofB (txn_set B txn totpSecretKey (Bytes secret))) (\<lambda>txn.
           bindE (setUint64 B txn totpStepKey totpStep) (\<lambda>txn.
           bindE (ofB (txn_set B txn operatorReadyKey (Bytes [CHR 0x01]))) (\<lambda>txn.
           bindE (ofB (txn_delete B txn pendingTOTPKey)) (\<lambda>txn.
           bindE (set_recovery_hashes B recoveryHashes txn) (\<lambda>txn.
           bindE (ofB (txn_set_ttl B txn now (sessionKey (SessionHash sha256_hex sessionToken))
             (Bytes [CHR 0x01]) sessionTTL)) (\<lambda>txn.
           Inr ((), txn)))))))
       | Inl e \<Rightarrow> Inl (StoreBadger e))"

definition ConsumeTOTPStep ::
    "'db badger \<Rightarrow> instant \<Rightarrow> u64 \<Rightarrow> 'db \<Rightarrow> (store_error + bool) \<times> 'db" where
  "ConsumeTOTPStep B now step s = Update B StoreBadger s (\<lambda>txn.
     let consume = bindE (setUint64 B txn totpStepKey step) (\<lambda>txn. Inr (True, txn)) in
     case txn_get B txn now totpStepKey of
       Inr it \<Rightarrow> bindE (bindE (ofB it) (stored_u64 ''invalid TOTP step'')) (\<lambda>previous.
         if step \<le> previous then Inr (False, txn) else consume)
     | Inl ErrKeyNotFound \<Rightarrow> consume
     | Inl e \<Rightarrow> Inl (StoreBadger e))"

definition SetPendingTOTP :: "'db badger \<Rightarrow> string \<Rightarrow> 'db \<Rightarrow> (store_error + unit) \<times> 'db" where
  "SetPendingTOTP B secret s = Update B StoreBadger s (\<lambda>txn.
     bindE (ofB (txn_delete B txn totpStepKey)) (\<lambda>txn.
     bindE (ofB (txn_set B txn pendingTOTPKey (Bytes secret))) (\<lambda>txn.
     Inr ((), txn))))"

definition ConsumeRecoveryCode ::
    "'db badger \<Rightarrow> (string \<Rightarrow> string) \<Rightarrow> instant \<Rightarrow> string \<Rightarrow> 'db \<Rightarrow> (store_error + bool) \<times> 'db" where
  "ConsumeRecoveryCode B sha256_hex now code s =
     (let key = recoveryKey (sha256_hex (ToUpper (TrimSpace code))) in
      Update B StoreBadger s (\<lambda>txn.
        case txn_get B txn now key of
          Inl ErrKeyNotFound \<Rightarrow> Inr (False, txn)
        | Inl e \<Rightarrow> Inl (StoreBadger e)
        | Inr _ \<Rightarrow> bindE (ofB (txn_delete B txn key)) (\<lambda>txn. Inr (True, txn))))"


section \<open>Sessions\<close>

definition CreateSession ::
    "'db badger \<Rightarrow> (string \<Rightarrow> string) \<Rightarrow> instant \<Rightarrow> string \<Rightarrow> duration \<Rightarrow> 'db \<Rightarrow> (store_error + unit) \<times> 'db" where
  "CreateSession B sha256_hex now token ttl s = Update B StoreBadger s (\<lambda>txn.
     bindE (ofB (txn_set_ttl B txn now (sessionKey (SessionHash sha256_hex token)) (Bytes [CHR 0x01]) ttl))
       (\<lambda>txn. Inr ((), txn)))"

definition SessionValid ::
    "'db badger \<Rightarrow> (string \<Rightarrow> string) \<Rightarrow> instant \<Rightarrow> string \<Rightarrow> 'db \<Rightarrow> store_error + bool" where
  "SessionValid B sha256_hex now token s =
     (if token = [] then Inr False
      else case txn_get B s now (sessionKey (SessionHash sha256_hex token)) of
          Inl ErrKeyNotFound \<Rightarrow> Inr False
        | Inl e \<Rightarrow> Inl (StoreBadger e)
        | Inr _ \<Rightarrow> Inr True)"

definition DeleteSession ::
    "'db badger \<Rightarrow> (string \<Rightarrow> string) \<Rightarrow> string \<Rightarrow> 'db \<Rightarrow> (store_error + unit) \<times> 'db" where
  "DeleteSession B sha256_hex token s = Update B StoreBadger s (\<lambda>txn.
     bindE (ofB (txn_delete B txn (sessionKey (SessionHash sha256_hex token)))) (\<lambda>txn. Inr ((), txn)))"


section \<open>Instances\<close>

definition PutInstance :: "'db badger \<Rightarrow> Instance \<Rightarrow> 'db \<Rightarrow> (store_error + unit) \<times> 'db" where
  "PutInstance B i s = Update B StoreBadger s (\<lambda>txn.
     bindE (ofB (txn_set B txn (instanceKey (ID i)) (Doc (marshal_Instance i)))) (\<lambda>txn. Inr ((), txn)))"

text \<open>\<open>Store.Instance\<close>; its body is also the first half of \<open>UpdateInstance\<close> and \<open>DeleteInstance\<close>.\<close>

definition lookup_instance :: "'db badger \<Rightarrow> instant \<Rightarrow> string \<Rightarrow> 'db \<Rightarrow> store_error + Instance" where
  "lookup_instance B now iid s = bindE (get_found B now s (instanceKey iid)) (decode unmarshal_Instance)"

definition delete_instance_txn ::
    "'db badger \<Rightarrow> instant \<Rightarrow> string \<Rightarrow> 'db \<Rightarrow> store_error + Instance \<times> 'db" where
  "delete_instance_txn B now iid txn =
     bindE (lookup_instance B now iid txn) (\<lambda>deleted.
     bindE (ofB (txn_delete B txn (instanceKey iid))) (\<lambda>txn.
     bindE (ofB (txn_delete B txn (meterAckKey iid))) (\<lambda>txn.
     Inr (deleted, txn))))"

fun delete_attempts ::
    "nat \<Rightarrow> 'db badger \<Rightarrow> instant \<Rightarrow> string \<Rightarrow> 'db \<Rightarrow> (store_error + Instance) \<times> 'db" where
  "delete_attempts 0 B now iid s = (Inl (StoreBadger ErrConflict), s)"
| "delete_attempts (Suc n) B now iid s =
     (case Update B StoreBadger s (delete_instance_txn B now iid) of
        (Inl (StoreBadger ErrConflict), s') \<Rightarrow> delete_attempts n B now iid s'
      | r \<Rightarrow> r)"

definition DeleteInstance ::
    "'db badger \<Rightarrow> instant \<Rightarrow> string \<Rightarrow> 'db \<Rightarrow> (store_error + Instance) \<times> 'db" where
  "DeleteInstance B now iid s = delete_attempts 8 B now iid s"

fun decode_items :: "(json \<Rightarrow> json_error + 'a) \<Rightarrow> (string \<times> item) list \<Rightarrow> store_error + 'a list" where
  "decode_items unmarshal [] = Inr []"
| "decode_items unmarshal ((k, it) # its) =
     bindE (bindE (ofB it) (decode unmarshal)) (\<lambda>x.
     bindE (decode_items unmarshal its) (\<lambda>xs. Inr (x # xs)))"

text \<open>Sorted by creation time; the order of instances created at the same instant is not fixed by the code.\<close>

definition Instances :: "'db badger \<Rightarrow> instant \<Rightarrow> 'db \<Rightarrow> store_error + Instance list" where
  "Instances B now s =
     bindE (decode_items unmarshal_Instance (txn_iterate B s now instancePrefix instancePrefix))
       (\<lambda>is. Inr (sort_key CreatedAt is))"

text \<open>After a conflict an instance that is gone is reported as not found.\<close>

definition conflict_as_missing ::
    "'db badger \<Rightarrow> instant \<Rightarrow> string \<Rightarrow> (store_error + 'a) \<times> 'db \<Rightarrow> (store_error + 'a) \<times> 'db" where
  "conflict_as_missing B now iid r = (case r of
       (Inl (StoreBadger ErrConflict), s') \<Rightarrow>
         (if lookup_instance B now iid s' = Inl ErrNotFound then (Inl ErrNotFound, s')
          else (Inl (StoreBadger ErrConflict), s'))
     | _ \<Rightarrow> r)"

definition update_instance_txn ::
    "'db badger \<Rightarrow> instant \<Rightarrow> string \<Rightarrow> (Instance \<Rightarrow> store_error + Instance) \<Rightarrow> 'db \<Rightarrow>
     store_error + Instance \<times> 'db" where
  "update_instance_txn B now iid mutate txn =
     bindE (lookup_instance B now iid txn) (\<lambda>i.
     bindE (mutate i) (\<lambda>updated.
     bindE (ofB (txn_set B txn (instanceKey iid) (Doc (marshal_Instance updated)))) (\<lambda>txn.
     Inr (updated, txn))))"

definition UpdateInstance ::
    "'db badger \<Rightarrow> instant \<Rightarrow> string \<Rightarrow> (Instance \<Rightarrow> store_error + Instance) \<Rightarrow> 'db \<Rightarrow>
     (store_error + Instance) \<times> 'db" where
  "UpdateInstance B now iid mutate s = conflict_as_missing B now iid
     (Update B StoreBadger s (update_instance_txn B now iid mutate))"


section \<open>Meters\<close>

text \<open>
  The loop over a batch: a delta that was acknowledged before is skipped, the first that does not
  continue the acknowledged sequence ends the loop, and an addition that would pass the largest
  \<open>uint64\<close> fails the whole transaction.
\<close>

fun meter_loop :: "u64 \<Rightarrow> Usage \<Rightarrow> MeterDelta option list \<Rightarrow> store_error + u64 \<times> Usage" where
  "meter_loop acknowledged usage [] = Inr (acknowledged, usage)"
| "meter_loop acknowledged usage (None # ds) = Inl (StoreFailure ''meter delta is nil'')"
| "meter_loop acknowledged usage (Some d # ds) =
     (if Sequence d \<le> acknowledged then meter_loop acknowledged usage ds
      else if Sequence d \<noteq> acknowledged + 1 then Inr (acknowledged, usage)
      else if - 1 - UplinkBytes usage < DeltaUplink d \<or> - 1 - DownlinkBytes usage < DeltaDownlink d
        then Inl (StoreFailure ''traffic counter overflow'')
      else meter_loop (Sequence d)
        (usage\<lparr>UplinkBytes := UplinkBytes usage + DeltaUplink d,
               DownlinkBytes := DownlinkBytes usage + DeltaDownlink d\<rparr>) ds)"

text \<open>The body of the transaction.  A failure to read the acknowledgement counts as 0.\<close>

definition apply_meters_txn ::
    "'db badger \<Rightarrow> instant \<Rightarrow> string \<Rightarrow> MeterDelta option list \<Rightarrow> 'db \<Rightarrow> store_error + u64 \<times> 'db" where
  "apply_meters_txn B now iid deltas txn = (case txn_get B txn now (instanceKey iid) of
       Inl ErrKeyNotFound \<Rightarrow> Inl ErrNotFound
     | Inl e \<Rightarrow> Inl (StoreBadger e)
     | Inr _ \<Rightarrow>
         bindE (getUsage B now txn) (\<lambda>usage.
         bindE (meter_loop (getUint64_or_zero B now txn (meterAckKey iid)) usage deltas)
           (\<lambda>(acknowledged, usage).
         bindE (setUint64 B txn (meterAckKey iid) acknowledged) (\<lambda>txn.
         bindE (ofB (txn_set B txn usageTotalKey (Doc (marshal_Usage usage)))) (\<lambda>txn.
         Inr (acknowledged, txn))))))"

definition ApplyMeters ::
    "'db badger \<Rightarrow> instant \<Rightarrow> string \<Rightarrow> MeterDelta option list \<Rightarrow> 'db \<Rightarrow> (store_error + u64) \<times> 'db" where
  "ApplyMeters B now iid deltas s = conflict_as_missing B now iid
     (Update B StoreBadger s (apply_meters_txn B now iid deltas))"

definition read_usage :: "'db badger \<Rightarrow> instant \<Rightarrow> 'db \<Rightarrow> store_error + Usage" where
  "read_usage B now s = getUsage B now s"


section \<open>Events\<close>

definition AppendEvent ::
    "'db badger \<Rightarrow> instant \<Rightarrow> Event \<Rightarrow> 'db \<Rightarrow> (store_error + Event) \<times> 'db" where
  "AppendEvent B now event s = Update B StoreBadger s (\<lambda>txn.
     let sequence = getUint64_or_zero B now txn eventSequenceKey + 1;
         event = event\<lparr>EventID := sequence, At := (if At event = zero_time then now else At event)\<rparr>
     in
     bindE (ofB (txn_set B txn (eventKey sequence) (Doc (marshal_Event event)))) (\<lambda>txn.
     bindE (setUint64 B txn eventSequenceKey sequence) (\<lambda>txn.
     if sequence > of_nat defaultEventLimit
     then bindE (ofB (txn_delete B txn (eventKey (sequence - of_nat defaultEventLimit)))) (\<lambda>txn. Inr (event, txn))
     else Inr (event, txn))))"

definition EventsAfter :: "'db badger \<Rightarrow> instant \<Rightarrow> u64 \<Rightarrow> int \<Rightarrow> 'db \<Rightarrow> store_error + Event list" where
  "EventsAfter B now after limit s =
     (let limit = (if limit \<le> 0 \<or> limit > int defaultEventLimit then int defaultEventLimit else limit) in
      decode_items unmarshal_Event (take (nat limit) (txn_iterate B s now eventPrefix (eventKey (after + 1)))))"

lemma ofB_simps [simp]: "ofB (Inr x) = Inr x" "ofB (Inl e) = Inl (StoreBadger e)"
  by (simp_all add: ofB_def)

lemma ofB_eq_Inr [bind_simps]: "ofB r = Inr x \<longleftrightarrow> r = Inr x"
  by (cases r) simp_all

lemma decode_eq_Inr [bind_simps]: "decode f v = Inr x \<longleftrightarrow> (\<exists>j. v = Doc j \<and> f j = Inr x)"
  by (cases v) (simp_all add: decode_def bind_simps)

lemma stored_u64_eq_Inr [bind_simps]:
  "stored_u64 m v = Inr w \<longleftrightarrow> (\<exists>b. v = Bytes b \<and> length b = 8 \<and> w = Uint64 b)"
  by (cases v) (auto simp: stored_u64_def)

lemma decode_Doc [simp]: "decode f (Doc j) = map_sum StoreJson id (f j)"
  by (simp add: decode_def)

end
