(* ===== verification/Ledger.thy ===== *)
theory Ledger
  imports Store
begin

text \<open>
  The traffic ledger of \<open>internal/store/store.go\<close> (\<open>ApplyMeters\<close>).  First the loop over one
  batch against a reference definition, the deltas it accepts; then the contract of a ledger as
  a locale, in which the exactness of the accounting over any run of batches is proved once; then
  the store as an instance of that contract.
\<close>

section \<open>The loop over a batch\<close>

text \<open>The deltas a batch adds to the totals: those that continue the acknowledged sequence.\<close>

fun accepted :: "u64 \<Rightarrow> MeterDelta option list \<Rightarrow> MeterDelta list" where
  "accepted a [] = []"
| "accepted a (None # ds) = []"
| "accepted a (Some d # ds) =
     (if Sequence d \<le> a then accepted a ds
      else if Sequence d \<noteq> a + 1 then []
      else d # accepted (Sequence d) ds)"

definition up_sum :: "MeterDelta list \<Rightarrow> nat" where
  "up_sum ds = (\<Sum>d\<leftarrow>ds. unat (DeltaUplink d))"

definition down_sum :: "MeterDelta list \<Rightarrow> nat" where
  "down_sum ds = (\<Sum>d\<leftarrow>ds. unat (DeltaDownlink d))"

lemma sum_simps [simp]:
  "up_sum [] = 0" "up_sum (d # ds) = unat (DeltaUplink d) + up_sum ds"
  "down_sum [] = 0" "down_sum (d # ds) = unat (DeltaDownlink d) + down_sum ds"
  by (simp_all add: up_sum_def down_sum_def)

lemma next_sequence: "\<not> q \<le> (a :: u64) \<Longrightarrow> q = a + 1 \<Longrightarrow> unat q = unat a + 1"
  by (metis unat_inc_u64 word_order.extremum)

lemma meter_loop_mono: "meter_loop a u ds = Inr (a', u') \<Longrightarrow> a \<le> a'"
proof (induction a u ds rule: meter_loop.induct)
  case (3 a u d ds)
  show ?case
  proof (cases "Sequence d \<le> a \<or> Sequence d \<noteq> a + 1")
    case True
    with "3.prems" "3.IH"(1) show ?thesis by (auto split: if_splits)
  next
    case False
    with "3.prems" "3.IH"(2) have "Sequence d \<le> a'" by (auto split: if_splits)
    moreover from False have "a \<le> Sequence d" by (meson linorder_linear)
    ultimately show ?thesis by (rule order_trans [rotated])
  qed
qed auto

text \<open>What the loop returns is what the reference definition says, with no addition wrapping.\<close>

lemma meter_loop_accepted:
  assumes "meter_loop a u ds = Inr (a', u')"
  shows "unat a' = unat a + length (accepted a ds)"
    and "unat (UplinkBytes u') = unat (UplinkBytes u) + up_sum (accepted a ds)"
    and "unat (DownlinkBytes u') = unat (DownlinkBytes u) + down_sum (accepted a ds)"
    and "map (\<lambda>d. unat (Sequence d)) (accepted a ds) = [unat a + 1..<unat a' + 1]"
proof -
  have "unat a' = unat a + length (accepted a ds) \<and>
      unat (UplinkBytes u') = unat (UplinkBytes u) + up_sum (accepted a ds) \<and>
      unat (DownlinkBytes u') = unat (DownlinkBytes u) + down_sum (accepted a ds) \<and>
      map (\<lambda>d. unat (Sequence d)) (accepted a ds) = [unat a + 1..<unat a' + 1]"
    using assms
  proof (induction a u ds rule: meter_loop.induct)
    case (3 a u d ds)
    show ?case
    proof (cases "Sequence d \<le> a \<or> Sequence d \<noteq> a + 1")
      case True
      with "3.prems" "3.IH"(1) show ?thesis by (auto split: if_splits)
    next
      case False
      define v where "v = u\<lparr>UplinkBytes := UplinkBytes u + DeltaUplink d,
               DownlinkBytes := DownlinkBytes u + DeltaDownlink d\<rparr>"
      from False have q: "unat (Sequence d) = unat a + 1"
        using next_sequence by blast
      from False "3.prems" have room: "\<not> - 1 - UplinkBytes u < DeltaUplink d"
          "\<not> - 1 - DownlinkBytes u < DeltaDownlink d"
        and rest: "meter_loop (Sequence d) v ds = Inr (a', u')"
        by (auto simp: v_def split: if_splits)
      have v: "unat (UplinkBytes v) = unat (UplinkBytes u) + unat (DeltaUplink d)"
          "unat (DownlinkBytes v) = unat (DownlinkBytes u) + unat (DeltaDownlink d)"
        using room by (simp_all add: v_def u64_headroom unat_add_u64)
      have "unat a < unat a'"
        using meter_loop_mono [OF rest] q by (simp add: word_le_nat_alt)
      with False q v "3.IH"(2) [folded v_def] room rest show ?thesis
        by (auto simp: upt_conv_Cons)
    qed
  qed auto
  then show "unat a' = unat a + length (accepted a ds)"
    and "unat (UplinkBytes u') = unat (UplinkBytes u) + up_sum (accepted a ds)"
    and "unat (DownlinkBytes u') = unat (DownlinkBytes u) + down_sum (accepted a ds)"
    and "map (\<lambda>d. unat (Sequence d)) (accepted a ds) = [unat a + 1..<unat a' + 1]"
    by blast+
qed

text \<open>A batch that was applied changes nothing when it is applied again.\<close>

lemma meter_loop_replay: "meter_loop a u ds = Inr (a', u') \<Longrightarrow> meter_loop a' v ds = Inr (a', v)"
proof (induction a u ds rule: meter_loop.induct)
  case (3 a u d ds)
  have "a \<le> a'" using "3.prems" by (rule meter_loop_mono)
  show ?case
  proof (cases "Sequence d \<le> a \<or> Sequence d \<noteq> a + 1")
    case True
    with "3.prems" "3.IH"(1) \<open>a \<le> a'\<close> show ?thesis by (auto split: if_splits)
  next
    case False
    with "3.prems" have rest: "meter_loop (Sequence d)
        (u\<lparr>UplinkBytes := UplinkBytes u + DeltaUplink d,
           DownlinkBytes := DownlinkBytes u + DeltaDownlink d\<rparr>) ds = Inr (a', u')"
      by (auto split: if_splits)
    from meter_loop_mono [OF this] False "3.prems" "3.IH"(2) [OF _ _ _ rest] show ?thesis
      by (auto split: if_splits)
  qed
qed auto


section \<open>The contract of a ledger\<close>

text \<open>
  \<open>log iid q\<close> is the traffic the agent \<open>iid\<close> metered under sequence number \<open>q\<close>.  A batch is
  genuine if each of its deltas is the one of the log; the agent may resend, reorder and cut as
  it likes.
\<close>

definition genuine :: "(nat \<Rightarrow> nat \<times> nat) \<Rightarrow> MeterDelta option list \<Rightarrow> bool" where
  "genuine log ds \<longleftrightarrow> (\<forall>d. Some d \<in> set ds \<longrightarrow>
     log (unat (Sequence d)) = (unat (DeltaUplink d), unat (DeltaDownlink d)))"

definition logged_up :: "(nat \<Rightarrow> nat \<times> nat) \<Rightarrow> nat \<Rightarrow> nat" where
  "logged_up log n = (\<Sum>q = 1..n. fst (log q))"

definition logged_down :: "(nat \<Rightarrow> nat \<times> nat) \<Rightarrow> nat \<Rightarrow> nat" where
  "logged_down log n = (\<Sum>q = 1..n. snd (log q))"

lemma accepted_subset: "d \<in> set (accepted a ds) \<Longrightarrow> Some d \<in> set ds"
  by (induction a ds rule: accepted.induct) (auto split: if_splits)

lemma genuine_sums:
  assumes "genuine log ds"
  shows "up_sum (accepted a ds) = (\<Sum>d\<leftarrow>accepted a ds. fst (log (unat (Sequence d))))"
    and "down_sum (accepted a ds) = (\<Sum>d\<leftarrow>accepted a ds. snd (log (unat (Sequence d))))"
proof -
  have "log (unat (Sequence d)) = (unat (DeltaUplink d), unat (DeltaDownlink d))"
    if "d \<in> set (accepted a ds)" for d
    using assms accepted_subset [OF that] by (simp add: genuine_def)
  then show "up_sum (accepted a ds) = (\<Sum>d\<leftarrow>accepted a ds. fst (log (unat (Sequence d))))"
    and "down_sum (accepted a ds) = (\<Sum>d\<leftarrow>accepted a ds. snd (log (unat (Sequence d))))"
    by (simp_all add: up_sum_def down_sum_def cong: map_cong)
qed

lemma sum_list_upt: "(\<Sum>q\<leftarrow>[Suc m..<Suc (m + k)]. f q) = (\<Sum>q = Suc m..m + k. (f q :: nat))"
  by (simp add: interv_sum_list_conv_sum_set_nat atLeastLessThanSuc_atLeastAtMost del: upt_Suc)

lemma sum_split_logged: "(\<Sum>q = 1..m + k. (f q :: nat)) = (\<Sum>q = 1..m. f q) + (\<Sum>q = Suc m..m + k. f q)"
proof -
  have "{1..m + k} = {1..m} \<union> {Suc m..m + k}" by auto
  then show ?thesis by (simp add: sum.union_disjoint)
qed

text \<open>A genuine batch moves the totals by exactly the log between the two acknowledgements.\<close>

lemma meter_loop_genuine:
  assumes loop: "meter_loop a u ds = Inr (a', u')" and genuine: "genuine log ds"
  shows "unat (UplinkBytes u') + logged_up log (unat a) = unat (UplinkBytes u) + logged_up log (unat a')"
    and "unat (DownlinkBytes u') + logged_down log (unat a) = unat (DownlinkBytes u) + logged_down log (unat a')"
proof -
  let ?k = "length (accepted a ds)"
  note spec = meter_loop_accepted [OF loop]
  have seqs: "map (\<lambda>d. unat (Sequence d)) (accepted a ds) = [Suc (unat a)..<Suc (unat a + ?k)]"
    using spec(1,4) by simp
  have sums: "(\<Sum>d\<leftarrow>accepted a ds. f (unat (Sequence d))) = (\<Sum>q = Suc (unat a)..unat a + ?k. (f q :: nat))" for f
    using arg_cong [OF seqs, of "\<lambda>qs. \<Sum>q\<leftarrow>qs. f q"] by (simp only: sum_list_upt map_map o_def)
  show "unat (UplinkBytes u') + logged_up log (unat a) = unat (UplinkBytes u) + logged_up log (unat a')"
    and "unat (DownlinkBytes u') + logged_down log (unat a) = unat (DownlinkBytes u) + logged_down log (unat a')"
    unfolding spec(1,2,3) genuine_sums [OF genuine] sums [of "\<lambda>q. fst (log q)"]
      sums [of "\<lambda>q. snd (log q)"] logged_up_def logged_down_def sum_split_logged
    by simp_all
qed

fun apply_batches ::
    "(instant \<Rightarrow> string \<Rightarrow> MeterDelta option list \<Rightarrow> 's \<Rightarrow> (store_error + u64) \<times> 's) \<Rightarrow>
     (instant \<times> string \<times> MeterDelta option list) list \<Rightarrow> 's \<Rightarrow> 's" where
  "apply_batches step [] s = s"
| "apply_batches step ((now, iid, ds) # bs) s = apply_batches step bs (snd (step now iid ds s))"

locale meter_ledger =
  fixes invar :: "'s \<Rightarrow> bool"
    and acked :: "'s \<Rightarrow> string \<Rightarrow> u64"
    and total :: "'s \<Rightarrow> Usage"
    and step :: "instant \<Rightarrow> string \<Rightarrow> MeterDelta option list \<Rightarrow> 's \<Rightarrow> (store_error + u64) \<times> 's"
  assumes step_invar: "invar s \<Longrightarrow> step now iid ds s = (r, s') \<Longrightarrow> invar s'"
    and step_ok: "invar s \<Longrightarrow> step now iid ds s = (Inr a, s') \<Longrightarrow>
          \<exists>u. meter_loop (acked s iid) (total s) ds = Inr (a, u) \<and> total s' = u \<and> acked s' = (acked s)(iid := a)"
    and step_error: "invar s \<Longrightarrow> step now iid ds s = (Inl e, s') \<Longrightarrow> total s' = total s \<and> acked s' = acked s"
begin

text \<open>Over the agents in \<open>ids\<close>, the totals are the logs up to the acknowledged sequences.\<close>

definition balanced :: "(string \<Rightarrow> nat \<Rightarrow> nat \<times> nat) \<Rightarrow> string set \<Rightarrow> 's \<Rightarrow> bool" where
  "balanced log ids s \<longleftrightarrow>
     unat (UplinkBytes (total s)) = (\<Sum>i\<in>ids. logged_up (log i) (unat (acked s i))) \<and>
     unat (DownlinkBytes (total s)) = (\<Sum>i\<in>ids. logged_down (log i) (unat (acked s i)))"

lemma step_balanced:
  assumes inv: "invar s" and bal: "balanced log ids s" and fin: "finite ids" "iid \<in> ids"
    and gen: "genuine (log iid) ds" and st: "step now iid ds s = (r, s')"
  shows "balanced log ids s'"
proof (cases r)
  case (Inl e)
  with step_error [OF inv] st bal show ?thesis by (simp add: balanced_def)
next
  case (Inr a)
  with step_ok [OF inv] st obtain u where loop: "meter_loop (acked s iid) (total s) ds = Inr (a, u)"
    and total: "total s' = u" and acked: "acked s' = (acked s)(iid := a)"
    by blast
  have others: "(\<Sum>i\<in>ids. f i (((acked s)(iid := a)) i)) + f iid (acked s iid) =
      (\<Sum>i\<in>ids. f i (acked s i)) + (f iid a :: nat)" for f
  proof -
    have "(\<Sum>i\<in>ids. f i (((acked s)(iid := a)) i)) = f iid a + (\<Sum>i\<in>ids - {iid}. f i (acked s i))"
      using fin by (subst sum.remove [of ids iid]) (auto intro: sum.cong)
    moreover have "(\<Sum>i\<in>ids. f i (acked s i)) = f iid (acked s iid) + (\<Sum>i\<in>ids - {iid}. f i (acked s i))"
      using fin by (rule sum.remove)
    ultimately show ?thesis by simp
  qed
  from meter_loop_genuine [OF loop gen] bal others [of "\<lambda>i w. logged_up (log i) (unat w)"]
    others [of "\<lambda>i w. logged_down (log i) (unat w)"]
  show ?thesis
    by (simp add: balanced_def total acked)
qed

lemma run_balanced:
  assumes "invar s" and "balanced log ids s" and "finite ids"
    and "\<forall>(now, iid, ds) \<in> set bs. iid \<in> ids \<and> genuine (log iid) ds"
  shows "invar (apply_batches step bs s) \<and> balanced log ids (apply_batches step bs s)"
  using assms
proof (induction bs arbitrary: s)
  case Nil
  then show ?case by simp
next
  case (Cons b bs)
  obtain now iid ds where b: "b = (now, iid, ds)" by (cases b)
  obtain r s' where st: "step now iid ds s = (r, s')" by fastforce
  from Cons.prems have "invar s'" and "balanced log ids s'"
    using step_invar [OF _ st] step_balanced [OF _ _ _ _ _ st] by (auto simp: b)
  with Cons show ?case by (simp add: b st)
qed

lemma run_acked_mono:
  assumes "invar s"
  shows "acked s i \<le> acked (apply_batches step bs s) i"
  using assms
proof (induction bs arbitrary: s)
  case Nil
  then show ?case by simp
next
  case (Cons b bs)
  obtain now iid ds where b: "b = (now, iid, ds)" by (cases b)
  obtain r s' where st: "step now iid ds s = (r, s')" by fastforce
  have "acked s i \<le> acked s' i"
    using st step_ok [OF Cons.prems] step_error [OF Cons.prems] meter_loop_mono
    by (cases r) (fastforce simp: fun_upd_def)+
  with Cons.IH [of s'] step_invar [OF Cons.prems st] show ?case
    by (simp add: b st)
qed

end


section \<open>The store as a ledger\<close>

text \<open>
  The contents outside the sessions do not depend on the instant they are read at (only session
  keys are stored with a time to live), so they are read at instant 0.
\<close>

definition timeless :: "contents \<Rightarrow> bool" where
  "timeless c \<longleftrightarrow> (\<forall>t k. \<not> prefix sessionPrefix k \<longrightarrow> c t k = c 0 k)"

definition u64_cell :: "contents \<Rightarrow> string \<Rightarrow> u64" where
  "u64_cell c k = (case c 0 k of
       Some (Bytes b) \<Rightarrow> if length b = 8 then Uint64 b else 0
     | _ \<Rightarrow> 0)"

definition usage_cell :: "contents \<Rightarrow> Usage" where
  "usage_cell c = (case c 0 usageTotalKey of
       Some (Doc j) \<Rightarrow> (case unmarshal_Usage j of Inr u \<Rightarrow> u | Inl _ \<Rightarrow> zero_Usage)
     | _ \<Rightarrow> zero_Usage)"

lemma timelessD: "timeless c \<Longrightarrow> \<not> prefix sessionPrefix k \<Longrightarrow> c t k = c 0 k"
  unfolding timeless_def by blast

lemma timeless_upd: "timeless c \<Longrightarrow> timeless (\<lambda>t. (c t)(k := v))"
  unfolding timeless_def by (metis fun_upd_apply)

lemma timeless_eq: "timeless c \<Longrightarrow> (\<And>t. c' t = (c t)(k := v)) \<Longrightarrow> timeless c'"
  using timeless_upd [of c k v] by presburger

lemma key_not_session [simp]:
  "\<not> prefix sessionPrefix (meterAckKey iid)" "\<not> prefix sessionPrefix usageTotalKey"
  "\<not> prefix sessionPrefix (instanceKey iid)" "\<not> prefix sessionPrefix eventSequenceKey"
  "\<not> prefix sessionPrefix (eventKey q)" "\<not> prefix sessionPrefix totpStepKey"
  "\<not> prefix sessionPrefix (recoveryKey h)" "\<not> prefix sessionPrefix operatorReadyKey"
  "\<not> prefix sessionPrefix pendingTOTPKey" "\<not> prefix sessionPrefix totpSecretKey"
  by (simp_all add: key_defs)

lemma meter_keys [simp]:
  "meterAckKey i = meterAckKey j \<longleftrightarrow> i = j" "meterAckKey i \<noteq> usageTotalKey" "usageTotalKey \<noteq> meterAckKey i"
  "meterAckKey i \<noteq> instanceKey j" "instanceKey j \<noteq> meterAckKey i"
  "usageTotalKey \<noteq> instanceKey j" "instanceKey j \<noteq> usageTotalKey"
  by (simp_all add: key_defs)

context badger_laws
begin

lemma setUint64_look:
  "setUint64 B txn k w = Inr txn' \<Longrightarrow> look txn' t = (look txn t)(k \<mapsto> Bytes (PutUint64 w))"
  by (simp add: setUint64_def ofB_eq_Inr set_value)

lemma getUsage_ok:
  assumes "getUsage B now s = Inr u" and "timeless (look s)"
  shows "u = usage_cell (look s)"
proof (cases "txn_get B s now usageTotalKey")
  case (Inl e)
  with assms(1) have "look s now usageTotalKey = None" and "u = zero_Usage"
    using get_missing by (auto simp: getUsage_def split: badger_error.splits)
  with timelessD [OF assms(2), of usageTotalKey now] show ?thesis
    by (simp add: usage_cell_def)
next
  case (Inr it)
  with assms(1) obtain j where "txn_get B s now usageTotalKey = Inr (Inr (Doc j))"
    and u: "unmarshal_Usage j = Inr u"
    by (auto simp: getUsage_def bind_simps)
  then have "look s now usageTotalKey = Some (Doc j)" by (blast dest: get_value)
  then have "look s 0 usageTotalKey = Some (Doc j)"
    using timelessD [OF assms(2), of usageTotalKey now] by simp
  with u show ?thesis
    by (simp add: usage_cell_def)
qed

lemma conflict_as_missing_ok:
  "conflict_as_missing B now iid r = (Inr x, s') \<Longrightarrow> r = (Inr x, s')"
  by (auto simp: conflict_as_missing_def split: prod.splits sum.splits store_error.splits
      badger_error.splits if_splits)

lemma conflict_as_missing_error:
  "conflict_as_missing B now iid (r, s) = (Inl e, s') \<Longrightarrow>
     s' = s \<and> (r = Inl e \<or> r = Inl (StoreBadger ErrConflict))"
  by (auto simp: conflict_as_missing_def split: sum.splits store_error.splits badger_error.splits if_splits)

lemma guarded_Update_error:
  assumes "conflict_as_missing B now iid (Update B StoreBadger s body) = (Inl e, s')"
  shows "look s' = look s \<or> (e = ErrNotFound \<or> e = StoreBadger ErrConflict) \<and> rely (look s) (look s')"
proof -
  obtain r s1 where upd: "Update B StoreBadger s body = (r, s1)" by fastforce
  with assms conflict_as_missing_error [of now iid r s1 e s'] have "s' = s1"
    and r: "r = Inl e \<or> r = Inl (StoreBadger ErrConflict)"
    by auto
  moreover have "e = ErrNotFound \<or> e = StoreBadger ErrConflict" if "r = Inl (StoreBadger ErrConflict)"
    using assms that upd by (auto simp: conflict_as_missing_def split: if_splits)
  ultimately show ?thesis
    using upd Update_error [of StoreBadger s body] by auto
qed

lemma apply_meters_txn_ok:
  assumes "apply_meters_txn B now iid ds s = Inr (a, txn)" and "timeless (look s)"
  obtains u where
    "meter_loop (getUint64_or_zero B now s (meterAckKey iid)) (usage_cell (look s)) ds = Inr (a, u)"
    and "look s now (instanceKey iid) \<noteq> None"
    and "\<And>t. look txn t =
      (look s t)(meterAckKey iid \<mapsto> Bytes (PutUint64 a), usageTotalKey \<mapsto> Doc (marshal_Usage u))"
proof -
  from assms(1) obtain it u u' txn1 where item: "txn_get B s now (instanceKey iid) = Inr it"
    and u: "getUsage B now s = Inr u"
    and loop: "meter_loop (getUint64_or_zero B now s (meterAckKey iid)) u ds = Inr (a, u')"
    and txn1: "setUint64 B s (meterAckKey iid) a = Inr txn1"
    and txn: "txn_set B txn1 usageTotalKey (Doc (marshal_Usage u')) = Inr txn"
    by (auto simp: apply_meters_txn_def bind_simps split: sum.splits badger_error.splits)
  show ?thesis
  proof (rule that)
    show "meter_loop (getUint64_or_zero B now s (meterAckKey iid)) (usage_cell (look s)) ds = Inr (a, u')"
      using loop getUsage_ok [OF u assms(2)] by simp
    show "look s now (instanceKey iid) \<noteq> None"
      using item by (rule get_item)
    show "look txn t =
        (look s t)(meterAckKey iid \<mapsto> Bytes (PutUint64 a), usageTotalKey \<mapsto> Doc (marshal_Usage u'))" for t
      by (simp add: set_value [OF txn] setUint64_look [OF txn1])
  qed
qed

lemma ApplyMeters_ok:
  assumes "ApplyMeters B now iid ds s = (Inr a, s')" and "timeless (look s)"
  obtains u where
    "meter_loop (getUint64_or_zero B now s (meterAckKey iid)) (usage_cell (look s)) ds = Inr (a, u)"
    and "look s now (instanceKey iid) \<noteq> None"
    and "\<And>t. look s' t =
      (look s t)(meterAckKey iid \<mapsto> Bytes (PutUint64 a), usageTotalKey \<mapsto> Doc (marshal_Usage u))"
proof -
  from assms(1) have "Update B StoreBadger s (apply_meters_txn B now iid ds) = (Inr a, s')"
    unfolding ApplyMeters_def by (rule conflict_as_missing_ok)
  then obtain txn where body: "apply_meters_txn B now iid ds s = Inr (a, txn)" and "look s' = look txn"
    by (rule Update_ok)
  with assms(2) that show ?thesis
    by (metis apply_meters_txn_ok)
qed

end

text \<open>
  A database whose operations do not fail and where a conflict leaves the contents alone: the
  concurrent writer is then a step of its own in the run.
\<close>

locale serial_badger = reliable_badger +
  assumes rely_same: "rely c c' \<Longrightarrow> c' = c"

context reliable_badger
begin

lemma getUint64_or_zero_cell:
  assumes "timeless (look s)" and "\<not> prefix sessionPrefix k"
  shows "getUint64_or_zero B now s k = u64_cell (look s) k"
  using timelessD [OF assms, of now] get_total [of s now k] get_total_none [of s now k]
  by (cases "look s 0 k")
    (auto simp: getUint64_or_zero_def getUint64_def u64_cell_def stored_u64_def
      split: stored.splits if_splits)

end

definition ledger_ack :: "('db \<Rightarrow> contents) \<Rightarrow> 'db \<Rightarrow> string \<Rightarrow> u64" where
  "ledger_ack look s iid = u64_cell (look s) (meterAckKey iid)"

definition ledger_total :: "('db \<Rightarrow> contents) \<Rightarrow> 'db \<Rightarrow> Usage" where
  "ledger_total look s = usage_cell (look s)"

sublocale serial_badger < ledger: meter_ledger "\<lambda>s. timeless (look s)" "ledger_ack look"
    "ledger_total look" "ApplyMeters B"
proof unfold_locales
  fix s s' :: 'a and now iid ds r
  assume t: "timeless (look s)" and st: "ApplyMeters B now iid ds s = (r, s')"
  show "timeless (look s')"
  proof (cases r)
    case (Inl e)
    with st have "look s' = look s \<or> rely (look s) (look s')"
      unfolding ApplyMeters_def by (auto dest: guarded_Update_error)
    with t rely_same show ?thesis by metis
  next
    case (Inr a)
    with st t obtain u where "\<And>t. look s' t =
        (look s t)(meterAckKey iid \<mapsto> Bytes (PutUint64 a), usageTotalKey \<mapsto> Doc (marshal_Usage u))"
      by (metis ApplyMeters_ok)
    then show ?thesis
      by (rule timeless_eq [OF timeless_upd [OF t]])
  qed
next
  fix s s' :: 'a and now iid ds a
  assume t: "timeless (look s)" and st: "ApplyMeters B now iid ds s = (Inr a, s')"
  from st t obtain u where
      loop: "meter_loop (getUint64_or_zero B now s (meterAckKey iid)) (usage_cell (look s)) ds = Inr (a, u)"
    and "look s now (instanceKey iid) \<noteq> None"
    and look: "\<And>t. look s' t =
      (look s t)(meterAckKey iid \<mapsto> Bytes (PutUint64 a), usageTotalKey \<mapsto> Doc (marshal_Usage u))"
    by (metis ApplyMeters_ok)
  have "ledger_total look s' = u"
    by (simp add: ledger_total_def usage_cell_def look)
  moreover have "ledger_ack look s' = (ledger_ack look s)(iid := a)"
    by (auto simp: ledger_ack_def u64_cell_def look fun_eq_iff)
  ultimately show "\<exists>u. meter_loop (ledger_ack look s iid) (ledger_total look s) ds = Inr (a, u) \<and>
      ledger_total look s' = u \<and> ledger_ack look s' = (ledger_ack look s)(iid := a)"
    using loop getUint64_or_zero_cell [OF t] by (simp add: ledger_ack_def ledger_total_def)
next
  fix s s' :: 'a and now iid ds e
  assume st: "ApplyMeters B now iid ds s = (Inl e, s')"
  have "look s' = look s"
    using guarded_Update_error [OF st [unfolded ApplyMeters_def]] rely_same by metis
  then show "ledger_total look s' = ledger_total look s \<and> ledger_ack look s' = ledger_ack look s"
    by (simp add: ledger_total_def ledger_ack_def [abs_def])
qed

interpretation map_db: serial_badger map_badger map_look "(=)"
  by unfold_locales simp


context serial_badger
begin

lemma run_exact:
  assumes start: "timeless (look s)" "ledger_total look s = zero_Usage" "\<forall>i\<in>ids. ledger_ack look s i = 0"
    and ids: "finite ids" "\<forall>(now, iid, ds) \<in> set bs. iid \<in> ids \<and> genuine (log iid) ds"
  shows "unat (UplinkBytes (ledger_total look (apply_batches (ApplyMeters B) bs s))) =
      (\<Sum>i\<in>ids. logged_up (log i) (unat (ledger_ack look (apply_batches (ApplyMeters B) bs s) i)))"
    and "unat (DownlinkBytes (ledger_total look (apply_batches (ApplyMeters B) bs s))) =
      (\<Sum>i\<in>ids. logged_down (log i) (unat (ledger_ack look (apply_batches (ApplyMeters B) bs s) i)))"
proof -
  have "ledger.balanced log ids s"
    using start by (simp add: ledger.balanced_def zero_Usage_def logged_up_def logged_down_def)
  from ledger.run_balanced [OF start(1) this ids] show
    "unat (UplinkBytes (ledger_total look (apply_batches (ApplyMeters B) bs s))) =
      (\<Sum>i\<in>ids. logged_up (log i) (unat (ledger_ack look (apply_batches (ApplyMeters B) bs s) i)))"
    "unat (DownlinkBytes (ledger_total look (apply_batches (ApplyMeters B) bs s))) =
      (\<Sum>i\<in>ids. logged_down (log i) (unat (ledger_ack look (apply_batches (ApplyMeters B) bs s) i)))"
    by (simp_all add: ledger.balanced_def)
qed

lemma replay_same:
  assumes t: "timeless (look s)" and one: "ApplyMeters B now iid ds s = (Inr a, s1)"
    and two: "ApplyMeters B later iid ds s1 = (r, s2)"
  shows "ledger_total look s2 = ledger_total look s1" and "ledger_ack look s2 = ledger_ack look s1"
    and "r = Inr b \<Longrightarrow> b = a"
proof -
  from ledger.step_ok [OF t one] obtain u where
      loop: "meter_loop (ledger_ack look s iid) (ledger_total look s) ds = Inr (a, u)"
    and s1: "ledger_total look s1 = u" "ledger_ack look s1 = (ledger_ack look s)(iid := a)"
    by blast
  have t1: "timeless (look s1)" using t one by (rule ledger.step_invar)
  have "ledger_total look s2 = ledger_total look s1 \<and> ledger_ack look s2 = ledger_ack look s1 \<and>
      (r = Inr b \<longrightarrow> b = a)"
  proof (cases r)
    case (Inl e)
    with ledger.step_error [OF t1] two show ?thesis by simp
  next
    case (Inr b)
    from ledger.step_ok [OF t1 two [unfolded Inr]] meter_loop_replay [OF loop, of u] s1 Inr
    show ?thesis by auto
  qed
  then show "ledger_total look s2 = ledger_total look s1" "ledger_ack look s2 = ledger_ack look s1"
    "r = Inr b \<Longrightarrow> b = a"
    by auto
qed

end

lemma timeless_db_of [simp]: "timeless (map_look (db_of es n))"
  unfolding timeless_def by simp



section \<open>What the ledger guarantees\<close>

text \<open>A small host for the examples below: one enrolled instance \<open>a\<close>, and \<open>n\<close> commits that conflict.\<close>

definition one_instance_db :: "nat \<Rightarrow> map_db" where
  "one_instance_db n = db_of [(instanceKey ''a'', Doc (marshal_Instance (zero_Instance\<lparr>ID := ''a''\<rparr>)))] n"

definition delta :: "u64 \<Rightarrow> u64 \<Rightarrow> u64 \<Rightarrow> MeterDelta option" where
  "delta q up down = Some \<lparr>Sequence = q, PrincipalId = ''p'', QuotaEpoch = ''e'', DeltaUplink = up, DeltaDownlink = down\<rparr>"

lemmas meter_eval = one_instance_db_def delta_def ApplyMeters_def apply_meters_txn_def conflict_as_missing_def
  Update_def map_badger_simps getUsage_def getUint64_or_zero_def getUint64_def stored_u64_def
  lookup_instance_def get_found_def setUint64_def zero_Usage_def ledger_total_def ledger_ack_def
  usage_cell_def u64_cell_def word_le_def

text \<open>
  C11.  Exactly-once accounting.  Start from an empty ledger and let any number of agents send
  batches in any order, with any deltas resent, reordered, cut or lost, as long as a delta carries
  what the agent's log holds under its sequence number; let any of the transactions fail.  The
  durable totals are then exactly the sums of the logs up to the acknowledged sequence numbers.
\<close>

theorem exactly_once_accounting:
  assumes "serial_badger B look rely" and "timeless (look s)"
    and "ledger_total look s = zero_Usage" and "\<forall>i\<in>ids. ledger_ack look s i = 0"
    and "finite ids" and "\<forall>(now, iid, ds) \<in> set bs. iid \<in> ids \<and> genuine (log iid) ds"
  shows "unat (UplinkBytes (ledger_total look (apply_batches (ApplyMeters B) bs s))) =
      (\<Sum>i\<in>ids. logged_up (log i) (unat (ledger_ack look (apply_batches (ApplyMeters B) bs s) i))) \<and>
    unat (DownlinkBytes (ledger_total look (apply_batches (ApplyMeters B) bs s))) =
      (\<Sum>i\<in>ids. logged_down (log i) (unat (ledger_ack look (apply_batches (ApplyMeters B) bs s) i)))"
  using serial_badger.run_exact [OF assms] by blast

definition example_batches :: "(instant \<times> string \<times> MeterDelta option list) list" where
  "example_batches = [(1, ''a'', [delta 1 10 20]), (2, ''a'', [delta 1 10 20, delta 2 30 40]),
     (3, ''a'', [delta 1 10 20, delta 2 30 40]), (4, ''a'', [delta 4 5 5])]"

definition example_log :: "string \<Rightarrow> nat \<Rightarrow> nat \<times> nat" where
  "example_log i q = (if q = 1 then (10, 20) else if q = 2 then (30, 40) else (5, 5))"

theorem exactly_once_accounting_witness:
  "let s' = apply_batches (ApplyMeters map_badger) example_batches (one_instance_db 1) in
   ledger_total map_look s' = \<lparr>UplinkBytes = 40, DownlinkBytes = 60\<rparr> \<and>
   unat (UplinkBytes (ledger_total map_look s')) =
     (\<Sum>i\<in>{''a''}. logged_up (example_log i) (unat (ledger_ack map_look s' i)))"
proof -
  have total: "ledger_total map_look (apply_batches (ApplyMeters map_badger) example_batches (one_instance_db 1)) =
      \<lparr>UplinkBytes = 40, DownlinkBytes = 60\<rparr>"
    by (simp add: example_batches_def meter_eval)
  have "timeless (map_look (one_instance_db 1))"
    and "ledger_total map_look (one_instance_db 1) = zero_Usage"
    and "\<forall>i\<in>{''a''}. ledger_ack map_look (one_instance_db 1) i = 0"
    by (simp_all add: meter_eval)
  moreover have "\<forall>(now, iid, ds) \<in> set example_batches. iid \<in> {''a''} \<and> genuine (example_log iid) ds"
    by (simp add: example_batches_def delta_def genuine_def example_log_def)
  ultimately show ?thesis
    using exactly_once_accounting [OF map_db.serial_badger_axioms, of "one_instance_db 1" "{''a''}"
        example_batches example_log] total
    by (simp add: Let_def)
qed

text \<open>
  The loop of \<open>ApplyMeters\<close> against its reference definition: when it succeeds, the deltas
  it counts are those with the sequence numbers right after the acknowledged one, each once and
  without a gap, the new acknowledgement is the last of them, and the 64-bit totals grow by exactly
  their bytes (nothing wraps).
\<close>

theorem meter_batch_contiguous:
  assumes "meter_loop a u ds = Inr (a', u')"
  shows "map (\<lambda>d. unat (Sequence d)) (accepted a ds) = [unat a + 1..<unat a' + 1] \<and>
    unat (UplinkBytes u') = unat (UplinkBytes u) + up_sum (accepted a ds) \<and>
    unat (DownlinkBytes u') = unat (DownlinkBytes u) + down_sum (accepted a ds)"
  using meter_loop_accepted [OF assms] by blast

theorem meter_batch_contiguous_witness:
  "meter_loop 1 zero_Usage [delta 1 7 7, delta 2 3 4, delta 5 9 9] = Inr (2, \<lparr>UplinkBytes = 3, DownlinkBytes = 4\<rparr>) \<and>
   map (\<lambda>d. unat (Sequence d)) (accepted 1 [delta 1 7 7, delta 2 3 4, delta 5 9 9]) = [unat (1 :: u64) + 1..<unat (2 :: u64) + 1]"
proof -
  have loop: "meter_loop 1 zero_Usage [delta 1 7 7, delta 2 3 4, delta 5 9 9] =
      Inr (2, \<lparr>UplinkBytes = 3, DownlinkBytes = 4\<rparr>)"
    by (simp add: delta_def zero_Usage_def word_le_def)
  from meter_batch_contiguous [OF this] loop show ?thesis by blast
qed

text \<open>
  Replaying a batch that was applied changes neither the totals nor any acknowledgement, and
  if the replay succeeds it returns the same acknowledgement.
\<close>

theorem meter_replay_idempotent:
  assumes "serial_badger B look rely" and "timeless (look s)"
    and "ApplyMeters B now iid ds s = (Inr a, s1)" and "ApplyMeters B later iid ds s1 = (r, s2)"
  shows "ledger_total look s2 = ledger_total look s1 \<and> ledger_ack look s2 = ledger_ack look s1 \<and>
    (\<forall>b. r = Inr b \<longrightarrow> b = a)"
  using serial_badger.replay_same [OF assms] by blast

theorem meter_replay_idempotent_witness:
  "let ds = [delta 1 10 20]; s1 = snd (ApplyMeters map_badger 1 ''a'' ds (one_instance_db 0)) in
   ledger_total map_look (snd (ApplyMeters map_badger 2 ''a'' ds s1)) = ledger_total map_look s1 \<and>
   ledger_total map_look s1 = \<lparr>UplinkBytes = 10, DownlinkBytes = 20\<rparr>"
proof -
  let ?s1 = "snd (ApplyMeters map_badger 1 ''a'' [delta 1 10 20] (one_instance_db 0))"
  have one: "ApplyMeters map_badger 1 ''a'' [delta 1 10 20] (one_instance_db 0) = (Inr 1, ?s1)"
    and t: "timeless (map_look (one_instance_db 0))"
    and total: "ledger_total map_look ?s1 = \<lparr>UplinkBytes = 10, DownlinkBytes = 20\<rparr>"
    by (simp_all add: meter_eval)
  from meter_replay_idempotent [OF map_db.serial_badger_axioms t one surjective_pairing, of 2] total
  show ?thesis by (simp add: Let_def)
qed

text \<open>
  A batch that fails changes nothing: after an error the contents are what they were, or,
  when the commit met a concurrent writer, what that writer left.
\<close>

theorem meter_failure_atomic:
  assumes "badger_laws B look rely" and "ApplyMeters B now iid ds s = (Inl e, s')"
  shows "look s' = look s \<or> (e = ErrNotFound \<or> e = StoreBadger ErrConflict) \<and> rely (look s) (look s')"
  using badger_laws.guarded_Update_error [OF assms(1) assms(2) [unfolded ApplyMeters_def]] .

theorem meter_failure_atomic_witness:
  "let r = ApplyMeters map_badger 1 ''a'' [delta 1 10 20, None] (one_instance_db 0) in
   fst r = Inl (StoreFailure ''meter delta is nil'') \<and> map_look (snd r) = map_look (one_instance_db 0)"
proof -
  let ?r = "ApplyMeters map_badger 1 ''a'' [delta 1 10 20, None] (one_instance_db 0)"
  have r: "?r = (Inl (StoreFailure ''meter delta is nil''), snd ?r)"
    by (simp add: meter_eval)
  from meter_failure_atomic [OF map_db.badger_laws_axioms r] r show ?thesis
    by (simp add: Let_def prod_eq_iff)
qed

text \<open>
  C38.  \<open>ApplyMeters\<close> drops the error of reading the acknowledgement and goes on from 0: when that read
  fails and the batch is stored, the totals grow by every delta of the batch that continues the
  sequence from 1, whatever of them had been counted before, and the acknowledgement becomes the
  number of those deltas, even when it was larger.
\<close>

theorem unreadable_ack_counts_twice:
  assumes "badger_laws B look rely" and "timeless (look s)"
    and "getUint64 B now s (meterAckKey iid) = Inl e" and "ApplyMeters B now iid ds s = (Inr a, s')"
  shows "unat (UplinkBytes (ledger_total look s')) = unat (UplinkBytes (ledger_total look s)) + up_sum (accepted 0 ds) \<and>
    unat (DownlinkBytes (ledger_total look s')) = unat (DownlinkBytes (ledger_total look s)) + down_sum (accepted 0 ds) \<and>
    unat (ledger_ack look s' iid) = length (accepted 0 ds)"
proof -
  from badger_laws.ApplyMeters_ok [OF assms(1,4,2)] obtain u where
      loop: "meter_loop 0 (usage_cell (look s)) ds = Inr (a, u)"
    and look: "\<And>t. look s' t =
      (look s t)(meterAckKey iid \<mapsto> Bytes (PutUint64 a), usageTotalKey \<mapsto> Doc (marshal_Usage u))"
    using assms(3) by (auto simp: getUint64_or_zero_def)
  have "ledger_total look s' = u" "ledger_ack look s' iid = a"
    by (simp_all add: ledger_total_def usage_cell_def ledger_ack_def u64_cell_def look)
  with meter_loop_accepted [OF loop] show ?thesis by (simp add: ledger_total_def)
qed

text \<open>A database whose reads of the acknowledgements fail, which its laws allow.\<close>

definition unreadable_acks :: "map_db badger" where
  "unreadable_acks = map_badger\<lparr>txn_get := (\<lambda>s now k.
     if prefix meterAckPrefix k then Inl (BadgerFailure ''read'') else txn_get map_badger s now k)\<rparr>"

lemma unreadable_acks_laws: "badger_laws unreadable_acks map_look (=)"
  using map_db.badger_laws_axioms
  by (auto simp: unreadable_acks_def badger_laws_def split: if_splits)

theorem unreadable_ack_counts_twice_witness:
  "let ds = [delta 1 10 20, delta 2 1 2]; s1 = snd (ApplyMeters map_badger 1 ''a'' ds (one_instance_db 0));
       s2 = snd (ApplyMeters unreadable_acks 2 ''a'' ds s1) in
   ledger_total map_look s1 = \<lparr>UplinkBytes = 11, DownlinkBytes = 22\<rparr> \<and> ledger_ack map_look s1 ''a'' = 2 \<and>
   unat (UplinkBytes (ledger_total map_look s2)) = 22 \<and> unat (DownlinkBytes (ledger_total map_look s2)) = 44"
proof -
  have ops: "txn_get unreadable_acks s now k = (if prefix meterAckPrefix k then Inl (BadgerFailure ''read'')
        else txn_get map_badger s now k)"
    "txn_set unreadable_acks = txn_set map_badger" "txn_commit unreadable_acks = txn_commit map_badger"
    for s now k
    by (simp_all add: unreadable_acks_def)
  have keys: "prefix meterAckPrefix (meterAckKey i)" "\<not> prefix meterAckPrefix (instanceKey i)"
    "\<not> prefix meterAckPrefix usageTotalKey" for i
    by (simp_all add: key_defs)
  let ?ds = "[delta 1 10 20, delta 2 1 2]"
  let ?s1 = "snd (ApplyMeters map_badger 1 ''a'' ?ds (one_instance_db 0))"
  let ?s2 = "snd (ApplyMeters unreadable_acks 2 ''a'' ?ds ?s1)"
  have s1: "ledger_total map_look ?s1 = \<lparr>UplinkBytes = 11, DownlinkBytes = 22\<rparr>" "ledger_ack map_look ?s1 ''a'' = 2"
    by (simp_all add: meter_eval)
  have t: "timeless (map_look ?s1)"
    by (rule map_db.ledger.step_invar [OF _ surjective_pairing]) (simp add: one_instance_db_def)
  have e: "getUint64 unreadable_acks 2 ?s1 (meterAckKey ''a'') = Inl (StoreBadger (BadgerFailure ''read''))"
    by (simp add: getUint64_def ops keys)
  have two: "ApplyMeters unreadable_acks 2 ''a'' ?ds ?s1 = (Inr 2, ?s2)"
    by (simp add: meter_eval ops keys)
  have "accepted 0 ?ds = map the ?ds" by (simp add: delta_def word_le_def)
  with unreadable_ack_counts_twice [OF unreadable_acks_laws t e two] s1 show ?thesis
    unfolding Let_def by (simp add: delta_def)
qed

end
