(* ===== verification/EventLog.thy ===== *)
theory EventLog
  imports Ledger
begin

text \<open>
  The event ledger of \<open>internal/store/store.go\<close> (\<open>AppendEvent\<close>, \<open>EventsAfter\<close>).  Its
  specification is the list of all events ever appended: appending adds one at the end under the
  next number, and reading returns, of the last 500, those after a number, oldest first.
  \<open>log_refines\<close> relates the database to that list.
\<close>

section \<open>Keys of events\<close>

lemma eventKey_less [simp]: "eventKey p < eventKey q \<longleftrightarrow> p < q"
proof -
  have "unat w < 10 ^ 20" for w :: u64
  proof -
    have "unat w < 2 ^ 64" using unsigned_less [of w] by simp
    then show ?thesis by simp
  qed
  then have "show_nat_padded 20 (unat p) < show_nat_padded 20 (unat q) \<longleftrightarrow> p < q"
    by (simp add: show_nat_padded_less word_less_nat_alt)
  then show ?thesis
    by (simp add: eventKey_def eventPrefix_def)
qed

lemma eventKey_inject [simp]: "eventKey p = eventKey q \<longleftrightarrow> p = q"
  by (metis eventKey_less linorder_neq_iff)

lemma eventKey_le [simp]: "eventKey p \<le> eventKey q \<longleftrightarrow> p \<le> q"
  by (metis eventKey_less linorder_not_le)

lemma prefix_eventKey [simp]: "prefix eventPrefix (eventKey q)"
  by (simp add: eventKey_def)

lemma event_keys [simp]:
  "\<not> prefix eventPrefix eventSequenceKey" "eventKey q \<noteq> eventSequenceKey" "eventSequenceKey \<noteq> eventKey q"
  by (simp_all add: key_defs)


section \<open>The specification\<close>

definition in_window :: "nat \<Rightarrow> u64 \<Rightarrow> bool" where
  "in_window n q \<longleftrightarrow> 1 \<le> unat q \<and> unat q \<le> n \<and> n < unat q + 500"

definition log_refines :: "contents \<Rightarrow> Event list \<Rightarrow> bool" where
  "log_refines c es \<longleftrightarrow>
     timeless c \<and> length es < 2 ^ 64 \<and>
     u64_cell c eventSequenceKey = of_nat (length es) \<and>
     (\<forall>i<length es. EventID (es ! i) = of_nat (Suc i)) \<and>
     (\<forall>q. c 0 (eventKey q) =
        (if in_window (length es) q then Some (Doc (marshal_Event (es ! (unat q - 1)))) else None)) \<and>
     (\<forall>k. prefix eventPrefix k \<longrightarrow> c 0 k \<noteq> None \<longrightarrow> (\<exists>q. k = eventKey q))"

definition retained :: "Event list \<Rightarrow> Event list" where
  "retained es = drop (length es - defaultEventLimit) es"

definition events_from :: "u64 \<Rightarrow> int \<Rightarrow> Event list \<Rightarrow> Event list" where
  "events_from from limit es =
     take (if limit \<le> 0 \<or> limit > 500 then 500 else nat limit)
       (filter (\<lambda>e. from \<le> EventID e) (retained es))"

lemma unat_of_nat_small: "n < 2 ^ 64 \<Longrightarrow> unat (of_nat n :: u64) = n"
  by (simp add: unat_of_nat)

lemma in_window_Suc:
  assumes "n + 1 < 2 ^ 64"
  shows "in_window (Suc n) q \<longleftrightarrow> q = of_nat (Suc n) \<or> in_window n q \<and> (500 \<le> n \<longrightarrow> q \<noteq> of_nat (Suc n) - 500)"
proof -
  have n: "unat (of_nat (Suc n) :: u64) = Suc n"
    using assms by (simp add: unat_of_nat_small del: of_nat_Suc)
  have old: "unat (of_nat (Suc n) - 500 :: u64) = Suc n - 500" if "500 \<le> n"
    using that n by (subst unat_sub) (simp_all add: word_le_nat_alt)
  have "q = of_nat (Suc n) \<longleftrightarrow> unat q = Suc n"
    using n word_unat_eq_iff by metis
  moreover have "q = of_nat (Suc n) - 500 \<longleftrightarrow> unat q = Suc n - 500" if "500 \<le> n"
    using old [OF that] word_unat_eq_iff by metis
  ultimately show ?thesis
    by (auto simp: in_window_def)
qed


section \<open>Appending\<close>

context reliable_badger
begin

lemma AppendEvent_look:
  assumes "AppendEvent B now e s = (Inr e', s')" and "timeless (look s)"
  defines "q \<equiv> u64_cell (look s) eventSequenceKey + 1"
  shows "e' = e\<lparr>EventID := q, At := (if At e = zero_time then now else At e)\<rparr>"
    and "look s' t = (if q > 500
       then (look s t)(eventKey q \<mapsto> Doc (marshal_Event e'), eventSequenceKey \<mapsto> Bytes (PutUint64 q), eventKey (q - 500) := None)
       else (look s t)(eventKey q \<mapsto> Doc (marshal_Event e'), eventSequenceKey \<mapsto> Bytes (PutUint64 q)))"
proof -
  have q: "getUint64_or_zero B now s eventSequenceKey + 1 = q"
    using getUint64_or_zero_cell [OF assms(2)] by (simp add: q_def)
  from assms(1) [unfolded AppendEvent_def] obtain txn where
    body: "(let sequence = getUint64_or_zero B now s eventSequenceKey + 1;
         event = e\<lparr>EventID := sequence, At := (if At e = zero_time then now else At e)\<rparr>
     in
     bindE (ofB (txn_set B s (eventKey sequence) (Doc (marshal_Event event)))) (\<lambda>txn.
     bindE (setUint64 B txn eventSequenceKey sequence) (\<lambda>txn.
     if sequence > of_nat defaultEventLimit
     then bindE (ofB (txn_delete B txn (eventKey (sequence - of_nat defaultEventLimit)))) (\<lambda>txn. Inr (event, txn))
     else Inr (event, txn)))) = Inr (e', txn)"
    and look: "look s' = look txn"
    by (rule Update_ok)
  from body [unfolded q Let_def] obtain txn1 txn2 where
      txn1: "txn_set B s (eventKey q) (Doc (marshal_Event e')) = Inr txn1"
    and txn2: "setUint64 B txn1 eventSequenceKey q = Inr txn2"
    and txn: "if q > 500 then txn_delete B txn2 (eventKey (q - 500)) = Inr txn else txn = txn2"
    and e': "e' = e\<lparr>EventID := q, At := (if At e = zero_time then now else At e)\<rparr>"
    by (auto simp: bind_simps defaultEventLimit_def split: if_splits)
  show "e' = e\<lparr>EventID := q, At := (if At e = zero_time then now else At e)\<rparr>"
    by (rule e')
  have two: "look txn2 t = (look s t)(eventKey q \<mapsto> Doc (marshal_Event e'), eventSequenceKey \<mapsto> Bytes (PutUint64 q))" for t
    by (simp add: setUint64_look [OF txn2] set_value [OF txn1])
  show "look s' t = (if q > 500
       then (look s t)(eventKey q \<mapsto> Doc (marshal_Event e'), eventSequenceKey \<mapsto> Bytes (PutUint64 q), eventKey (q - 500) := None)
       else (look s t)(eventKey q \<mapsto> Doc (marshal_Event e'), eventSequenceKey \<mapsto> Bytes (PutUint64 q)))"
    using txn by (auto simp: look two delete_key split: if_splits)
qed

lemma AppendEvent_refines:
  assumes ref: "log_refines (look s) es" and room: "length es + 1 < 2 ^ 64"
    and app: "AppendEvent B now e s = (Inr e', s')"
  shows "log_refines (look s') (es @ [e'])"
proof -
  let ?n = "length es"
  define q :: u64 where "q = of_nat (Suc ?n)"
  have t: "timeless (look s)" and cell: "u64_cell (look s) eventSequenceKey + 1 = q"
    and ids: "\<And>i. i < ?n \<Longrightarrow> EventID (es ! i) = of_nat (Suc i)"
    and evs: "\<And>p. look s 0 (eventKey p) =
        (if in_window ?n p then Some (Doc (marshal_Event (es ! (unat p - 1)))) else None)"
    and keys: "\<And>k. prefix eventPrefix k \<Longrightarrow> look s 0 k \<noteq> None \<Longrightarrow> \<exists>p. k = eventKey p"
    using ref by (auto simp: log_refines_def q_def)
  note app' = AppendEvent_look [OF app t, unfolded cell]
  have nq: "unat q = Suc ?n"
    using room by (simp add: q_def unat_of_nat_small del: of_nat_Suc)
  then have big: "q > 500 \<longleftrightarrow> 500 \<le> ?n"
    by (auto simp: word_less_nat_alt)
  have look': "look s' t k =
      (if k = eventKey q then Some (Doc (marshal_Event e'))
       else if k = eventSequenceKey then Some (Bytes (PutUint64 q))
       else if 500 \<le> ?n \<and> k = eventKey (q - 500) then None else look s t k)" for t k
    using app'(2) [of t] by (auto simp: big)
  have "timeless (look s')"
    unfolding timeless_def
  proof (intro allI impI)
    fix t' k assume "\<not> prefix sessionPrefix k"
    then show "look s' t' k = look s' 0 k"
      using timelessD [OF t, of k t'] unfolding look' by presburger
  qed
  moreover have "u64_cell (look s') eventSequenceKey = of_nat (length (es @ [e']))"
    by (simp add: u64_cell_def look' q_def)
  moreover have "\<forall>i<length (es @ [e']). EventID ((es @ [e']) ! i) = of_nat (Suc i)"
    using ids by (simp add: nth_append app'(1) q_def less_Suc_eq)
  moreover have "look s' 0 (eventKey p) = (if in_window (length (es @ [e'])) p
      then Some (Doc (marshal_Event ((es @ [e']) ! (unat p - 1)))) else None)" for p
  proof (cases "p = q")
    case True
    then show ?thesis
      using nq by (simp add: look' in_window_def)
  next
    case False
    have win: "in_window (Suc ?n) p \<longleftrightarrow> in_window ?n p \<and> (500 \<le> ?n \<longrightarrow> p \<noteq> q - 500)"
      using in_window_Suc [OF room, of p] False by (simp add: q_def)
    have "(es @ [e']) ! (unat p - 1) = es ! (unat p - 1)" if "in_window ?n p"
      using that by (auto simp: in_window_def nth_append)
    with False win show ?thesis
      by (auto simp: look' evs)
  qed
  moreover have "\<exists>p. k = eventKey p" if "prefix eventPrefix k" "look s' 0 k \<noteq> None" for k
    using that keys [of k] by (auto simp: look' split: if_splits)
  ultimately show ?thesis
    using room by (simp add: log_refines_def)
qed

end


section \<open>Reading\<close>

lemma decode_items_marshalled:
  "decode_items unmarshal_Event (map (\<lambda>e. (k e, Inr (Doc (marshal_Event e)))) es) = Inr es"
  by (induction es) simp_all

lemma sorted_EventIDs:
  assumes "\<forall>i<length es. EventID (es ! i) = of_nat (Suc i)" and "length es < 2 ^ 64"
  shows "sorted_wrt (\<lambda>a b. EventID a < EventID b) es"
proof -
  have "EventID (es ! i) < EventID (es ! j)" if "i < j" "j < length es" for i j
    using that assms by (simp add: word_less_nat_alt unat_of_nat_small del: of_nat_Suc)
  then show ?thesis
    by (simp add: sorted_wrt_iff_nth_less)
qed

lemma retained_window:
  assumes ids: "\<forall>i<length es. EventID (es ! i) = of_nat (Suc i)" and "length es < 2 ^ 64"
  shows "e \<in> set (retained es) \<longleftrightarrow> in_window (length es) (EventID e) \<and> e = es ! (unat (EventID e) - 1)"
proof
  assume "e \<in> set (retained es)"
  then obtain i where "i < length es - (length es - 500)" and e: "e = es ! (length es - 500 + i)"
    by (auto simp: retained_def defaultEventLimit_def in_set_conv_nth)
  then have i: "length es - 500 + i < length es" by simp
  with assms have "unat (EventID e) = Suc (length es - 500 + i)"
    unfolding e by (simp add: unat_of_nat_small del: of_nat_Suc)
  with i e show "in_window (length es) (EventID e) \<and> e = es ! (unat (EventID e) - 1)"
    by (auto simp: in_window_def)
next
  assume *: "in_window (length es) (EventID e) \<and> e = es ! (unat (EventID e) - 1)"
  then have "unat (EventID e) - 1 = length es - 500 + (unat (EventID e) - 1 - (length es - 500))"
    and "unat (EventID e) - 1 - (length es - 500) < length (drop (length es - 500) es)"
    by (auto simp: in_window_def)
  with * show "e \<in> set (retained es)"
    unfolding retained_def defaultEventLimit_def
    by (metis (no_types, lifting) diff_le_self nth_drop nth_mem)
qed

lemma window_EventID:
  assumes ids: "\<forall>i<length es. EventID (es ! i) = of_nat (Suc i)" and p: "in_window (length es) p"
  shows "EventID (es ! (unat p - 1)) = p"
proof -
  have "unat p - 1 < length es" "Suc (unat p - 1) = unat p" using p by (auto simp: in_window_def)
  with ids have "EventID (es ! (unat p - 1)) = of_nat (unat p)" by metis
  then show ?thesis by (simp add: word_unat_eq_iff unat_of_nat)
qed

context reliable_badger
begin

lemma iterate_event_keys:
  assumes ref: "log_refines (look s) es"
  shows "fst ` set (txn_iterate B s now eventPrefix (eventKey from)) =
    {eventKey p | p. in_window (length es) p \<and> from \<le> p}"
proof -
  have t: "timeless (look s)"
    and evs: "\<And>p. look s 0 (eventKey p) =
        (if in_window (length es) p then Some (Doc (marshal_Event (es ! (unat p - 1)))) else None)"
    and keys: "\<And>k. prefix eventPrefix k \<Longrightarrow> look s 0 k \<noteq> None \<Longrightarrow> \<exists>p. k = eventKey p"
    using ref by (auto simp: log_refines_def)
  have at: "look s now k = look s 0 k" if "prefix eventPrefix k" for k
    by (rule timelessD [OF t]) (use that in \<open>auto simp: key_defs prefix_def\<close>)
  have "look s now k \<noteq> None \<and> prefix eventPrefix k \<and> eventKey from \<le> k \<longleftrightarrow>
      (\<exists>p. k = eventKey p \<and> in_window (length es) p \<and> from \<le> p)" for k
  proof
    assume *: "look s now k \<noteq> None \<and> prefix eventPrefix k \<and> eventKey from \<le> k"
    then obtain p where "k = eventKey p" using keys [of k] at [of k] by auto
    with * show "\<exists>p. k = eventKey p \<and> in_window (length es) p \<and> from \<le> p"
      by (auto simp: at evs split: if_splits)
  qed (auto simp: at evs)
  then show ?thesis
    unfolding set_eq_iff iterate_keys [OF prefix_eventKey] by blast
qed

lemma iterate_event_value:
  assumes ref: "log_refines (look s) es"
    and item: "(eventKey p, it) \<in> set (txn_iterate B s now eventPrefix (eventKey from))"
  shows "it = Inr (Doc (marshal_Event (es ! (unat p - 1))))"
proof -
  obtain v where v: "it = Inr v" using iterate_total [OF prefix_eventKey item] by blast
  have "look s now (eventKey p) = look s 0 (eventKey p)"
    by (rule timelessD) (use ref in \<open>simp_all add: log_refines_def\<close>)
  with iterate_values [OF prefix_eventKey item [unfolded v]] have "look s 0 (eventKey p) = Some v"
    by simp
  with ref v show ?thesis by (auto simp: log_refines_def split: if_splits)
qed

lemma iterate_events:
  assumes ref: "log_refines (look s) es"
  shows "txn_iterate B s now eventPrefix (eventKey from) =
    map (\<lambda>e. (eventKey (EventID e), Inr (Doc (marshal_Event e)))) (filter (\<lambda>e. from \<le> EventID e) (retained es))"
    (is "?it = map ?f ?es")
proof -
  have ids: "\<forall>i<length es. EventID (es ! i) = of_nat (Suc i)" and len: "length es < 2 ^ 64"
    using ref by (auto simp: log_refines_def)
  have mem: "e \<in> set ?es \<longleftrightarrow> in_window (length es) (EventID e) \<and> from \<le> EventID e \<and> e = es ! (unat (EventID e) - 1)" for e
    by (auto simp: retained_window [OF ids len])
  have "{eventKey p | p. in_window (length es) p \<and> from \<le> p} = set (map fst (map ?f ?es))"
  proof (intro set_eqI iffI)
    fix k assume "k \<in> {eventKey p | p. in_window (length es) p \<and> from \<le> p}"
    then obtain p where p: "k = eventKey p" "in_window (length es) p" "from \<le> p" by blast
    moreover from p(2) have "EventID (es ! (unat p - 1)) = p"
      by (rule window_EventID [OF ids])
    ultimately have "es ! (unat p - 1) \<in> set ?es" "k = eventKey (EventID (es ! (unat p - 1)))"
      unfolding mem by simp_all
    then show "k \<in> set (map fst (map ?f ?es))" by (force simp: image_iff)
  qed (auto simp: retained_window [OF ids len])
  then have "set (map fst ?it) = set (map fst (map ?f ?es))"
    using iterate_event_keys [OF ref, of now "from"] by simp
  moreover have "sorted_wrt (<) (map fst (map ?f ?es))"
    using sorted_EventIDs [OF ids len]
    by (simp add: sorted_wrt_map o_def retained_def sorted_wrt_drop sorted_wrt_filter)
  ultimately have fsts: "map fst ?it = map fst (map ?f ?es)"
    using iterate_sorted [OF prefix_eventKey] by (intro strict_sorted_same_set) auto
  show ?thesis
  proof (rule nth_equalityI)
    show len': "length ?it = length (map ?f ?es)"
      using arg_cong [OF fsts, of length] by simp
    fix i assume i: "i < length ?it"
    with len' have i': "i < length ?es" by simp
    have k: "fst (?it ! i) = eventKey (EventID (?es ! i))"
      using fsts i i' by (metis (no_types, lifting) fst_conv length_map nth_map)
    have e: "es ! (unat (EventID (?es ! i)) - 1) = ?es ! i"
      using nth_mem [OF i', unfolded mem] by (elim conjE) (rule sym)
    have "(eventKey (EventID (?es ! i)), snd (?it ! i)) \<in> set ?it"
      unfolding k [symmetric] prod.collapse by (rule nth_mem [OF i])
    then have "snd (?it ! i) = Inr (Doc (marshal_Event (?es ! i)))"
      using iterate_event_value [OF ref, of "EventID (?es ! i)"] by (simp only: e)
    with k i' show "?it ! i = map ?f ?es ! i"
      by (simp add: prod_eq_iff)
  qed
qed

lemma EventsAfter_from:
  assumes "log_refines (look s) es"
  shows "EventsAfter B now after limit s = Inr (events_from (after + 1) limit es)"
  unfolding EventsAfter_def Let_def iterate_events [OF assms] take_map decode_items_marshalled
  by (simp add: events_from_def defaultEventLimit_def)

end

text \<open>Reading after number \<open>n\<close> while no more than 500 events follow it gives exactly what follows.\<close>

lemma events_from_drop:
  assumes ids: "\<forall>i<length es. EventID (es ! i) = of_nat (Suc i)" and len: "length es + 1 < 2 ^ 64"
    and n: "n \<le> length es" "length es \<le> n + 500"
  shows "events_from (of_nat n + 1) 500 es = drop n es"
proof -
  have "unat (of_nat n + 1 :: u64) = Suc n"
    using len n unat_of_nat_small [of "Suc n"] by (simp add: add.commute)
  then have from_iff: "of_nat n + 1 \<le> EventID (es ! i) \<longleftrightarrow> n \<le> i" if "i < length es" for i
    using that ids len unat_of_nat_small [of "Suc i"] by (simp add: word_le_nat_alt del: of_nat_Suc)
  define m where "m = length es - 500"
  have m: "m \<le> n" using n by (simp add: m_def)
  have "retained es = take (n - m) (drop m es) @ drop n es"
    using m append_take_drop_id [of "n - m" "drop m es"]
    by (simp add: m_def retained_def defaultEventLimit_def)
  moreover have "filter (\<lambda>e. of_nat n + 1 \<le> EventID e) (take (n - m) (drop m es)) = []"
    using from_iff m by (auto simp: filter_empty_conv in_set_conv_nth)
  moreover have "filter (\<lambda>e. of_nat n + 1 \<le> EventID e) (drop n es) = drop n es"
    using from_iff by (auto simp: filter_id_conv in_set_conv_nth)
  ultimately show ?thesis
    using n by (simp add: events_from_def)
qed


context reliable_badger
begin

lemma EventsAfter_resume:
  assumes "log_refines (look s) es" and "length es + 1 < 2 ^ 64"
    and "n \<le> length es" and "length es \<le> n + 500"
  shows "EventsAfter B now (of_nat n) 500 s = Inr (drop n es)"
  using assms by (simp add: EventsAfter_from [OF assms(1)] events_from_drop log_refines_def)

lemma AppendEvent_numbers:
  assumes "log_refines (look s) es" and "AppendEvent B now e s = (Inr e', s')"
  shows "e' = e\<lparr>EventID := of_nat (length es + 1), At := (if At e = zero_time then now else At e)\<rparr>"
  using AppendEvent_look(1) [OF assms(2)] assms(1) by (simp add: log_refines_def add.commute)

end

lemma log_refines_empty:
  "log_refines (map_look empty_db) []"
  by (auto simp: log_refines_def timeless_def u64_cell_def in_window_def)


section \<open>What the event ledger guarantees\<close>

definition example_event :: "string \<Rightarrow> Event" where
  "example_event iid = \<lparr>EventID = 0, EventType = ''instance.online'', ResourceID = iid, At = zero_time, Data = []\<rparr>"

text \<open>The host after the given events were published, each at the instant of its position.\<close>

definition append_all :: "Event list \<Rightarrow> map_db \<Rightarrow> map_db" where
  "append_all es s = foldl (\<lambda>s e. snd (AppendEvent map_badger 5 e s)) s es"

lemmas event_eval = append_all_def AppendEvent_def Update_def map_badger_simps getUint64_or_zero_def
  getUint64_def stored_u64_def setUint64_def example_event_def zero_time_def defaultEventLimit_def
  word_less_def Let_def

lemma conflicts_empty [simp]: "conflicts empty_db = 0"
  by (simp add: empty_db_def)

lemma example_append_result:
  "fst (AppendEvent map_badger 5 (example_event iid) empty_db) = Inr ((example_event iid)\<lparr>EventID := 1, At := 5\<rparr>)"
  by (simp add: event_eval)

lemma example_append:
  "AppendEvent map_badger 5 (example_event iid) empty_db =
     (Inr ((example_event iid)\<lparr>EventID := 1, At := 5\<rparr>),
      snd (AppendEvent map_badger 5 (example_event iid) empty_db))"
  by (simp only: prod_eq_iff fst_conv snd_conv example_append_result)

lemma example_append_refines:
  "log_refines (map_look (append_all [example_event iid] empty_db)) [(example_event iid)\<lparr>EventID := 1, At := 5\<rparr>]"
  using map_db.AppendEvent_refines [OF log_refines_empty _ example_append] by (simp add: append_all_def)

text \<open>
  C13.  \<open>AppendEvent\<close> implements appending to a list: on a database that holds the last 500 of the
  events \<open>es\<close>, a successful call stores the event under the number that follows, stamps it with the
  present if it has no time, and leaves a database that holds the last 500 of \<open>es @ [e']\<close>.  (The
  event that leaves the window is deleted in the same transaction.)
\<close>

theorem append_event_refines_snoc:
  assumes "reliable_badger B look rely" and "log_refines (look s) es" and "length es + 1 < 2 ^ 64"
    and "AppendEvent B now e s = (Inr e', s')"
  shows "log_refines (look s') (es @ [e']) \<and>
    e' = e\<lparr>EventID := of_nat (length es + 1), At := (if At e = zero_time then now else At e)\<rparr>"
  using reliable_badger.AppendEvent_refines [OF assms]
    reliable_badger.AppendEvent_numbers [OF assms(1,2,4)] by simp

theorem append_event_refines_snoc_witness:
  "fst (AppendEvent map_badger 5 (example_event ''a'') empty_db) = Inr ((example_event ''a'')\<lparr>EventID := 1, At := 5\<rparr>) \<and>
   log_refines (map_look (snd (AppendEvent map_badger 5 (example_event ''a'') empty_db)))
     [(example_event ''a'')\<lparr>EventID := 1, At := 5\<rparr>]"
  using append_event_refines_snoc [OF map_db.reliable_badger_axioms log_refines_empty _ example_append,
      of "''a''", THEN conjunct1]
  by (simp add: example_append_result)

text \<open>
  \<open>EventsAfter\<close> implements reading that list: on a database that holds the last 500 of the
  events \<open>es\<close> it returns, oldest first, those numbered from \<open>after + 1\<close> on, at most \<open>limit\<close> of them
  (500 when the limit is out of range).
\<close>

theorem events_after_refines_list:
  assumes "reliable_badger B look rely" and "log_refines (look s) es"
  shows "EventsAfter B now after limit s = Inr (events_from (after + 1) limit es)"
  using reliable_badger.EventsAfter_from [OF assms] .

theorem events_after_refines_list_witness:
  "EventsAfter map_badger 9 7 100 empty_db = Inr (events_from 8 100 [])"
  using events_after_refines_list [OF map_db.reliable_badger_axioms log_refines_empty, of 9 7 100] by simp

text \<open>
  A client that has seen the first \<open>n\<close> events and is at most 500 behind resumes without loss
  and without repetition: reading after number \<open>n\<close> returns exactly the events that follow it.
\<close>

theorem event_resume_lossless:
  assumes "reliable_badger B look rely" and "log_refines (look s) es" and "length es + 1 < 2 ^ 64"
    and "n \<le> length es" and "length es \<le> n + 500"
  shows "EventsAfter B now (of_nat n) 500 s = Inr (drop n es)"
  using reliable_badger.EventsAfter_resume [OF assms] .

theorem event_resume_lossless_witness:
  "let e1 = (example_event ''a'')\<lparr>EventID := 1, At := 5\<rparr> in
   EventsAfter map_badger 9 (of_nat 0) 500 (append_all [example_event ''a''] empty_db) = Inr [e1]"
  using event_resume_lossless [OF map_db.reliable_badger_axioms example_append_refines [of "''a''"], of 0 9]
  by (simp add: Let_def retained_def defaultEventLimit_def)

text \<open>
  \<open>EventsAfter\<close> of the largest \<open>uint64\<close> wraps to 0 and returns the whole retained history
  instead of nothing.
\<close>

theorem events_after_max_wraps:
  assumes "reliable_badger B look rely" and "log_refines (look s) es"
  shows "EventsAfter B now (- 1) 500 s = Inr (retained es)"
proof -
  have "events_from 0 500 es = retained es"
    by (simp add: events_from_def retained_def defaultEventLimit_def)
  then show ?thesis
    using reliable_badger.EventsAfter_from [OF assms, of now "- 1" 500] by simp
qed

theorem events_after_max_wraps_witness:
  "let e1 = (example_event ''a'')\<lparr>EventID := 1, At := 5\<rparr> in
   EventsAfter map_badger 9 (- 1) 500 (append_all [example_event ''a''] empty_db) = Inr [e1]"
  using events_after_max_wraps [OF map_db.reliable_badger_axioms example_append_refines [of "''a''"], of 9]
  by (simp add: Let_def retained_def defaultEventLimit_def)

end
