(* ===== verification/Bus.thy ===== *)
theory Bus
  imports Channel EventLog
begin

text \<open>
  \<open>internal/events/bus.go\<close>: the bus between the event ledger and the open event streams.
  \<open>Publish\<close> appends to the ledger first and then, under the mutex, hands the event to every
  subscriber; these are two steps, \<open>AppendEvent\<close> and \<open>deliver\<close>, between which other goroutines
  run.  Channels are indices into the list of all channels made, since a subscriber keeps its
  channel after the bus has dropped it.  \<open>None\<close> is a panic.  The order in which \<open>deliver\<close> visits
  the subscribers is the order of subscription; each is served on its own channel.
\<close>

section \<open>State and operations\<close>

record Bus =
  next_id :: u64
  subs :: "(u64 \<times> nat) list"
  channels :: "Event chan list"

definition New_bus :: Bus where
  "New_bus = \<lparr>next_id = 0, subs = [], channels = []\<rparr>"

definition deliver_one :: "Event \<Rightarrow> u64 \<times> nat \<Rightarrow> Bus \<Rightarrow> Bus option" where
  "deliver_one event sub b = (case sub of (i, a) \<Rightarrow>
     case try_send (channels b ! a) event of
       SendPanic \<Rightarrow> None
     | Sent c \<Rightarrow> Some (b\<lparr>channels := (channels b)[a := c]\<rparr>)
     | Full \<Rightarrow> map_option (\<lambda>c. b\<lparr>subs := filter (\<lambda>s. fst s \<noteq> i) (subs b), channels := (channels b)[a := c]\<rparr>)
           (close_chan (channels b ! a)))"

fun deliver_all :: "Event \<Rightarrow> (u64 \<times> nat) list \<Rightarrow> Bus \<Rightarrow> Bus option" where
  "deliver_all event [] b = Some b"
| "deliver_all event (s # ss) b = Option.bind (deliver_one event s b) (deliver_all event ss)"

definition deliver :: "Event \<Rightarrow> Bus \<Rightarrow> Bus option" where
  "deliver event b = deliver_all event (subs b) b"

definition Publish ::
    "'db badger \<Rightarrow> instant \<Rightarrow> Event \<Rightarrow> 'db \<Rightarrow> Bus \<Rightarrow> ((store_error + Event) \<times> 'db \<times> Bus) option" where
  "Publish B now event s b = (case AppendEvent B now event s of
       (Inl e, s) \<Rightarrow> Some (Inl e, s, b)
     | (Inr event, s) \<Rightarrow> map_option (\<lambda>b. (Inr event, s, b)) (deliver event b))"

text \<open>Returns the number of the subscription and its channel.\<close>

definition Subscribe :: "Bus \<Rightarrow> u64 \<times> nat \<times> Bus" where
  "Subscribe b =
     (next_id b, length (channels b),
      b\<lparr>next_id := next_id b + 1,
        subs := filter (\<lambda>s. fst s \<noteq> next_id b) (subs b) @ [(next_id b, length (channels b))],
        channels := channels b @ [make_chan 32]\<rparr>)"

definition unsubscribe :: "u64 \<Rightarrow> Bus \<Rightarrow> Bus option" where
  "unsubscribe i b = (case map_of (subs b) i of
       None \<Rightarrow> Some b
     | Some a \<Rightarrow> map_option (\<lambda>c. b\<lparr>subs := filter (\<lambda>s. fst s \<noteq> i) (subs b), channels := (channels b)[a := c]\<rparr>)
           (close_chan (channels b ! a)))"

text \<open>A stream takes an event from its channel.\<close>

definition take_event :: "nat \<Rightarrow> Bus \<Rightarrow> (Event \<times> Bus) option" where
  "take_event a b = (case try_recv (channels b ! a) of
       Received e c \<Rightarrow> Some (e, b\<lparr>channels := (channels b)[a := c]\<rparr>)
     | _ \<Rightarrow> None)"


section \<open>The invariant\<close>

definition chan_ok :: "Event chan \<Rightarrow> bool" where
  "chan_ok c \<longleftrightarrow> capacity c = 32 \<and> within_capacity c"

definition bus_ok :: "Bus \<Rightarrow> bool" where
  "bus_ok b \<longleftrightarrow> (\<forall>c\<in>set (channels b). chan_ok c) \<and> distinct (map fst (subs b)) \<and> distinct (map snd (subs b)) \<and>
     (\<forall>(i, a)\<in>set (subs b). a < length (channels b) \<and> \<not> is_closed (channels b ! a))"

lemma bus_ok_New: "bus_ok New_bus"
  by (simp add: bus_ok_def New_bus_def)

lemma bus_okD:
  assumes "bus_ok b" and "(i, a) \<in> set (subs b)"
  shows "a < length (channels b)" "\<not> is_closed (channels b ! a)" "chan_ok (channels b ! a)"
  using assms by (auto simp: bus_ok_def)

lemma bus_ok_inj:
  assumes "bus_ok b" and "t \<in> set (subs b)" and "u \<in> set (subs b)"
  shows "snd t = snd u \<Longrightarrow> t = u" and "fst t = fst u \<Longrightarrow> t = u"
  using assms by (auto simp: bus_ok_def distinct_map dest: inj_onD)

text \<open>What handing an event to one subscriber does.\<close>

definition offered :: "Event \<Rightarrow> Event chan \<Rightarrow> Event chan" where
  "offered event c = (if length (buffer c) < 32 then c\<lparr>buffer := buffer c @ [event]\<rparr> else c\<lparr>is_closed := True\<rparr>)"

lemma chan_ok_offered [simp]: "chan_ok c \<Longrightarrow> chan_ok (offered event c)"
  by (simp add: chan_ok_def within_capacity_def offered_def)

lemma deliver_one_offers:
  assumes ok: "bus_ok b" and s: "(i, a) \<in> set (subs b)"
  shows "deliver_one event (i, a) b = Some (b\<lparr>channels := (channels b)[a := offered event (channels b ! a)],
    subs := filter (\<lambda>s. snd s \<noteq> a \<or> length (buffer (channels b ! a)) < 32) (subs b)\<rparr>)"
proof -
  note d = bus_okD [OF ok s]
  have "snd t = a \<longleftrightarrow> fst t = i" if "t \<in> set (subs b)" for t
    using bus_ok_inj [OF ok that s] by (cases t) auto
  then have "filter (\<lambda>s. fst s \<noteq> i) (subs b) = filter (\<lambda>s. snd s \<noteq> a) (subs b)"
    by (intro filter_cong) auto
  with d show ?thesis
    by (simp add: deliver_one_def try_send_def chan_ok_def offered_def close_chan_def)
qed

lemma bus_ok_offered:
  assumes ok: "bus_ok b" and s: "(i, a) \<in> set (subs b)"
  shows "bus_ok (b\<lparr>channels := (channels b)[a := offered event (channels b ! a)],
    subs := filter (\<lambda>s. snd s \<noteq> a \<or> length (buffer (channels b ! a)) < 32) (subs b)\<rparr>)"
proof -
  note d = bus_okD [OF ok s]
  have "\<forall>c\<in>set ((channels b)[a := offered event (channels b ! a)]). chan_ok c"
    using ok d(3) by (auto simp: bus_ok_def dest!: set_update_subset_insert [THEN subsetD])
  moreover have "\<not> is_closed ((channels b)[a := offered event (channels b ! a)] ! q)"
    if "(j, q) \<in> set (subs b)" "q \<noteq> a \<or> length (buffer (channels b ! a)) < 32" for j q
    using that bus_okD [OF ok that(1)] d by (cases "q = a") (auto simp: offered_def)
  ultimately show ?thesis
    using ok by (auto simp: bus_ok_def distinct_map_filter)
qed

text \<open>Handing out an event never panics; every subscriber gets it, or is dropped if it is 32 behind.\<close>

lemma deliver_all_offers:
  assumes "bus_ok b" and "distinct ss" and "set ss \<subseteq> set (subs b)"
  shows "\<exists>b'. deliver_all event ss b = Some b' \<and> bus_ok b' \<and> next_id b' = next_id b \<and>
    length (channels b') = length (channels b) \<and>
    subs b' = filter (\<lambda>s. s \<notin> set ss \<or> length (buffer (channels b ! snd s)) < 32) (subs b) \<and>
    (\<forall>a<length (channels b). channels b' ! a =
      (if a \<in> snd ` set ss then offered event (channels b ! a) else channels b ! a))"
  using assms
proof (induction ss arbitrary: b)
  case Nil
  then show ?case by simp
next
  case (Cons s ss)
  obtain i a where s: "s = (i, a)" by (cases s)
  with Cons.prems have in_s: "(i, a) \<in> set (subs b)" by simp
  define b1 where "b1 = b\<lparr>channels := (channels b)[a := offered event (channels b ! a)],
    subs := filter (\<lambda>s. snd s \<noteq> a \<or> length (buffer (channels b ! a)) < 32) (subs b)\<rparr>"
  have one: "deliver_one event s b = Some b1" and ok1: "bus_ok b1"
    using deliver_one_offers [OF Cons.prems(1) in_s] bus_ok_offered [OF Cons.prems(1) in_s] by (simp_all add: s b1_def)
  have inj: "t = (i, a)" if "t \<in> set (subs b)" "snd t = a" for t
    using bus_ok_inj(1) [OF Cons.prems(1) that(1) in_s] that(2) by simp
  then have other: "snd t \<noteq> a" if "t \<in> set ss" for t
    using that Cons.prems(2,3) s by (metis distinct.simps(2) list.set_intros(2) subsetD)
  have "set ss \<subseteq> set (subs b1)" using Cons.prems(3) other by (auto simp: b1_def)
  with Cons.IH [OF ok1] Cons.prems(2) obtain b' where b': "deliver_all event ss b1 = Some b'" "bus_ok b'"
    "next_id b' = next_id b1" "length (channels b') = length (channels b1)"
    "subs b' = filter (\<lambda>s. s \<notin> set ss \<or> length (buffer (channels b1 ! snd s)) < 32) (subs b1)"
    "\<forall>q<length (channels b1). channels b' ! q =
      (if q \<in> snd ` set ss then offered event (channels b1 ! q) else channels b1 ! q)"
    by auto
  have "subs b' = filter (\<lambda>t. t \<notin> set (s # ss) \<or> length (buffer (channels b ! snd t)) < 32) (subs b)"
  proof -
    have "(snd t \<noteq> a \<or> length (buffer (channels b ! a)) < 32) \<and>
        (t \<notin> set ss \<or> length (buffer (channels b1 ! snd t)) < 32) \<longleftrightarrow>
        t \<notin> set (s # ss) \<or> length (buffer (channels b ! snd t)) < 32" if "t \<in> set (subs b)" for t
    proof (cases "t = s")
      case True
      then show ?thesis using Cons.prems(2) s by auto
    next
      case False
      then have "snd t \<noteq> a" using inj [OF that] s by blast
      with False show ?thesis by (simp add: b1_def)
    qed
    then have "filter (\<lambda>t. (snd t \<noteq> a \<or> length (buffer (channels b ! a)) < 32) \<and>
        (t \<notin> set ss \<or> length (buffer (channels b1 ! snd t)) < 32)) (subs b) =
        filter (\<lambda>t. t \<notin> set (s # ss) \<or> length (buffer (channels b ! snd t)) < 32) (subs b)"
      by (rule filter_cong [OF refl])
    then show ?thesis unfolding b'(5) by (simp add: b1_def conj_commute)
  qed
  moreover have "channels b' ! q = (if q \<in> snd ` set (s # ss) then offered event (channels b ! q) else channels b ! q)"
    if "q < length (channels b)" for q
    using b'(6) that other s bus_okD(1) [OF Cons.prems(1) in_s] by (auto simp: b1_def nth_list_update image_iff)
  ultimately show ?case
    using one b' by (intro exI [of _ b']) (simp add: b1_def)
qed

lemma deliver_offers:
  assumes "bus_ok b"
  obtains b' where "deliver event b = Some b'" and "bus_ok b'" and "length (channels b') = length (channels b)"
    and "subs b' = filter (\<lambda>s. length (buffer (channels b ! snd s)) < 32) (subs b)"
    and "\<And>a. a < length (channels b) \<Longrightarrow> channels b' ! a =
      (if a \<in> snd ` set (subs b) then offered event (channels b ! a) else channels b ! a)"
proof -
  have "distinct (subs b)" using assms by (auto simp: bus_ok_def distinct_map)
  with deliver_all_offers [OF assms this, of event] obtain b' where "deliver_all event (subs b) b = Some b'" "bus_ok b'"
    "length (channels b') = length (channels b)"
    "subs b' = filter (\<lambda>s. s \<notin> set (subs b) \<or> length (buffer (channels b ! snd s)) < 32) (subs b)"
    "\<forall>a<length (channels b). channels b' ! a =
      (if a \<in> snd ` set (subs b) then offered event (channels b ! a) else channels b ! a)"
    by auto
  moreover have "filter (\<lambda>s. s \<notin> set (subs b) \<or> length (buffer (channels b ! snd s)) < 32) (subs b) =
      filter (\<lambda>s. length (buffer (channels b ! snd s)) < 32) (subs b)"
    by (rule filter_cong) auto
  ultimately show ?thesis by (intro that [of b']) (simp_all add: deliver_def)
qed

lemma Subscribe_ok:
  assumes "bus_ok b" and "Subscribe b = (i, a, b')"
  shows "bus_ok b'"
proof -
  have fresh: "length (channels b) \<notin> snd ` set (subs b)" using assms(1) by (auto simp: bus_ok_def)
  have b': "b' = b\<lparr>next_id := next_id b + 1,
      subs := filter (\<lambda>s. fst s \<noteq> next_id b) (subs b) @ [(next_id b, length (channels b))],
      channels := channels b @ [make_chan 32]\<rparr>"
    using assms(2) by (auto simp: Subscribe_def)
  have "q < length (channels b') \<and> \<not> is_closed (channels b' ! q)" if "(j, q) \<in> set (subs b')" for j q
    using that bus_okD(1,2) [OF assms(1), of j q] by (auto simp: b' nth_append)
  moreover have "\<forall>c\<in>set (channels b'). chan_ok c"
    using assms(1) by (auto simp: b' bus_ok_def chan_ok_def within_capacity_def)
  moreover have "distinct (map fst (subs b'))" "distinct (map snd (subs b'))"
    using assms(1) fresh by (auto simp: b' bus_ok_def distinct_map_filter)
  ultimately show ?thesis by (auto simp: bus_ok_def)
qed

lemma unsubscribe_cases:
  assumes ok: "bus_ok b"
  obtains (gone) "unsubscribe i b = Some b"
    | (closes) a where "(i, a) \<in> set (subs b)" and "unsubscribe i b =
        Some (b\<lparr>subs := filter (\<lambda>s. fst s \<noteq> i) (subs b), channels := (channels b)[a := (channels b ! a)\<lparr>is_closed := True\<rparr>]\<rparr>)"
proof (cases "map_of (subs b) i")
  case None
  then show ?thesis by (intro gone) (simp add: unsubscribe_def)
next
  case (Some a)
  then have "(i, a) \<in> set (subs b)" by (rule map_of_SomeD)
  with bus_okD(2) [OF ok this] Some show ?thesis by (intro closes) (simp_all add: unsubscribe_def close_chan_def)
qed

lemma unsubscribe_ok:
  assumes ok: "bus_ok b" and un: "unsubscribe i b = Some b'"
  shows "bus_ok b'"
  using ok
proof (cases rule: unsubscribe_cases [where i = i])
  case gone
  with ok un show ?thesis by simp
next
  case (closes a)
  have b': "b' = b\<lparr>subs := filter (\<lambda>s. fst s \<noteq> i) (subs b), channels := (channels b)[a := (channels b ! a)\<lparr>is_closed := True\<rparr>]\<rparr>"
    using closes un by simp
  have "\<forall>c\<in>set (channels b'). chan_ok c"
    using ok bus_okD(3) [OF ok closes(1)]
    by (auto simp: b' bus_ok_def chan_ok_def within_capacity_def dest!: set_update_subset_insert [THEN subsetD])
  moreover have "\<not> is_closed (channels b' ! q)" if "(j, q) \<in> set (subs b)" "j \<noteq> i" for j q
  proof -
    have "q \<noteq> a" using bus_ok_inj(1) [OF ok that(1) closes(1)] that(2) by auto
    then show ?thesis using bus_okD(2) [OF ok that(1)] by (simp add: b')
  qed
  ultimately show ?thesis
    using ok by (auto simp: b' bus_ok_def distinct_map_filter)
qed

lemma take_event_eq:
  "take_event a b = Some (e, b') \<longleftrightarrow>
     (\<exists>es. buffer (channels b ! a) = e # es \<and> b' = b\<lparr>channels := (channels b)[a := (channels b ! a)\<lparr>buffer := es\<rparr>]\<rparr>)"
  by (cases "buffer (channels b ! a)") (auto simp: take_event_def try_recv_def)

lemma take_event_ok:
  assumes ok: "bus_ok b" and a: "a < length (channels b)" and tk: "take_event a b = Some (e, b')"
  shows "bus_ok b'"
proof -
  from tk obtain es where es: "buffer (channels b ! a) = e # es"
    and b': "b' = b\<lparr>channels := (channels b)[a := (channels b ! a)\<lparr>buffer := es\<rparr>]\<rparr>" by (auto simp: take_event_eq)
  have "chan_ok (channels b ! a)" using ok a by (simp add: bus_ok_def)
  then have "chan_ok ((channels b ! a)\<lparr>buffer := es\<rparr>)" using es by (simp add: chan_ok_def within_capacity_def)
  then have "\<forall>c\<in>set (channels b'). chan_ok c"
    using ok by (auto simp: b' bus_ok_def dest!: set_update_subset_insert [THEN subsetD])
  moreover have "is_closed (channels b' ! q) = is_closed (channels b ! q)" for q
    using a by (cases "q = a") (simp_all add: b')
  ultimately show ?thesis using ok by (auto simp: b' bus_ok_def)
qed


section \<open>Runs\<close>

datatype bus_event =
    Subscribed u64 nat
  | Unsubscribed u64
  | Delivered Event
  | TakenEvent nat Event

inductive bus_step :: "Bus \<Rightarrow> bus_event \<Rightarrow> Bus \<Rightarrow> bool" where
  subscribe: "Subscribe b = (i, a, b') \<Longrightarrow> bus_step b (Subscribed i a) b'"
| unsubscribe: "unsubscribe i b = Some b' \<Longrightarrow> bus_step b (Unsubscribed i) b'"
| deliver: "deliver e b = Some b' \<Longrightarrow> bus_step b (Delivered e) b'"
| take_event: "a < length (channels b) \<Longrightarrow> take_event a b = Some (e, b') \<Longrightarrow> bus_step b (TakenEvent a e) b'"

inductive bus_run :: "bus_event list \<Rightarrow> Bus \<Rightarrow> bool" where
  start: "bus_run [] New_bus"
| more: "bus_run tr b \<Longrightarrow> bus_step b x b' \<Longrightarrow> bus_run (tr @ [x]) b'"

lemma bus_step_ok:
  assumes "bus_step b x b'" and "bus_ok b"
  shows "bus_ok b'"
  using assms(1)
proof (cases rule: bus_step.cases)
  case (deliver e)
  from assms(2) show ?thesis by (rule deliver_offers [of b e]) (use deliver in auto)
qed (use assms(2) in \<open>auto intro: Subscribe_ok unsubscribe_ok take_event_ok\<close>)

lemma bus_run_ok: "bus_run tr b \<Longrightarrow> bus_ok b"
  by (induction rule: bus_run.induct) (auto intro: bus_ok_New bus_step_ok)

text \<open>What was handed out since channel \<open>a\<close> was made, and what was taken from it.\<close>

fun given :: "nat \<Rightarrow> bus_event list \<Rightarrow> Event list" where
  "given a [] = []"
| "given a (Subscribed i b # tr) = (if b = a then concat (map (\<lambda>x. case x of Delivered e \<Rightarrow> [e] | _ \<Rightarrow> []) tr) else given a tr)"
| "given a (_ # tr) = given a tr"

definition taken :: "nat \<Rightarrow> bus_event list \<Rightarrow> Event list" where
  "taken a tr = concat (map (\<lambda>x. case x of TakenEvent b e \<Rightarrow> if b = a then [e] else [] | _ \<Rightarrow> []) tr)"

definition made :: "nat \<Rightarrow> bus_event list \<Rightarrow> bool" where
  "made a tr \<longleftrightarrow> (\<exists>i. Subscribed i a \<in> set tr)"

lemma made_snoc: "made a (tr @ [x]) \<longleftrightarrow> made a tr \<or> (\<exists>i. x = Subscribed i a)"
  by (auto simp: made_def)

lemma given_snoc:
  "given a (tr @ [x]) = given a tr @ (case x of Delivered e \<Rightarrow> if made a tr then [e] else [] | _ \<Rightarrow> [])"
proof (induction tr)
  case Nil
  then show ?case by (cases x) (simp_all add: made_def)
next
  case (Cons y tr)
  have "made a (y # tr) \<longleftrightarrow> (\<exists>i. y = Subscribed i a) \<or> made a tr" by (auto simp: made_def)
  with Cons show ?case by (cases y; cases x) auto
qed

lemma taken_snoc: "taken a (tr @ [x]) = taken a tr @ (case x of TakenEvent b e \<Rightarrow> if b = a then [e] else [] | _ \<Rightarrow> [])"
  by (simp add: taken_def)

definition received :: "bus_event list \<Rightarrow> Bus \<Rightarrow> nat \<Rightarrow> Event list" where
  "received tr b a = taken a tr @ buffer (channels b ! a)"

lemma made_channels: "bus_run tr b \<Longrightarrow> made a tr \<longleftrightarrow> a < length (channels b)"
proof (induction arbitrary: a rule: bus_run.induct)
  case start
  then show ?case by (simp add: made_def New_bus_def)
next
  case (more tr b x b')
  have ok: "bus_ok b" using more.hyps(1) by (rule bus_run_ok)
  from more.hyps(2) show ?case
  proof (cases rule: bus_step.cases)
    case (subscribe i c)
    then show ?thesis using more.IH [of a] by (auto simp: made_snoc Subscribe_def)
  next
    case (unsubscribe i)
    from ok have "length (channels b') = length (channels b)"
      by (cases rule: unsubscribe_cases [where i = i]) (use unsubscribe in auto)
    then show ?thesis using more.IH [of a] unsubscribe by (simp add: made_snoc)
  next
    case (deliver e)
    from ok have "length (channels b') = length (channels b)"
      by (rule deliver_offers [of b e]) (use deliver in auto)
    then show ?thesis using more.IH [of a] deliver by (simp add: made_snoc)
  next
    case (take_event c e)
    then show ?thesis using more.IH [of a] by (auto simp: made_snoc take_event_eq)
  qed
qed

text \<open>
  What a step does to one channel: it leaves what its stream has received alone, except that
  handing out an event adds it if the channel is subscribed and has room, and ends the subscription
  if it has none.
\<close>

lemma closed_update_buffer [simp]: "buffer (cs[q := (cs ! q)\<lparr>is_closed := True\<rparr>] ! a) = buffer (cs ! a)"
  by (cases "q < length cs") (auto simp: nth_list_update list_update_beyond)

lemma taken_made: "bus_run tr b \<Longrightarrow> \<not> made a tr \<Longrightarrow> taken a tr = []"
proof (induction rule: bus_run.induct)
  case start
  then show ?case by (simp add: taken_def)
next
  case (more tr b x b')
  have "taken a [x] = []"
    using more.hyps(2) more.prems made_channels [OF more.hyps(1), of a]
    by (cases rule: bus_step.cases) (auto simp: taken_def made_snoc)
  with more show ?case by (simp add: taken_def made_snoc)
qed

lemma bus_step_channel:
  assumes st: "bus_step b x b'" and ok: "bus_ok b" and a: "a < length (channels b)"
  shows "taken a [x] @ buffer (channels b' ! a) = buffer (channels b ! a) @
      (case x of Delivered e \<Rightarrow> if a \<in> snd ` set (subs b') then [e] else [] | _ \<Rightarrow> [])
    \<and> (a \<in> snd ` set (subs b') \<longrightarrow> a \<in> snd ` set (subs b))"
  using st
proof (cases rule: bus_step.cases)
  case (subscribe i c)
  then show ?thesis using a by (auto simp: Subscribe_def taken_def nth_append)
next
  case (unsubscribe i)
  from ok have "buffer (channels b' ! a) = buffer (channels b ! a) \<and> set (subs b') \<subseteq> set (subs b)"
    by (cases rule: unsubscribe_cases [where i = i]) (use unsubscribe a in auto)
  then show ?thesis using unsubscribe by (auto simp: taken_def)
next
  case (deliver e)
  from ok obtain b2 where b2: "Bus.deliver e b = Some b2"
    "subs b2 = filter (\<lambda>s. length (buffer (channels b ! snd s)) < 32) (subs b)"
    "channels b2 ! a = (if a \<in> snd ` set (subs b) then offered e (channels b ! a) else channels b ! a)"
    using deliver_offers [of b e] a by metis
  then show ?thesis using deliver by (auto simp: taken_def offered_def)
next
  case (take_event c e)
  then obtain es where "buffer (channels b ! c) = e # es"
    and b': "b' = b\<lparr>channels := (channels b)[c := (channels b ! c)\<lparr>buffer := es\<rparr>]\<rparr>" by (auto simp: take_event_eq)
  then show ?thesis using take_event(1) a by (cases "c = a") (simp_all add: taken_def)
qed

lemma run_received:
  assumes "bus_run tr b" and "a < length (channels b)"
  shows "prefix (received tr b a) (given a tr) \<and> (a \<in> snd ` set (subs b) \<longrightarrow> received tr b a = given a tr)"
  using assms
proof (induction rule: bus_run.induct)
  case start
  then show ?case by (simp add: New_bus_def)
next
  case (more tr b x b')
  have ok: "bus_ok b" using more.hyps(1) by (rule bus_run_ok)
  show ?case
  proof (cases "a < length (channels b)")
    case True
    have made: "made a tr" using made_channels [OF more.hyps(1)] True by simp
    note st = bus_step_channel [OF more.hyps(2) ok True]
    have rec: "received (tr @ [x]) b' a = received tr b a @
        (case x of Delivered e \<Rightarrow> if a \<in> snd ` set (subs b') then [e] else [] | _ \<Rightarrow> [])"
      using st by (simp add: received_def taken_def)
    show ?thesis
    proof (cases "a \<in> snd ` set (subs b')")
      case True
      with st more.IH \<open>a < length (channels b)\<close> have "received tr b a = given a tr" by simp
      with True made show ?thesis by (simp add: rec given_snoc split: bus_event.splits)
    next
      case False
      then have "received (tr @ [x]) b' a = received tr b a" by (simp add: rec split: bus_event.splits)
      with False more.IH \<open>a < length (channels b)\<close> show ?thesis
        by (auto simp: given_snoc intro: prefix_order.trans)
    qed
  next
    case False
    then have "\<not> made a tr" using made_channels [OF more.hyps(1)] by simp
    moreover have "\<not> made a tr \<Longrightarrow> given a tr = []" by (induction tr rule: given.induct) (auto simp: made_def)
    moreover have "\<exists>i. Subscribe b = (i, a, b') \<and> x = Subscribed i a"
      using more.hyps(2) False more.prems ok made_channels [OF bus_run.more [OF more.hyps(1,2)], of a] \<open>\<not> made a tr\<close>
      by (auto simp: made_snoc elim: bus_step.cases)
    moreover have "taken a tr = []" using taken_made [OF more.hyps(1)] \<open>\<not> made a tr\<close> .
    ultimately show ?thesis by (auto simp: received_def given_snoc taken_snoc Subscribe_def nth_append)
  qed
qed


section \<open>What the bus guarantees\<close>

text \<open>
  The bus never panics and never waits: in every reachable state handing out an event and
  unsubscribing return.  A subscriber with room gets the event, one that is 32 events behind is
  dropped and its channel closed, and every other channel is left alone.
\<close>

theorem bus_never_panics:
  assumes "bus_run tr b"
  shows "unsubscribe i b \<noteq> None \<and> (\<exists>b'. deliver e b = Some b' \<and>
    subs b' = filter (\<lambda>s. length (buffer (channels b ! snd s)) < 32) (subs b) \<and>
    (\<forall>a<length (channels b). channels b' ! a = (if a \<notin> snd ` set (subs b) then channels b ! a
       else if length (buffer (channels b ! a)) < 32 then (channels b ! a)\<lparr>buffer := buffer (channels b ! a) @ [e]\<rparr>
       else (channels b ! a)\<lparr>is_closed := True\<rparr>)))"
proof -
  have ok: "bus_ok b" using assms by (rule bus_run_ok)
  have "unsubscribe i b \<noteq> None" using ok by (cases rule: unsubscribe_cases [where i = i]) simp_all
  moreover from ok obtain b' where "deliver e b = Some b'"
    "subs b' = filter (\<lambda>s. length (buffer (channels b ! snd s)) < 32) (subs b)"
    "\<And>a. a < length (channels b) \<Longrightarrow> channels b' ! a =
      (if a \<in> snd ` set (subs b) then offered e (channels b ! a) else channels b ! a)"
    by (rule deliver_offers [of b e]) (rule that)
  ultimately show ?thesis by (auto simp: offered_def)
qed

definition example_bus :: Bus where
  "example_bus = snd (snd (Subscribe New_bus))"

lemma example_bus_run: "bus_run [Subscribed 0 0] example_bus"
proof -
  have "Subscribe New_bus = (0, 0, example_bus)" by (simp add: example_bus_def Subscribe_def New_bus_def)
  from bus_run.more [OF bus_run.start bus_step.subscribe [OF this]] show ?thesis by simp
qed

lemma example_bus_fields [simp]:
  "subs example_bus = [(0, 0)]" "channels example_bus = [make_chan 32]" "next_id example_bus = 1"
  by (simp_all add: example_bus_def Subscribe_def New_bus_def)

theorem bus_never_panics_witness:
  "\<exists>b'. deliver (example_event ''a'') example_bus = Some b' \<and> buffer (channels b' ! 0) = [example_event ''a'']"
  using bus_never_panics [OF example_bus_run, of 0 "example_event ''a''"] by auto

text \<open>
  A subscriber misses nothing while it is subscribed: what its stream has taken, followed by
  what waits in its channel, is exactly what was handed out since it subscribed, in that order; and
  once it was dropped or has unsubscribed it is a beginning of that.
\<close>

theorem subscriber_misses_nothing:
  assumes "bus_run tr b" and "a < length (channels b)"
  shows "prefix (taken a tr @ buffer (channels b ! a)) (given a tr) \<and>
    (a \<in> snd ` set (subs b) \<longrightarrow> taken a tr @ buffer (channels b ! a) = given a tr)"
  using run_received [OF assms] by (simp add: received_def)

theorem subscriber_misses_nothing_witness:
  "\<exists>b'. bus_run [Subscribed 0 0, Delivered (example_event ''a'')] b' \<and> buffer (channels b' ! 0) = [example_event ''a'']"
proof -
  obtain b' where b': "deliver (example_event ''a'') example_bus = Some b'" "subs b' = [(0, 0)]" "length (channels b') = 1"
    using deliver_offers [OF bus_run_ok [OF example_bus_run], of "example_event ''a''"] by auto
  from bus_run.more [OF example_bus_run bus_step.deliver [OF b'(1)]]
  have run: "bus_run [Subscribed 0 0, Delivered (example_event ''a'')] b'" by simp
  from subscriber_misses_nothing [OF this, of 0] b' run show ?thesis by (auto simp: taken_def)
qed

end
