(* ===== verification/Streams.thy ===== *)
theory Streams
  imports Bus
begin

text \<open>
  \<open>eventStream\<close> of \<open>internal/api/api.go\<close>: a client's stream of server-sent events.  The handler
  subscribes to the bus, reads the history from the ledger, and then writes what its channel
  delivers, skipping events whose number it has passed.  What is modelled is the sequence of events
  written and the number the handler remembers; frames and keep-alive comments are output only.
\<close>

section \<open>The position of a client\<close>

text \<open>
  The value \<open>strconv.ParseUint(s, 10, 64)\<close> returns, also when it returns an error: 0 for text that
  is not a number, the largest \<open>uint64\<close> for one that is too large.  The handler drops the error.
\<close>

fun parse_uint :: "nat \<Rightarrow> string \<Rightarrow> nat" where
  "parse_uint n [] = n"
| "parse_uint n (c # cs) =
     (let d = of_char c in
      if d < 48 \<or> 57 < d then 0
      else if 2 ^ 64 \<le> n * 10 + (d - 48) then 2 ^ 64 - 1
      else parse_uint (n * 10 + (d - 48)) cs)"

definition ParseUint :: "string \<Rightarrow> u64" where
  "ParseUint s = of_nat (parse_uint 0 s)"

text \<open>The header is read only if it is present.\<close>

definition stream_after :: "string \<Rightarrow> u64" where
  "stream_after header = (if header \<noteq> [] then ParseUint header else 0)"


section \<open>The stream\<close>

record stream =
  last_id :: u64
  written :: "Event list"

definition write_history :: "stream \<Rightarrow> Event \<Rightarrow> stream" where
  "write_history st event = st\<lparr>written := written st @ [event], last_id := EventID event\<rparr>"

definition stream_event :: "stream \<Rightarrow> Event \<Rightarrow> stream" where
  "stream_event st event =
     (if EventID event \<le> last_id st then st
      else st\<lparr>written := written st @ [event], last_id := EventID event\<rparr>)"

text \<open>The stream after the history and the events its channel has delivered.\<close>

definition eventStream :: "string \<Rightarrow> Event list \<Rightarrow> Event list \<Rightarrow> stream" where
  "eventStream header history live =
     foldl stream_event (foldl write_history \<lparr>last_id = stream_after header, written = []\<rparr> history) live"

lemma write_history_all:
  "foldl write_history st history =
     st\<lparr>written := written st @ history, last_id := (if history = [] then last_id st else EventID (last history))\<rparr>"
  by (induction history arbitrary: st) (simp_all add: write_history_def)

text \<open>Events numbered in order: those passed are skipped, the others written.\<close>

lemma stream_events_ordered:
  assumes "sorted_wrt (\<lambda>a b. EventID a < EventID b) live"
  shows "written (foldl stream_event st live) = written st @ filter (\<lambda>e. last_id st < EventID e) live"
  using assms
proof (induction live arbitrary: st)
  case Nil
  then show ?case by simp
next
  case (Cons e live)
  show ?case
  proof (cases "EventID e \<le> last_id st")
    case True
    then show ?thesis using Cons by (simp add: stream_event_def not_less)
  next
    case False
    have "filter (\<lambda>x. EventID e < EventID x) live = filter (\<lambda>x. last_id st < EventID x) live"
      using Cons.prems False by (intro filter_cong) auto
    then show ?thesis using Cons False by (simp add: stream_event_def)
  qed
qed

lemma filter_numbered:
  assumes ids: "\<forall>i<length es. EventID (es ! i) = of_nat (Suc i)" and len: "length es < 2 ^ 64"
    and "m \<le> k" "k \<le> length es"
  shows "filter (\<lambda>e. of_nat k < EventID e) (drop m es) = drop k es"
proof -
  have after: "of_nat k < EventID (es ! i) \<longleftrightarrow> k \<le> i" if "i < length es" for i
  proof -
    have "unat (of_nat k :: u64) = k" "unat (of_nat (Suc i) :: u64) = Suc i"
      using that assms(2,4) by (simp_all add: unat_of_nat_small del: of_nat_Suc)
    then show ?thesis using ids that by (simp add: word_less_nat_alt less_Suc_eq_le del: of_nat_Suc)
  qed
  have "drop m es = take (k - m) (drop m es) @ drop k es"
    using append_take_drop_id [of "k - m" "drop m es"] assms(3) by simp
  moreover have "filter (\<lambda>e. of_nat k < EventID e) (take (k - m) (drop m es)) = []"
    using after assms(3,4) by (auto simp: filter_empty_conv in_set_conv_nth)
  moreover have "filter (\<lambda>e. of_nat k < EventID e) (drop k es) = drop k es"
    using after by (auto simp: filter_id_conv in_set_conv_nth)
  ultimately show ?thesis by (metis append_Nil filter_append)
qed

text \<open>
  C26.  A stream is complete: a client that has seen \<open>n\<close> events and is at most 500 behind gets every
  later event exactly once and in order, if its channel delivers the events appended from some moment
  before the history was read, in the order of the ledger.  Here \<open>k\<close> events were in the ledger when
  the history was read, and the channel delivers those from the \<open>m\<close>-th on.
\<close>

theorem event_stream_complete:
  assumes "reliable_badger B look rely" and "log_refines (look s) (take k es)"
    and "\<forall>i<length es. EventID (es ! i) = of_nat (Suc i)" and "length es + 1 < 2 ^ 64"
    and "stream_after header = of_nat n" and "n \<le> k" and "m \<le> k" and "k \<le> length es" and "k \<le> n + 500"
  shows "EventsAfter B now (stream_after header) 500 s = Inr (drop n (take k es)) \<and>
    written (eventStream header (drop n (take k es)) (drop m es)) = drop n es"
proof
  show "EventsAfter B now (stream_after header) 500 s = Inr (drop n (take k es))"
    using reliable_badger.EventsAfter_resume [OF assms(1,2), of n now] assms(4-9) by simp
  let ?h = "drop n (take k es)"
  define st where "st = foldl write_history \<lparr>last_id = stream_after header, written = []\<rparr> ?h"
  have st: "written st = ?h" "last_id st = of_nat k"
  proof -
    show "written st = ?h" by (simp add: st_def write_history_all)
    show "last_id st = of_nat k"
    proof (cases "n < k")
      case True
      then have "last ?h = es ! (k - 1)" using assms(8) by (simp add: last_conv_nth)
      with True assms(3,8) show ?thesis by (simp add: st_def write_history_all del: of_nat_Suc)
    next
      case False
      with assms(5,6) show ?thesis by (simp add: st_def write_history_all)
    qed
  qed
  have "sorted_wrt (\<lambda>a b. EventID a < EventID b) (drop m es)"
    using sorted_EventIDs [OF assms(3)] assms(4) by (simp add: sorted_wrt_drop)
  then have "written (eventStream header ?h (drop m es)) = written st @ filter (\<lambda>e. last_id st < EventID e) (drop m es)"
    unfolding eventStream_def st_def [symmetric] by (rule stream_events_ordered)
  also have "\<dots> = ?h @ drop k es"
    using filter_numbered [OF assms(3) _ assms(7,8)] assms(4) by (simp add: st)
  also have "\<dots> = drop n es"
    using assms(6) by (metis append_take_drop_id drop_append diff_is_0_eq drop_0 length_take min.absorb2 assms(8))
  finally show "written (eventStream header ?h (drop m es)) = drop n es" .
qed

lemma example_refines_one:
  "log_refines (map_look (append_all [example_event ''a''] empty_db)) (take 1 [(example_event ''a'')\<lparr>EventID := 1, At := 5\<rparr>])"
  using example_append_refines [of "''a''"] by simp

theorem event_stream_complete_witness:
  "written (eventStream [] [(example_event ''a'')\<lparr>EventID := 1, At := 5\<rparr>] [(example_event ''a'')\<lparr>EventID := 1, At := 5\<rparr>]) =
     [(example_event ''a'')\<lparr>EventID := 1, At := 5\<rparr>]"
  using event_stream_complete [OF map_db.reliable_badger_axioms example_refines_one, of "[]" 0 0 9]
  by (simp add: stream_after_def)


section \<open>Two publishers\<close>

text \<open>
  C39.  \<open>Publish\<close> appends and hands out in two steps.  Two publishers may append in one order and
  hand out in the other; a stream then skips the event with the smaller number, since it has passed
  it.  Here a client with an open stream is sent only the second of two events that are both in the
  ledger.
\<close>

theorem concurrent_publish_loses_event:
  "\<exists>e1 s1 e2 s2 b1 b2.
     AppendEvent map_badger 5 (example_event ''a'') empty_db = (Inr e1, s1) \<and>
     AppendEvent map_badger 6 (example_event ''b'') s1 = (Inr e2, s2) \<and>
     EventID e1 = 1 \<and> EventID e2 = 2 \<and>
     deliver e2 example_bus = Some b1 \<and> deliver e1 b1 = Some b2 \<and>
     buffer (channels b2 ! 0) = [e2, e1] \<and>
     written (eventStream [] [] (buffer (channels b2 ! 0))) = [e2]"
proof -
  let ?e1 = "(example_event ''a'')\<lparr>EventID := 1, At := 5\<rparr>" and ?e2 = "(example_event ''b'')\<lparr>EventID := 2, At := 6\<rparr>"
  define s1 where "s1 = snd (AppendEvent map_badger 5 (example_event ''a'') empty_db)"
  have one: "AppendEvent map_badger 5 (example_event ''a'') empty_db = (Inr ?e1, s1)"
    unfolding s1_def by (rule example_append)
  obtain s2 where two: "AppendEvent map_badger 6 (example_event ''b'') s1 = (Inr ?e2, s2)"
    by (simp add: s1_def event_eval)
  obtain b1 b2 where out: "deliver ?e2 example_bus = Some b1" "deliver ?e1 b1 = Some b2" "buffer (channels b2 ! 0) = [?e2, ?e1]"
    by (simp add: deliver_def deliver_one_def try_send_def)
  have "written (eventStream [] [] [?e2, ?e1]) = [?e2]"
    by (simp add: eventStream_def stream_after_def stream_event_def word_le_def)
  with one two out show ?thesis
    by (intro exI [of _ ?e1] exI [of _ s1] exI [of _ ?e2] exI [of _ s2] exI [of _ b1] exI [of _ b2]) simp
qed

end
