(* ===== verification/Registry.thy ===== *)
theory Registry
  imports EventLog
begin

text \<open>
  The instance registry of \<open>internal/store/store.go\<close> (\<open>PutInstance\<close>, \<open>Instance\<close>,
  \<open>UpdateInstance\<close>, \<open>DeleteInstance\<close>, \<open>Instances\<close>).  Its specification is a finite map from
  identifiers to instances.  The locale \<open>registry\<close> is the contract the control server and the HTTP
  API rely on; the store is shown to meet it, and the clients' facts (a deleted instance is not
  brought back by an update, a run of operations is a run on the map) are proved once from it.
\<close>

section \<open>The contract\<close>

datatype registry_op =
    Enrol Instance
  | Change instant string "Instance \<Rightarrow> store_error + Instance"
  | Remove instant string

text \<open>A change keeps the identifier of the instance, as every caller's closure does.\<close>

definition keeps_id :: "(Instance \<Rightarrow> store_error + Instance) \<Rightarrow> bool" where
  "keeps_id f \<longleftrightarrow> (\<forall>i i'. f i = Inr i' \<longrightarrow> ID i' = ID i)"

fun wf_op :: "registry_op \<Rightarrow> bool" where
  "wf_op (Change now iid f) = keeps_id f"
| "wf_op _ = True"

fun op_target :: "registry_op \<Rightarrow> string" where
  "op_target (Enrol i) = ID i"
| "op_target (Change now iid f) = iid"
| "op_target (Remove now iid) = iid"

text \<open>The specification of an operation on the map; \<open>None\<close> is a refusal.\<close>

fun registry_spec :: "registry_op \<Rightarrow> (string \<rightharpoonup> Instance) \<Rightarrow> (string \<rightharpoonup> Instance) option" where
  "registry_spec (Enrol i) m = Some (m(ID i \<mapsto> i))"
| "registry_spec (Change now iid f) m = (case m iid of
       None \<Rightarrow> None
     | Some i \<Rightarrow> (case f i of Inl _ \<Rightarrow> None | Inr i' \<Rightarrow> Some (m(iid \<mapsto> i'))))"
| "registry_spec (Remove now iid) m = (case m iid of None \<Rightarrow> None | Some i \<Rightarrow> Some (m(iid := None)))"

text \<open>
  One operation of a client, on any implementation: whether it succeeded, and the state it leaves;
  and a sequence of them.
\<close>

fun registry_exec ::
    "(Instance \<Rightarrow> 's \<Rightarrow> (store_error + unit) \<times> 's) \<Rightarrow>
     (instant \<Rightarrow> string \<Rightarrow> (Instance \<Rightarrow> store_error + Instance) \<Rightarrow> 's \<Rightarrow> (store_error + Instance) \<times> 's) \<Rightarrow>
     (instant \<Rightarrow> string \<Rightarrow> 's \<Rightarrow> (store_error + Instance) \<times> 's) \<Rightarrow> registry_op \<Rightarrow> 's \<Rightarrow> bool \<times> 's" where
  "registry_exec enrol change remove (Enrol i) s = (case enrol i s of (r, s') \<Rightarrow> (\<not> isl r, s'))"
| "registry_exec enrol change remove (Change now iid f) s = (case change now iid f s of (r, s') \<Rightarrow> (\<not> isl r, s'))"
| "registry_exec enrol change remove (Remove now iid) s = (case remove now iid s of (r, s') \<Rightarrow> (\<not> isl r, s'))"

definition registry_run where
  "registry_run enrol change remove ops s = foldl (\<lambda>s p. snd (registry_exec enrol change remove p s)) s ops"

lemma registry_run_simps [simp]:
  "registry_run enrol change remove [] s = s"
  "registry_run enrol change remove (p # ops) s =
     registry_run enrol change remove ops (snd (registry_exec enrol change remove p s))"
  by (simp_all add: registry_run_def)

lemma spec_other: "registry_spec p m = Some m' \<Longrightarrow> op_target p \<noteq> iid \<Longrightarrow> m' iid = m iid"
  by (cases p) (auto split: option.splits sum.splits)

lemma spec_absent:
  "registry_spec p m = Some m' \<Longrightarrow> m iid = None \<Longrightarrow> \<forall>i. p = Enrol i \<longrightarrow> ID i \<noteq> iid \<Longrightarrow> m' iid = None"
  by (cases p) (auto split: option.splits sum.splits if_splits)

locale registry =
  fixes invar :: "'s \<Rightarrow> bool"
    and reg :: "'s \<Rightarrow> string \<rightharpoonup> Instance"
    and find :: "instant \<Rightarrow> string \<Rightarrow> 's \<Rightarrow> store_error + Instance"
    and enrol :: "Instance \<Rightarrow> 's \<Rightarrow> (store_error + unit) \<times> 's"
    and change :: "instant \<Rightarrow> string \<Rightarrow> (Instance \<Rightarrow> store_error + Instance) \<Rightarrow> 's \<Rightarrow> (store_error + Instance) \<times> 's"
    and remove :: "instant \<Rightarrow> string \<Rightarrow> 's \<Rightarrow> (store_error + Instance) \<times> 's"
  assumes reg_ID: "invar s \<Longrightarrow> reg s iid = Some i \<Longrightarrow> ID i = iid"
    and find_reg: "invar s \<Longrightarrow> find now iid s = (case reg s iid of None \<Rightarrow> Inl ErrNotFound | Some i \<Rightarrow> Inr i)"
    and enrol_ok: "invar s \<Longrightarrow> enrol i s = (Inr u, s') \<Longrightarrow> invar s' \<and> reg s' = (reg s)(ID i \<mapsto> i)"
    and enrol_error: "invar s \<Longrightarrow> enrol i s = (Inl e, s') \<Longrightarrow> invar s' \<and> reg s' = reg s"
    and change_ok: "invar s \<Longrightarrow> keeps_id f \<Longrightarrow> change now iid f s = (Inr i', s') \<Longrightarrow>
          invar s' \<and> reg s' = (reg s)(iid \<mapsto> i') \<and> (\<exists>i. reg s iid = Some i \<and> f i = Inr i')"
    and change_error: "invar s \<Longrightarrow> change now iid f s = (Inl e, s') \<Longrightarrow> invar s' \<and> reg s' = reg s"
    and change_missing: "invar s \<Longrightarrow> reg s iid = None \<Longrightarrow> fst (change now iid f s) = Inl ErrNotFound"
    and remove_ok: "invar s \<Longrightarrow> remove now iid s = (Inr i, s') \<Longrightarrow>
          invar s' \<and> reg s iid = Some i \<and> reg s' = (reg s)(iid := None)"
    and remove_error: "invar s \<Longrightarrow> remove now iid s = (Inl e, s') \<Longrightarrow> invar s' \<and> reg s' = reg s"
    and remove_missing: "invar s \<Longrightarrow> reg s iid = None \<Longrightarrow> fst (remove now iid s) = Inl ErrNotFound"
begin

abbreviation exec :: "registry_op \<Rightarrow> 's \<Rightarrow> bool \<times> 's" where
  "exec \<equiv> registry_exec enrol change remove"

abbreviation run :: "registry_op list \<Rightarrow> 's \<Rightarrow> 's" where
  "run \<equiv> registry_run enrol change remove"

lemma exec_simulates:
  assumes "invar s" and "wf_op p" and "exec p s = (ok, s')"
  shows "invar s'" and "if ok then registry_spec p (reg s) = Some (reg s') else reg s' = reg s"
proof -
  have "invar s' \<and> (if ok then registry_spec p (reg s) = Some (reg s') else reg s' = reg s)"
  proof (cases p)
    case (Enrol i)
    obtain r s1 where "enrol i s = (r, s1)" by fastforce
    with assms(3) enrol_ok [OF assms(1), of i] enrol_error [OF assms(1), of i] show ?thesis
      by (cases r) (auto simp: Enrol)
  next
    case (Change now iid f)
    obtain r s1 where "change now iid f s = (r, s1)" by fastforce
    with assms(2,3) change_ok [OF assms(1), of f now iid] change_error [OF assms(1), of now iid f] show ?thesis
      by (cases r) (auto simp: Change)
  next
    case (Remove now iid)
    obtain r s1 where "remove now iid s = (r, s1)" by fastforce
    with assms(3) remove_ok [OF assms(1), of now iid] remove_error [OF assms(1), of now iid] show ?thesis
      by (cases r) (auto simp: Remove)
  qed
  then show "invar s'" "if ok then registry_spec p (reg s) = Some (reg s') else reg s' = reg s"
    by auto
qed

lemma exec_other:
  assumes "invar s" and "wf_op p" and "op_target p \<noteq> iid"
  shows "reg (snd (exec p s)) iid = reg s iid"
  using exec_simulates(2) [OF assms(1,2) surjective_pairing] spec_other [OF _ assms(3)]
  by (metis (full_types))

lemma exec_absent:
  assumes "invar s" and "wf_op p" and "reg s iid = None" and "\<forall>i. p = Enrol i \<longrightarrow> ID i \<noteq> iid"
  shows "reg (snd (exec p s)) iid = None"
  using exec_simulates(2) [OF assms(1,2) surjective_pairing] assms(3)
  by (metis (full_types) spec_absent [where iid = iid, OF _ _ assms(4)])

text \<open>Without a new enrolment an absent instance stays absent.\<close>

lemma run_absent:
  assumes "invar s" and "\<forall>p\<in>set ops. wf_op p" and "reg s iid = None"
    and "\<forall>p\<in>set ops. \<forall>i. p = Enrol i \<longrightarrow> ID i \<noteq> iid"
  shows "reg (run ops s) iid = None \<and> invar (run ops s)"
  using assms
proof (induction ops arbitrary: s)
  case Nil
  then show ?case by simp
next
  case (Cons p ops)
  then have "invar (snd (exec p s))" and "reg (snd (exec p s)) iid = None"
    using exec_simulates(1) [of s p "fst (exec p s)"] exec_absent [of s p iid] by auto
  with Cons show ?case by simp
qed

lemma removed_stays_removed:
  assumes "invar s" and "remove now iid s = (Inr i, s')" and "\<forall>p\<in>set ops. wf_op p"
    and "\<forall>p\<in>set ops. \<forall>i. p = Enrol i \<longrightarrow> ID i \<noteq> iid"
  shows "find later iid (run ops s') = Inl ErrNotFound"
    and "fst (change later iid f (run ops s')) = Inl ErrNotFound"
proof -
  have "invar s'" "reg s' iid = None"
    using remove_ok [OF assms(1,2)] by auto
  then have "invar (run ops s')" "reg (run ops s') iid = None"
    using run_absent [of s' ops iid] assms(3,4) by auto
  then show "find later iid (run ops s') = Inl ErrNotFound"
    "fst (change later iid f (run ops s')) = Inl ErrNotFound"
    by (simp_all add: find_reg change_missing)
qed

end


section \<open>The store meets the contract\<close>

definition enrolled :: "contents \<Rightarrow> string \<rightharpoonup> Instance" where
  "enrolled c iid = (case c 0 (instanceKey iid) of
       Some (Doc j) \<Rightarrow> (case unmarshal_Instance j of Inr i \<Rightarrow> Some i | Inl _ \<Rightarrow> None)
     | _ \<Rightarrow> None)"

definition registry_ok :: "contents \<Rightarrow> bool" where
  "registry_ok c \<longleftrightarrow> timeless c \<and>
     (\<forall>iid v. c 0 (instanceKey iid) = Some v \<longrightarrow> (\<exists>i. v = Doc (marshal_Instance i) \<and> ID i = iid))"

lemma instanceKey_inject [simp]: "instanceKey i = instanceKey j \<longleftrightarrow> i = j"
  by (simp add: instanceKey_def)

lemma enrolled_cell:
  assumes "registry_ok c"
  shows "c 0 (instanceKey iid) = map_option (\<lambda>i. Doc (marshal_Instance i)) (enrolled c iid)"
    and "enrolled c iid = Some i \<Longrightarrow> ID i = iid"
proof -
  have *: "\<exists>i. v = Doc (marshal_Instance i) \<and> ID i = iid" if "c 0 (instanceKey iid) = Some v" for v
    using assms that by (auto simp: registry_ok_def)
  then show "c 0 (instanceKey iid) = map_option (\<lambda>i. Doc (marshal_Instance i)) (enrolled c iid)"
    "enrolled c iid = Some i \<Longrightarrow> ID i = iid"
    by (cases "c 0 (instanceKey iid)"; force simp: enrolled_def)+
qed

lemma enrolled_upd:
  assumes "\<And>t. c' t = (c t)(k := v)"
  shows "k = instanceKey iid \<Longrightarrow> v = Some (Doc (marshal_Instance i)) \<Longrightarrow> enrolled c' = (enrolled c)(iid \<mapsto> i)"
    and "k = instanceKey iid \<Longrightarrow> v = None \<Longrightarrow> enrolled c' = (enrolled c)(iid := None)"
    and "(\<And>j. k \<noteq> instanceKey j) \<Longrightarrow> enrolled c' = enrolled c"
  by (auto simp: enrolled_def assms fun_eq_iff)

lemma registry_ok_upd:
  assumes "registry_ok c" and "\<And>t. c' t = (c t)(k := v)"
    and "\<And>iid. k = instanceKey iid \<Longrightarrow> v = None \<or> (\<exists>i. v = Some (Doc (marshal_Instance i)) \<and> ID i = iid)"
  shows "registry_ok c'"
proof -
  have "timeless c'"
    using assms(1,2) timeless_eq by (metis registry_ok_def)
  moreover have "\<exists>i. w = Doc (marshal_Instance i) \<and> ID i = iid" if "c' 0 (instanceKey iid) = Some w" for iid w
    using that assms(1) assms(3) [of iid] by (auto simp: assms(2) registry_ok_def split: if_splits)
  ultimately show ?thesis by (simp add: registry_ok_def)
qed

lemma instance_stored:
  assumes "registry_ok c" and "\<And>t. c' t = (c t)(instanceKey (ID i) \<mapsto> Doc (marshal_Instance i))"
  shows "registry_ok c' \<and> enrolled c' = (enrolled c)(ID i \<mapsto> i)"
proof
  show "registry_ok c'"
    using assms by (rule registry_ok_upd) auto
  show "enrolled c' = (enrolled c)(ID i \<mapsto> i)"
    by (rule enrolled_upd(1) [OF assms(2)]) simp_all
qed

lemma instance_removed:
  assumes "registry_ok c" and "\<And>t. c' t = (c t)(instanceKey iid := None, meterAckKey iid := None)"
  shows "registry_ok c' \<and> enrolled c' = (enrolled c)(iid := None)"
proof -
  define d where "d = (\<lambda>t. (c t)(instanceKey iid := None))"
  have d: "\<And>t. d t = (c t)(instanceKey iid := None)" "\<And>t. c' t = (d t)(meterAckKey iid := None)"
    by (simp_all add: d_def assms(2))
  have "registry_ok d"
    using assms(1) d(1) by (rule registry_ok_upd) simp
  then have "registry_ok c'"
    using d(2) by (rule registry_ok_upd) simp
  moreover have "enrolled d = (enrolled c)(iid := None)"
    by (rule enrolled_upd(2) [OF d(1)]) simp_all
  moreover have "enrolled c' = enrolled d"
    by (rule enrolled_upd(3) [OF d(2)]) simp
  ultimately show ?thesis by simp
qed

context reliable_badger
begin

lemma lookup_enrolled:
  assumes "registry_ok (look s)"
  shows "lookup_instance B now iid s = (case enrolled (look s) iid of None \<Rightarrow> Inl ErrNotFound | Some i \<Rightarrow> Inr i)"
proof -
  have "look s now (instanceKey iid) = look s 0 (instanceKey iid)"
    by (rule timelessD) (use assms in \<open>simp_all add: registry_ok_def\<close>)
  then have cell: "look s now (instanceKey iid) = map_option (\<lambda>i. Doc (marshal_Instance i)) (enrolled (look s) iid)"
    using enrolled_cell(1) [OF assms] by simp
  show ?thesis
    by (cases "enrolled (look s) iid")
      (simp_all add: lookup_instance_def get_found_def get_total get_total_none cell)
qed

lemma update_txn_ok:
  assumes "registry_ok (look s)" and "update_instance_txn B now iid f s = Inr (i', txn)"
  obtains i where "enrolled (look s) iid = Some i" and "f i = Inr i'"
    and "\<And>t. look txn t = (look s t)(instanceKey iid \<mapsto> Doc (marshal_Instance i'))"
  using assms(2)
  by (auto simp: update_instance_txn_def lookup_enrolled [OF assms(1)] bind_simps set_value
      split: option.splits)

lemma delete_txn_ok:
  assumes "registry_ok (look s)" and "delete_instance_txn B now iid s = Inr (i, txn)"
  shows "enrolled (look s) iid = Some i"
    and "look txn t = (look s t)(instanceKey iid := None, meterAckKey iid := None)"
  using assms(2)
  by (auto simp: delete_instance_txn_def lookup_enrolled [OF assms(1)] bind_simps delete_key
      split: option.splits)

end

context serial_badger
begin

lemma Update_same:
  assumes "Update B wrap s body = (Inl e, s')"
  shows "look s' = look s"
  using Update_error [OF assms] rely_same by blast

lemma delete_attempts_ok:
  assumes "registry_ok (look s)" and "delete_attempts n B now iid s = (Inr i, s')"
  shows "enrolled (look s) iid = Some i \<and>
    (\<forall>t. look s' t = (look s t)(instanceKey iid := None, meterAckKey iid := None))"
  using assms
proof (induction n arbitrary: s)
  case 0
  then show ?case by simp
next
  case (Suc n)
  obtain r s1 where upd: "Update B StoreBadger s (delete_instance_txn B now iid) = (r, s1)" by fastforce
  show ?case
  proof (cases r)
    case (Inl e)
    with upd have same: "look s1 = look s" by (auto dest: Update_same)
    have "e = StoreBadger ErrConflict"
      using Suc.prems(2) by (auto simp: upd Inl split: store_error.splits badger_error.splits)
    with Suc.prems Suc.IH [of s1] show ?thesis by (simp add: upd Inl same)
  next
    case (Inr j)
    with Suc.prems(2) have "j = i" "s1 = s'" by (auto simp: upd)
    from upd [unfolded Inr] obtain txn where "delete_instance_txn B now iid s = Inr (j, txn)" "look s1 = look txn"
      by (rule Update_ok)
    with delete_txn_ok [OF Suc.prems(1)] \<open>j = i\<close> \<open>s1 = s'\<close> show ?thesis by metis
  qed
qed

lemma delete_attempts_error:
  assumes "delete_attempts n B now iid s = (Inl e, s')"
  shows "look s' = look s"
  using assms
proof (induction n arbitrary: s)
  case 0
  then show ?case by simp
next
  case (Suc n)
  obtain r s1 where upd: "Update B StoreBadger s (delete_instance_txn B now iid) = (r, s1)" by fastforce
  show ?case
  proof (cases r)
    case (Inl d)
    with upd have "look s1 = look s" by (auto dest: Update_same)
    with Suc upd Inl show ?thesis
      by (cases "d = StoreBadger ErrConflict") (auto split: store_error.splits badger_error.splits)
  next
    case (Inr j)
    with Suc.prems upd show ?thesis by simp
  qed
qed

lemma delete_missing:
  assumes "registry_ok (look s)" and "enrolled (look s) iid = None"
  shows "fst (DeleteInstance B now iid s) = Inl ErrNotFound"
  using assms
  by (simp add: DeleteInstance_def eval_nat_numeral Update_def delete_instance_txn_def lookup_enrolled)

lemma delete_attempts_missing:
  assumes "registry_ok (look s)" and "delete_attempts n B now iid s = (Inl ErrNotFound, s')"
  shows "enrolled (look s) iid = None"
  using assms
proof (induction n arbitrary: s)
  case 0
  then show ?case by simp
next
  case (Suc n)
  obtain r s1 where upd: "Update B StoreBadger s (delete_instance_txn B now iid) = (r, s1)" by fastforce
  show ?case
  proof (cases "r = Inl (StoreBadger ErrConflict)")
    case True
    with upd have "look s1 = look s" by (auto dest: Update_same)
    with Suc.IH [of s1] Suc.prems upd True show ?thesis by simp
  next
    case False
    with Suc.prems(2) upd have "r = Inl ErrNotFound"
      by (auto split: sum.splits store_error.splits badger_error.splits)
    with upd have "delete_instance_txn B now iid s = Inl ErrNotFound"
      by (auto simp: Update_def split: sum.splits prod.splits option.splits)
    then have "lookup_instance B now iid s = Inl ErrNotFound"
      by (auto simp: delete_instance_txn_def bind_simps ofB_def split: sum.splits)
    with Suc.prems(1) show ?thesis by (simp add: lookup_enrolled split: option.splits)
  qed
qed

end

context serial_badger
begin

lemma PutInstance_refines:
  assumes ok: "registry_ok (look s)" and put: "PutInstance B i s = (r, s')"
  shows "registry_ok (look s') \<and> enrolled (look s') = (if isl r then enrolled (look s) else (enrolled (look s))(ID i \<mapsto> i))"
proof (cases r)
  case (Inl e)
  with put have "look s' = look s" unfolding PutInstance_def by (auto dest: Update_same)
  with ok Inl show ?thesis by simp
next
  case (Inr u)
  with put obtain txn where "txn_set B s (instanceKey (ID i)) (Doc (marshal_Instance i)) = Inr txn" "look s' = look txn"
    unfolding PutInstance_def by (auto elim!: Update_ok simp: bind_simps)
  then have "\<And>t. look s' t = (look s t)(instanceKey (ID i) \<mapsto> Doc (marshal_Instance i))"
    by (simp add: set_value)
  from instance_stored [OF ok this] Inr show ?thesis by simp
qed

lemma UpdateInstance_refines:
  assumes ok: "registry_ok (look s)" and f: "keeps_id f" and upd: "UpdateInstance B now iid f s = (Inr i', s')"
  shows "registry_ok (look s') \<and> enrolled (look s') = (enrolled (look s))(iid \<mapsto> i') \<and>
    (\<exists>i. enrolled (look s) iid = Some i \<and> f i = Inr i')"
proof -
  from upd have "Update B StoreBadger s (update_instance_txn B now iid f) = (Inr i', s')"
    unfolding UpdateInstance_def by (rule conflict_as_missing_ok)
  then obtain txn where txn: "update_instance_txn B now iid f s = Inr (i', txn)" and s': "look s' = look txn"
    by (rule Update_ok)
  from ok txn obtain i where i: "enrolled (look s) iid = Some i" "f i = Inr i'"
    and look: "\<And>t. look txn t = (look s t)(instanceKey iid \<mapsto> Doc (marshal_Instance i'))"
    by (rule update_txn_ok) (rule that)
  have "ID i' = iid" using f i enrolled_cell(2) [OF ok] by (auto simp: keeps_id_def)
  then have "\<And>t. look s' t = (look s t)(instanceKey (ID i') \<mapsto> Doc (marshal_Instance i'))"
    by (simp add: s' look)
  from instance_stored [OF ok this] i \<open>ID i' = iid\<close> show ?thesis by simp
qed

lemma UpdateInstance_same:
  assumes "UpdateInstance B now iid f s = (Inl e, s')"
  shows "look s' = look s"
  using guarded_Update_error [OF assms [unfolded UpdateInstance_def]] rely_same by blast

lemma UpdateInstance_missing:
  assumes "registry_ok (look s)" and "enrolled (look s) iid = None"
  shows "fst (UpdateInstance B now iid f s) = Inl ErrNotFound"
  using assms(2) by (simp add: UpdateInstance_def Update_def update_instance_txn_def
      lookup_enrolled [OF assms(1)] conflict_as_missing_def)

lemma DeleteInstance_refines:
  assumes ok: "registry_ok (look s)" and del: "DeleteInstance B now iid s = (Inr i, s')"
  shows "registry_ok (look s') \<and> enrolled (look s) iid = Some i \<and> enrolled (look s') = (enrolled (look s))(iid := None)"
proof -
  have i: "enrolled (look s) iid = Some i"
    and look: "\<And>t. look s' t = (look s t)(instanceKey iid := None, meterAckKey iid := None)"
    using delete_attempts_ok [OF ok del [unfolded DeleteInstance_def]] by auto
  from instance_removed [OF ok look] i show ?thesis by simp
qed

end

definition registry_of :: "('db \<Rightarrow> contents) \<Rightarrow> 'db \<Rightarrow> string \<rightharpoonup> Instance" where
  "registry_of look s = enrolled (look s)"

sublocale serial_badger < registry: registry "\<lambda>s. registry_ok (look s)" "registry_of look"
    "lookup_instance B" "PutInstance B" "UpdateInstance B" "DeleteInstance B"
proof (unfold_locales, unfold registry_of_def, goal_cases)
  case (1 s iid i)
  then show ?case by (rule enrolled_cell(2))
next
  case (2 s now iid)
  then show ?case by (rule lookup_enrolled)
next
  case (3 s i u s')
  then show ?case using PutInstance_refines by fastforce
next
  case (4 s i e s')
  then show ?case using PutInstance_refines by fastforce
next
  case (5 s f now iid i' s')
  then show ?case by (rule UpdateInstance_refines)
next
  case (6 s now iid f e s')
  then show ?case using UpdateInstance_same by metis
next
  case (7 s iid now f)
  then show ?case by (rule UpdateInstance_missing)
next
  case (8 s now iid i s')
  then show ?case by (rule DeleteInstance_refines)
next
  case (9 s now iid e s')
  then show ?case using delete_attempts_error unfolding DeleteInstance_def by metis
next
  case (10 s iid now)
  then show ?case by (rule delete_missing)
qed


section \<open>Listing\<close>

lemma decode_instances:
  assumes "\<forall>(k, it) \<in> set its. \<exists>i. it = Inr (Doc (marshal_Instance i)) \<and> k = instanceKey (ID i)"
  shows "\<exists>is. decode_items unmarshal_Instance its = Inr is \<and>
    its = map (\<lambda>i. (instanceKey (ID i), Inr (Doc (marshal_Instance i)))) is"
  using assms
proof (induction its)
  case Nil
  then show ?case by simp
next
  case (Cons x its)
  then obtain i "is" where "x = (instanceKey (ID i), Inr (Doc (marshal_Instance i)))"
    and "decode_items unmarshal_Instance its = Inr is"
    and "its = map (\<lambda>i. (instanceKey (ID i), Inr (Doc (marshal_Instance i)))) is"
    by auto
  then show ?case by (intro exI [of _ "i # is"]) simp
qed

lemma marshal_Instance_inject: "marshal_Instance i = marshal_Instance j \<longleftrightarrow> i = j"
proof
  assume "marshal_Instance i = marshal_Instance j"
  then have "unmarshal_Instance (marshal_Instance i) = unmarshal_Instance (marshal_Instance j)" by (rule arg_cong)
  then show "i = j" by simp
qed simp

context reliable_badger
begin

lemma iterate_instances:
  assumes ok: "registry_ok (look s)"
  shows "(k, it) \<in> set (txn_iterate B s now instancePrefix instancePrefix) \<longleftrightarrow>
    (\<exists>i. k = instanceKey (ID i) \<and> it = Inr (Doc (marshal_Instance i)) \<and> enrolled (look s) (ID i) = Some i)"
    (is "_ \<in> set ?its \<longleftrightarrow> _")
proof -
  have at: "look s now (instanceKey j) = map_option (\<lambda>i. Doc (marshal_Instance i)) (enrolled (look s) j)" for j
    using timelessD [of "look s" "instanceKey j" now] ok enrolled_cell(1) [OF ok]
    by (simp add: registry_ok_def)
  have p: "prefix instancePrefix instancePrefix" by simp
  have found: "\<exists>i. k = instanceKey (ID i) \<and> it = Inr (Doc (marshal_Instance i)) \<and> enrolled (look s) (ID i) = Some i"
    if kit: "(k, it) \<in> set ?its" for k it
  proof -
    obtain v where v: "it = Inr v" using iterate_total [OF p kit] by blast
    have "prefix instancePrefix k" using iterate_keys [OF p, of k s now] kit by force
    then obtain j where j: "k = instanceKey j" by (auto simp: prefix_def instanceKey_def)
    with iterate_values [OF p kit [unfolded v]] obtain i where "enrolled (look s) j = Some i"
      "v = Doc (marshal_Instance i)" by (auto simp: at)
    with j v enrolled_cell(2) [OF ok] show ?thesis by blast
  qed
  show ?thesis
  proof
    assume "\<exists>i. k = instanceKey (ID i) \<and> it = Inr (Doc (marshal_Instance i)) \<and> enrolled (look s) (ID i) = Some i"
    then obtain i where i: "k = instanceKey (ID i)" "it = Inr (Doc (marshal_Instance i))"
      "enrolled (look s) (ID i) = Some i" by blast
    have "k \<in> fst ` set ?its"
      using i at [of "ID i"] by (simp add: iterate_keys [OF p] instanceKey_def)
    then obtain it' where it': "(k, it') \<in> set ?its" by auto
    from found [OF it'] obtain j where j: "k = instanceKey (ID j)" "it' = Inr (Doc (marshal_Instance j))"
      "enrolled (look s) (ID j) = Some j" by blast
    have "ID j = ID i" using i(1) j(1) by simp
    then have "j = i" using i(3) j(3) by simp
    then show "(k, it) \<in> set ?its" using it' i(2) j(2) by blast
  qed (rule found)
qed

lemma Instances_list:
  assumes ok: "registry_ok (look s)"
  shows "\<exists>is. Instances B now s = Inr is \<and> set is = ran (enrolled (look s)) \<and>
    distinct (map ID is) \<and> sorted (map CreatedAt is)"
proof -
  let ?its = "txn_iterate B s now instancePrefix instancePrefix"
  have "\<forall>(k, it) \<in> set ?its. \<exists>i. it = Inr (Doc (marshal_Instance i)) \<and> k = instanceKey (ID i)"
    using iterate_instances [OF ok] by blast
  from decode_instances [OF this] obtain "is" where dec: "decode_items unmarshal_Instance ?its = Inr is"
    and its: "?its = map (\<lambda>i. (instanceKey (ID i), Inr (Doc (marshal_Instance i)))) is" by blast
  have "i \<in> set is \<longleftrightarrow> enrolled (look s) (ID i) = Some i" for i
    using iterate_instances [OF ok, of "instanceKey (ID i)" "Inr (Doc (marshal_Instance i))" now]
    by (auto simp: its marshal_Instance_inject)
  then have "set is = ran (enrolled (look s))"
    using enrolled_cell(2) [OF ok] by (auto simp: ran_def)
  moreover have "distinct (map fst ?its)"
    by (rule sorted_wrt_less_distinct) (rule iterate_sorted, simp)
  then have "distinct (map ID is)"
    by (auto simp: its o_def distinct_map inj_on_def)
  moreover have "distinct (map ID (sort_key CreatedAt is)) \<longleftrightarrow> distinct (map ID is)"
    by (simp add: distinct_map)
  ultimately show ?thesis
    by (simp add: Instances_def dec)
qed

end


section \<open>Deleting under contention\<close>

text \<open>
  A database where contention ends: \<open>contention\<close> bounds the commits in a row that meet a conflict.
\<close>

locale settling_badger = serial_badger +
  fixes contention :: "'a \<Rightarrow> nat"
  assumes settled: "contention s = 0 \<Longrightarrow> fst (txn_commit B s txn) = None"
    and settles: "txn_commit B s txn = (Some ErrConflict, s') \<Longrightarrow> contention s' < contention s"
begin

lemma delete_attempts_succeed:
  assumes "registry_ok (look s)" and "enrolled (look s) iid = Some i" and "contention s < n"
  shows "fst (delete_attempts n B now iid s) = Inr i"
  using assms
proof (induction n arbitrary: s)
  case 0
  then show ?case by simp
next
  case (Suc n)
  have "lookup_instance B now iid s = Inr i"
    using Suc.prems by (simp add: lookup_enrolled)
  moreover obtain txn1 where "txn_delete B s (instanceKey iid) = Inr txn1" using delete_total by blast
  moreover obtain txn where "txn_delete B txn1 (meterAckKey iid) = Inr txn" using delete_total by blast
  ultimately have body: "delete_instance_txn B now iid s = Inr (i, txn)"
    by (simp add: delete_instance_txn_def)
  show ?case
  proof (cases "txn_commit B s txn")
    case (Pair e s1)
    show ?thesis
    proof (cases e)
      case None
      with Pair body show ?thesis by (simp add: Update_def)
    next
      case (Some d)
      with Pair have d: "d = ErrConflict" by (auto dest: commit_total)
      with Pair Some have "look s1 = look s" "contention s1 < contention s"
        using commit_conflict rely_same settles by metis+
      with Suc Pair Some d body show ?thesis by (simp add: Update_def)
    qed
  qed
qed

end

interpretation map_db: settling_badger map_badger map_look "(=)" conflicts
  by unfold_locales (auto simp: map_badger_ops split: if_splits)


section \<open>What the registry guarantees\<close>

text \<open>A store as the clients of the registry use it.\<close>

abbreviation store_exec :: "'db badger \<Rightarrow> registry_op \<Rightarrow> 'db \<Rightarrow> bool \<times> 'db" where
  "store_exec B \<equiv> registry_exec (PutInstance B) (UpdateInstance B) (DeleteInstance B)"

abbreviation store_run :: "'db badger \<Rightarrow> registry_op list \<Rightarrow> 'db \<Rightarrow> 'db" where
  "store_run B \<equiv> registry_run (PutInstance B) (UpdateInstance B) (DeleteInstance B)"

definition example_instance :: "string \<Rightarrow> Instance" where
  "example_instance iid = zero_Instance\<lparr>ID := iid, Name := iid\<rparr>"

definition rename_instance :: "string \<Rightarrow> Instance \<Rightarrow> store_error + Instance" where
  "rename_instance n i = Inr (i\<lparr>Name := n\<rparr>)"

lemma keeps_id_rename [simp]: "keeps_id (rename_instance n)"
  by (simp add: keeps_id_def rename_instance_def)

lemma registry_ok_empty [simp]: "registry_ok (map_look empty_db)" "enrolled (map_look empty_db) = Map.empty"
  by (auto simp: registry_ok_def timeless_def enrolled_def)

lemma ID_example [simp]: "ID (example_instance iid) = iid"
  by (simp add: example_instance_def)

definition example_registry :: "nat \<Rightarrow> map_db" where
  "example_registry n = db_of [(instanceKey ''a'', Doc (marshal_Instance (example_instance ''a'')))] n"

lemma example_registry_ok [simp]:
  "registry_ok (map_look (example_registry n))" "enrolled (map_look (example_registry n)) = [''a'' \<mapsto> example_instance ''a'']"
  by (auto simp: registry_ok_def enrolled_def example_registry_def fun_eq_iff split: if_splits)

context serial_badger
begin

lemma store_simulates:
  assumes "registry_ok (look s)" and "wf_op p" and "store_exec B p s = (ok, s')"
  shows "registry_ok (look s') \<and>
    (if ok then registry_spec p (enrolled (look s)) = Some (enrolled (look s')) else enrolled (look s') = enrolled (look s))"
  using registry.exec_simulates [OF assms] by (simp only: registry_of_def)

lemma store_removed:
  assumes "registry_ok (look s)" and "DeleteInstance B now iid s = (Inr i, s')" and "\<forall>p\<in>set ops. wf_op p"
    and "\<forall>p\<in>set ops. \<forall>i. p = Enrol i \<longrightarrow> ID i \<noteq> iid"
  shows "lookup_instance B later iid (store_run B ops s') = Inl ErrNotFound \<and>
    fst (UpdateInstance B later iid f (store_run B ops s')) = Inl ErrNotFound"
  using registry.removed_stays_removed [OF assms] by simp

lemma DeleteInstance_contents:
  assumes "registry_ok (look s)" and "DeleteInstance B now iid s = (Inr i, s')"
  shows "enrolled (look s) iid = Some i \<and>
    (\<forall>t. look s' t = (look s t)(instanceKey iid := None, meterAckKey iid := None))"
  using delete_attempts_ok [OF assms(1) assms(2) [unfolded DeleteInstance_def]] .

end

text \<open>
  C12.  The store's registry implements a map: an enrolment, update or deletion that succeeds has
  the effect its specification has on the map of enrolled instances, one that fails changes nothing,
  and the stored documents stay well formed.
\<close>

theorem registry_refines_map:
  assumes "serial_badger B look rely" and "registry_ok (look s)" and "wf_op p"
    and "store_exec B p s = (ok, s')"
  shows "registry_ok (look s') \<and>
    (if ok then registry_spec p (enrolled (look s)) = Some (enrolled (look s')) else enrolled (look s') = enrolled (look s))"
  using serial_badger.store_simulates [OF assms] .

lemmas registry_eval = Update_def map_badger_simps PutInstance_def UpdateInstance_def update_instance_txn_def
  DeleteInstance_def delete_instance_txn_def lookup_instance_def get_found_def conflict_as_missing_def
  rename_instance_def example_registry_def eval_nat_numeral

theorem registry_refines_map_witness:
  "let (ok, s') = store_exec map_badger (Change 7 ''a'' (rename_instance ''b'')) (example_registry 0) in
   ok \<and> registry_ok (map_look s') \<and>
   enrolled (map_look s') = [''a'' \<mapsto> (example_instance ''a'')\<lparr>Name := ''b''\<rparr>]"
proof -
  let ?x = "store_exec map_badger (Change 7 ''a'' (rename_instance ''b'')) (example_registry 0)"
  have ok: "fst ?x" by (simp add: registry_eval)
  from registry_refines_map [OF map_db.serial_badger_axioms example_registry_ok(1) _ surjective_pairing,
      of "Change 7 ''a'' (rename_instance ''b'')" 0] ok
  show ?thesis by (simp add: split_beta rename_instance_def)
qed

text \<open>
  A deleted instance is not brought back: after a successful deletion, whatever updates,
  deletions and enrolments of other instances follow, a lookup and an update of it report
  \<open>ErrNotFound\<close>.
\<close>

theorem deleted_instance_stays_deleted:
  assumes "serial_badger B look rely" and "registry_ok (look s)" and "DeleteInstance B now iid s = (Inr i, s')"
    and "\<forall>p\<in>set ops. wf_op p" and "\<forall>p\<in>set ops. \<forall>i. p = Enrol i \<longrightarrow> ID i \<noteq> iid"
  shows "lookup_instance B later iid (store_run B ops s') = Inl ErrNotFound \<and>
    fst (UpdateInstance B later iid f (store_run B ops s')) = Inl ErrNotFound"
  using serial_badger.store_removed [OF assms] .

theorem deleted_instance_stays_deleted_witness:
  "let s' = snd (DeleteInstance map_badger 7 ''a'' (example_registry 0)) in
   lookup_instance map_badger 9 ''a'' (store_run map_badger
     [Change 8 ''a'' (rename_instance ''z''), Enrol (example_instance ''b'')] s') = Inl ErrNotFound"
proof -
  have "DeleteInstance map_badger 7 ''a'' (example_registry 0) =
      (Inr (example_instance ''a''), snd (DeleteInstance map_badger 7 ''a'' (example_registry 0)))"
    by (simp add: registry_eval)
  from deleted_instance_stays_deleted [OF map_db.serial_badger_axioms example_registry_ok(1) this,
      of "[Change 8 ''a'' (rename_instance ''z''), Enrol (example_instance ''b'')]" 9]
  show ?thesis unfolding Let_def by simp
qed

text \<open>
  What a deletion removes: the instance and its meter acknowledgement, in one transaction, and
  nothing else; the usage totals, the events and the other instances stay.
\<close>

theorem delete_removes_instance_and_ack:
  assumes "serial_badger B look rely" and "registry_ok (look s)" and "DeleteInstance B now iid s = (Inr i, s')"
  shows "enrolled (look s) iid = Some i \<and>
    (\<forall>t. look s' t = (look s t)(instanceKey iid := None, meterAckKey iid := None))"
  using serial_badger.DeleteInstance_contents [OF assms] .

theorem delete_removes_instance_and_ack_witness:
  "map_look (snd (DeleteInstance map_badger 7 ''a'' (example_registry 0))) 8 (instanceKey ''a'') = None"
proof -
  have "DeleteInstance map_badger 7 ''a'' (example_registry 0) =
      (Inr (example_instance ''a''), snd (DeleteInstance map_badger 7 ''a'' (example_registry 0)))"
    by (simp add: registry_eval)
  from delete_removes_instance_and_ack [OF map_db.serial_badger_axioms example_registry_ok(1) this]
  show ?thesis by simp
qed

text \<open>
  C20.  Deletion under contention: when at most seven commits in a row meet a conflict, deleting an
  enrolled instance succeeds and returns it.
\<close>

theorem delete_succeeds_under_contention:
  assumes "settling_badger B look rely contention" and "registry_ok (look s)"
    and "enrolled (look s) iid = Some i" and "contention s \<le> 7"
  shows "fst (DeleteInstance B now iid s) = Inr i"
  using settling_badger.delete_attempts_succeed [OF assms(1-3), of 8] assms(4)
  by (simp add: DeleteInstance_def)

theorem delete_succeeds_under_contention_witness:
  "fst (DeleteInstance map_badger 3 ''a'' (example_registry 7)) = Inr (example_instance ''a'')"
  using delete_succeeds_under_contention [OF map_db.settling_badger_axioms example_registry_ok(1),
      of 7 "''a''" "example_instance ''a''" 3]
  by (simp add: example_registry_def [THEN arg_cong, of conflicts])

text \<open>
  \<open>Instances\<close> lists every enrolled instance once, ordered by creation time.
\<close>

theorem instances_lists_registry:
  assumes "reliable_badger B look rely" and "registry_ok (look s)"
  shows "\<exists>is. Instances B now s = Inr is \<and> set is = ran (enrolled (look s)) \<and>
    distinct (map ID is) \<and> sorted (map CreatedAt is)"
  using reliable_badger.Instances_list [OF assms] .

theorem instances_lists_registry_witness:
  "\<exists>is. Instances map_badger 4 (example_registry 0) = Inr is \<and> set is = {example_instance ''a''} \<and>
    distinct (map ID is) \<and> sorted (map CreatedAt is)"
  using instances_lists_registry [OF map_db.reliable_badger_axioms example_registry_ok(1), of 4 0] by simp

end
