(* ===== verification/Operator.thy ===== *)
theory Operator
  imports Registry
begin

text \<open>
  The operator's credentials in \<open>internal/store/store.go\<close>: the one-time setup
  (\<open>CompleteOperator\<close>), the TOTP time steps (\<open>ConsumeTOTPStep\<close>), the recovery codes
  (\<open>ConsumeRecoveryCode\<close>) and the sessions (\<open>CreateSession\<close>, \<open>SessionValid\<close>,
  \<open>DeleteSession\<close>).  The lemmas give the effect of each operation on the contents of the
  database; the theorems are about arbitrary sequences of these operations.
\<close>

section \<open>The effect of each operation\<close>

lemma auth_keys [simp]:
  "recoveryKey h \<noteq> operatorReadyKey" "operatorReadyKey \<noteq> recoveryKey h"
  "recoveryKey h \<noteq> totpStepKey" "totpStepKey \<noteq> recoveryKey h"
  "recoveryKey h \<noteq> totpSecretKey" "totpSecretKey \<noteq> recoveryKey h"
  "recoveryKey h \<noteq> pendingTOTPKey" "pendingTOTPKey \<noteq> recoveryKey h"
  "sessionKey h \<noteq> operatorReadyKey" "operatorReadyKey \<noteq> sessionKey h"
  "sessionKey h \<noteq> totpStepKey" "totpStepKey \<noteq> sessionKey h"
  "sessionKey h \<noteq> totpSecretKey" "totpSecretKey \<noteq> sessionKey h"
  "sessionKey h \<noteq> pendingTOTPKey" "pendingTOTPKey \<noteq> sessionKey h"
  "sessionKey h \<noteq> recoveryKey g" "recoveryKey g \<noteq> sessionKey h"
  "operatorReadyKey \<noteq> totpStepKey" "totpStepKey \<noteq> operatorReadyKey"
  "operatorReadyKey \<noteq> totpSecretKey" "totpSecretKey \<noteq> operatorReadyKey"
  "operatorReadyKey \<noteq> pendingTOTPKey" "pendingTOTPKey \<noteq> operatorReadyKey"
  "totpStepKey \<noteq> totpSecretKey" "totpSecretKey \<noteq> totpStepKey"
  "totpStepKey \<noteq> pendingTOTPKey" "pendingTOTPKey \<noteq> totpStepKey"
  "totpSecretKey \<noteq> pendingTOTPKey" "pendingTOTPKey \<noteq> totpSecretKey"
  "recoveryKey h = recoveryKey g \<longleftrightarrow> h = g" "sessionKey h = sessionKey g \<longleftrightarrow> h = g"
  by (simp_all add: key_defs)

lemma prefix_sessionKey [simp]: "prefix sessionPrefix (sessionKey h)"
  by (simp add: sessionKey_def)

definition consumed_step :: "contents \<Rightarrow> u64 option" where
  "consumed_step c = (case c 0 totpStepKey of
       Some (Bytes b) \<Rightarrow> if length b = 8 then Some (Uint64 b) else None
     | _ \<Rightarrow> None)"

definition ready :: "contents \<Rightarrow> bool" where
  "ready c \<longleftrightarrow> c 0 operatorReadyKey \<noteq> None"

context badger_laws
begin

lemma ConsumeTOTPStep_accepts:
  assumes "ConsumeTOTPStep B now step s = (Inr True, s')" and "timeless (look s)"
  shows "look s' t = (look s t)(totpStepKey \<mapsto> Bytes (PutUint64 step))"
    and "consumed_step (look s) = Some p \<Longrightarrow> p < step"
proof -
  have at: "look s now totpStepKey = look s 0 totpStepKey"
    using assms(2) by (rule timelessD) simp
  from assms(1) obtain txn where "look s' = look txn" and set: "setUint64 B s totpStepKey step = Inr txn"
    and old: "txn_get B s now totpStepKey = Inl ErrKeyNotFound \<or>
      (\<exists>b. txn_get B s now totpStepKey = Inr (Inr (Bytes b)) \<and> length b = 8 \<and> Uint64 b < step)"
    unfolding ConsumeTOTPStep_def
    by (elim Update_ok) (auto simp: bind_simps Let_def split: sum.splits badger_error.splits if_splits)
  then show "look s' t = (look s t)(totpStepKey \<mapsto> Bytes (PutUint64 step))"
    by (simp add: setUint64_look)
  show "p < step" if "consumed_step (look s) = Some p"
    using old that get_value [of s now totpStepKey] get_missing [of s now totpStepKey]
    by (auto simp: consumed_step_def at split: if_splits)
qed

lemma ConsumeTOTPStep_refuses:
  assumes "ConsumeTOTPStep B now step s = (Inr False, s')" and "timeless (look s)"
  shows "look s' = look s" and "\<exists>p. consumed_step (look s) = Some p \<and> step \<le> p"
proof -
  have at: "look s now totpStepKey = look s 0 totpStepKey"
    using assms(2) by (rule timelessD) simp
  from assms(1) obtain b where s': "look s' = look s"
    and "txn_get B s now totpStepKey = Inr (Inr (Bytes b))" "length b = 8" "step \<le> Uint64 b"
    unfolding ConsumeTOTPStep_def
    by (elim Update_ok) (auto simp: bind_simps Let_def split: sum.splits badger_error.splits if_splits)
  with get_value [of s now totpStepKey] show "look s' = look s" "\<exists>p. consumed_step (look s) = Some p \<and> step \<le> p"
    by (auto simp: consumed_step_def at)
qed

lemma ConsumeRecoveryCode_accepts:
  assumes "ConsumeRecoveryCode B sha256_hex now code s = (Inr True, s')"
  defines "k \<equiv> recoveryKey (sha256_hex (ToUpper (TrimSpace code)))"
  shows "look s now k \<noteq> None" and "look s' t = (look s t)(k := None)"
  using assms unfolding ConsumeRecoveryCode_def Let_def k_def
  by (auto elim!: Update_ok simp: bind_simps delete_key dest: get_item split: sum.splits badger_error.splits)

lemma ConsumeRecoveryCode_refuses:
  assumes "ConsumeRecoveryCode B sha256_hex now code s = (Inr False, s')"
  shows "look s' = look s" and "look s now (recoveryKey (sha256_hex (ToUpper (TrimSpace code)))) = None"
  using assms unfolding ConsumeRecoveryCode_def Let_def
  by (auto elim!: Update_ok simp: bind_simps dest: get_missing split: sum.splits badger_error.splits)

lemma set_recovery_hashes_look:
  "set_recovery_hashes B hashes txn = Inr txn' \<Longrightarrow>
   look txn' t k = (if k \<in> recoveryKey ` set hashes then Some (Bytes [CHR 0x01]) else look txn t k)"
  by (induction hashes arbitrary: txn) (auto simp: bind_simps set_value split: if_splits)

lemma CompleteOperator_look:
  assumes "CompleteOperator B sha256_hex now secret step hashes token ttl s = (Inr u, s')"
  shows "look s now operatorReadyKey = None"
    and "k \<noteq> sessionKey (sha256_hex token) \<Longrightarrow> look s' t k =
      (if k \<in> recoveryKey ` set hashes then Some (Bytes [CHR 0x01])
       else if k = pendingTOTPKey then None
       else if k = operatorReadyKey then Some (Bytes [CHR 0x01])
       else if k = totpStepKey then Some (Bytes (PutUint64 step))
       else if k = totpSecretKey then Some (Bytes secret) else look s t k)"
    and "t + second \<le> now + ttl \<Longrightarrow> look s' t (sessionKey (sha256_hex token)) \<noteq> None"
    and "now + ttl \<le> t \<Longrightarrow> look s' t (sessionKey (sha256_hex token)) = None"
proof -
  from assms obtain txn1 txn2 txn3 txn4 txn5 txn where s': "look s' = look txn"
    and new: "txn_get B s now operatorReadyKey = Inl ErrKeyNotFound"
    and txn1: "txn_set B s totpSecretKey (Bytes secret) = Inr txn1"
    and txn2: "setUint64 B txn1 totpStepKey step = Inr txn2"
    and txn3: "txn_set B txn2 operatorReadyKey (Bytes [CHR 0x01]) = Inr txn3"
    and txn4: "txn_delete B txn3 pendingTOTPKey = Inr txn4"
    and txn5: "set_recovery_hashes B hashes txn4 = Inr txn5"
    and txn: "txn_set_ttl B txn5 now (sessionKey (sha256_hex token)) (Bytes [CHR 0x01]) ttl = Inr txn"
    unfolding CompleteOperator_def SessionHash_def
    by (elim Update_ok) (auto simp: bind_simps split: sum.splits badger_error.splits)
  show "look s now operatorReadyKey = None"
    using new by (rule get_missing)
  show "t + second \<le> now + ttl \<Longrightarrow> look s' t (sessionKey (sha256_hex token)) \<noteq> None"
    using set_ttl_alive [OF txn] by (simp add: s')
  show "now + ttl \<le> t \<Longrightarrow> look s' t (sessionKey (sha256_hex token)) = None"
    using set_ttl_expired [OF txn] by (simp add: s')
  show "k \<noteq> sessionKey (sha256_hex token) \<Longrightarrow> look s' t k =
      (if k \<in> recoveryKey ` set hashes then Some (Bytes [CHR 0x01])
       else if k = pendingTOTPKey then None
       else if k = operatorReadyKey then Some (Bytes [CHR 0x01])
       else if k = totpStepKey then Some (Bytes (PutUint64 step))
       else if k = totpSecretKey then Some (Bytes secret) else look s t k)"
    by (simp add: s' set_ttl_others [OF txn] set_recovery_hashes_look [OF txn5] delete_key [OF txn4]
        set_value [OF txn3] setUint64_look [OF txn2] set_value [OF txn1])
qed

lemma CreateSession_look:
  assumes "CreateSession B sha256_hex now token ttl s = (Inr u, s')"
  shows "k \<noteq> sessionKey (sha256_hex token) \<Longrightarrow> look s' t k = look s t k"
    and "t + second \<le> now + ttl \<Longrightarrow> look s' t (sessionKey (sha256_hex token)) \<noteq> None"
    and "now + ttl \<le> t \<Longrightarrow> look s' t (sessionKey (sha256_hex token)) = None"
proof -
  from assms obtain txn where "look s' = look txn"
    "txn_set_ttl B s now (sessionKey (sha256_hex token)) (Bytes [CHR 0x01]) ttl = Inr txn"
    unfolding CreateSession_def SessionHash_def by (elim Update_ok) (auto simp: bind_simps)
  then show "k \<noteq> sessionKey (sha256_hex token) \<Longrightarrow> look s' t k = look s t k"
    "t + second \<le> now + ttl \<Longrightarrow> look s' t (sessionKey (sha256_hex token)) \<noteq> None"
    "now + ttl \<le> t \<Longrightarrow> look s' t (sessionKey (sha256_hex token)) = None"
    by (simp_all add: set_ttl_others set_ttl_alive set_ttl_expired)
qed

lemma DeleteSession_look:
  assumes "DeleteSession B sha256_hex token s = (Inr u, s')"
  shows "look s' t = (look s t)(sessionKey (sha256_hex token) := None)"
  using assms unfolding DeleteSession_def SessionHash_def
  by (auto elim!: Update_ok simp: bind_simps delete_key)

lemma SetPendingTOTP_look:
  assumes "SetPendingTOTP B secret s = (Inr u, s')"
  shows "look s' t = (look s t)(totpStepKey := None, pendingTOTPKey \<mapsto> Bytes secret)"
  using assms unfolding SetPendingTOTP_def
  by (auto elim!: Update_ok simp: bind_simps delete_key set_value)

end

context reliable_badger
begin

lemma SessionValid_look:
  "token \<noteq> [] \<Longrightarrow> SessionValid B sha256_hex now token s = Inr (look s now (sessionKey (sha256_hex token)) \<noteq> None)"
  using get_total [of s now "sessionKey (sha256_hex token)"] get_total_none [of s now "sessionKey (sha256_hex token)"]
  by (cases "look s now (sessionKey (sha256_hex token))") (auto simp: SessionValid_def SessionHash_def)

lemma OperatorReady_look:
  "timeless (look s) \<Longrightarrow> OperatorReady B now s = Inr (ready (look s))"
  using get_total [of s now operatorReadyKey] get_total_none [of s now operatorReadyKey]
    timelessD [of "look s" operatorReadyKey now]
  by (cases "look s 0 operatorReadyKey") (auto simp: OperatorReady_def ready_def)

lemma CompleteOperator_again:
  assumes "timeless (look s)" and "ready (look s)"
  shows "CompleteOperator B sha256_hex now secret step hashes token ttl s = (Inl ErrAlreadyConfigured, s)"
proof -
  have "look s now operatorReadyKey = look s 0 operatorReadyKey"
    using assms(1) by (rule timelessD) simp
  with assms(2) obtain v where "txn_get B s now operatorReadyKey = Inr (Inr v)"
    using get_total [of s now operatorReadyKey] by (auto simp: ready_def)
  then show ?thesis by (simp add: CompleteOperator_def Update_def)
qed

end


section \<open>Sequences of operations\<close>

datatype operator_op =
    UseStep instant u64
  | UseRecovery instant string
  | OpenSession instant string duration
  | CloseSession string
  | StartSetup string
  | FinishSetup instant string u64 "string list" string duration

text \<open>Whether the operation was accepted, and the database it leaves.\<close>

fun operator_exec :: "'db badger \<Rightarrow> (string \<Rightarrow> string) \<Rightarrow> operator_op \<Rightarrow> 'db \<Rightarrow> bool \<times> 'db" where
  "operator_exec B sha256_hex (UseStep now step) s =
     (case ConsumeTOTPStep B now step s of (r, s') \<Rightarrow> (r = Inr True, s'))"
| "operator_exec B sha256_hex (UseRecovery now code) s =
     (case ConsumeRecoveryCode B sha256_hex now code s of (r, s') \<Rightarrow> (r = Inr True, s'))"
| "operator_exec B sha256_hex (OpenSession now token ttl) s =
     (case CreateSession B sha256_hex now token ttl s of (r, s') \<Rightarrow> (r = Inr (), s'))"
| "operator_exec B sha256_hex (CloseSession token) s =
     (case DeleteSession B sha256_hex token s of (r, s') \<Rightarrow> (r = Inr (), s'))"
| "operator_exec B sha256_hex (StartSetup secret) s =
     (case SetPendingTOTP B secret s of (r, s') \<Rightarrow> (r = Inr (), s'))"
| "operator_exec B sha256_hex (FinishSetup now secret step hashes token ttl) s =
     (case CompleteOperator B sha256_hex now secret step hashes token ttl s of (r, s') \<Rightarrow> (r = Inr (), s'))"

text \<open>The operations of a sequence that are accepted, in order, and the database at the end.\<close>

fun operator_run :: "'db badger \<Rightarrow> (string \<Rightarrow> string) \<Rightarrow> operator_op list \<Rightarrow> 'db \<Rightarrow> operator_op list \<times> 'db" where
  "operator_run B sha256_hex [] s = ([], s)"
| "operator_run B sha256_hex (p # ops) s =
     (case operator_exec B sha256_hex p s of (ok, s') \<Rightarrow>
      case operator_run B sha256_hex ops s' of (acc, s'') \<Rightarrow>
        (if ok then p # acc else acc, s''))"

text \<open>The credentials of a configured operator can only be used up.\<close>

definition credentials_shrink :: "contents \<Rightarrow> contents \<Rightarrow> bool" where
  "credentials_shrink c c' \<longleftrightarrow> timeless c' \<and> ready c' \<and> c' 0 totpSecretKey = c 0 totpSecretKey \<and>
     (\<forall>h. c 0 (recoveryKey h) = None \<longrightarrow> c' 0 (recoveryKey h) = None)"

lemma credentials_shrink_refl: "timeless c \<Longrightarrow> ready c \<Longrightarrow> credentials_shrink c c"
  by (simp add: credentials_shrink_def)

lemma credentials_shrink_trans: "credentials_shrink c c' \<Longrightarrow> credentials_shrink c' c'' \<Longrightarrow> credentials_shrink c c''"
  by (simp add: credentials_shrink_def)

lemma timeless_session:
  assumes "timeless c" and "\<And>t k. \<not> prefix sessionPrefix k \<Longrightarrow> c' t k = c t k"
  shows "timeless c'"
  using timelessD [OF assms(1)] assms(2) unfolding timeless_def by metis

lemma credentials_shrink_session:
  assumes "timeless c" "ready c" and "\<And>t k. \<not> prefix sessionPrefix k \<Longrightarrow> c' t k = c t k"
  shows "credentials_shrink c c'"
  using timeless_session [OF assms(1,3)] assms(2) by (simp add: credentials_shrink_def ready_def assms(3))

lemma credentials_shrink_upd:
  assumes "timeless c" "ready c" and "\<And>t. c' t = (c t)(k := v)"
    and "k \<noteq> operatorReadyKey" "k \<noteq> totpSecretKey" "\<And>h. k = recoveryKey h \<Longrightarrow> v = None"
  shows "credentials_shrink c c'"
proof -
  have "timeless c'" using assms(1,3) by (rule timeless_eq)
  then show ?thesis
    using assms(2,4-6) by (auto simp: credentials_shrink_def ready_def assms(3))
qed

context serial_badger
begin

lemma ConsumeTOTPStep_shrinks:
  assumes t: "timeless (look s)" and r: "ready (look s)" and x: "ConsumeTOTPStep B now step s = (x, s')"
  shows "credentials_shrink (look s) (look s')"
proof -
  consider e where "x = Inl e" | "x = Inr True" | "x = Inr False" by (cases x) auto
  then show ?thesis
  proof cases
    case 2
    from ConsumeTOTPStep_accepts(1) [OF x [unfolded 2] t] show ?thesis
      by (rule credentials_shrink_upd [OF t r]) simp_all
  next
    case 1
    with x have "look s' = look s" unfolding ConsumeTOTPStep_def by (auto dest: Update_same)
    then show ?thesis using credentials_shrink_refl [OF t r] by simp
  next
    case 3
    then show ?thesis
      using ConsumeTOTPStep_refuses(1) [OF x [unfolded 3] t] credentials_shrink_refl [OF t r] by simp
  qed
qed

lemma ConsumeRecoveryCode_shrinks:
  assumes t: "timeless (look s)" and r: "ready (look s)"
    and x: "ConsumeRecoveryCode B sha256_hex now code s = (x, s')"
  shows "credentials_shrink (look s) (look s')"
proof -
  consider e where "x = Inl e" | "x = Inr True" | "x = Inr False" by (cases x) auto
  then show ?thesis
  proof cases
    case 2
    from ConsumeRecoveryCode_accepts(2) [OF x [unfolded 2]] show ?thesis
      by (rule credentials_shrink_upd [OF t r]) simp_all
  next
    case 1
    with x have "look s' = look s" unfolding ConsumeRecoveryCode_def Let_def by (auto dest: Update_same)
    then show ?thesis using credentials_shrink_refl [OF t r] by simp
  next
    case 3
    then show ?thesis
      using ConsumeRecoveryCode_refuses(1) [OF x [unfolded 3]] credentials_shrink_refl [OF t r] by simp
  qed
qed

lemma CreateSession_others:
  assumes "CreateSession B sha256_hex now token ttl s = (x, s')" and "k \<noteq> sessionKey (sha256_hex token)"
  shows "look s' t k = look s t k"
proof (cases x)
  case (Inl e)
  with assms(1) have "look s' = look s" unfolding CreateSession_def by (auto dest: Update_same)
  then show ?thesis by simp
next
  case (Inr u)
  then show ?thesis using CreateSession_look(1) [OF assms(1) [unfolded Inr] assms(2)] by blast
qed

lemma DeleteSession_others:
  assumes "DeleteSession B sha256_hex token s = (x, s')" and "k \<noteq> sessionKey (sha256_hex token)"
  shows "look s' t k = look s t k"
proof (cases x)
  case (Inl e)
  with assms(1) have "look s' = look s" unfolding DeleteSession_def by (auto dest: Update_same)
  then show ?thesis by simp
next
  case (Inr u)
  then show ?thesis using DeleteSession_look [OF assms(1) [unfolded Inr]] assms(2) by simp
qed

lemma SetPendingTOTP_shrinks:
  assumes t: "timeless (look s)" and r: "ready (look s)" and x: "SetPendingTOTP B secret s = (x, s')"
  shows "credentials_shrink (look s) (look s')"
proof (cases x)
  case (Inl e)
  with x have "look s' = look s" unfolding SetPendingTOTP_def by (auto dest: Update_same)
  then show ?thesis using credentials_shrink_refl [OF t r] by simp
next
  case (Inr u)
  define c where "c = (\<lambda>t. (look s t)(totpStepKey := None))"
  have one: "credentials_shrink (look s) c"
    by (rule credentials_shrink_upd [OF t r, of c totpStepKey None]) (simp_all add: c_def)
  then have "timeless c" "ready c" by (simp_all add: credentials_shrink_def)
  then have "credentials_shrink c (look s')"
    by (rule credentials_shrink_upd [of c _ pendingTOTPKey "Some (Bytes secret)"])
      (simp_all add: c_def SetPendingTOTP_look [OF x [unfolded Inr]])
  with one show ?thesis by (rule credentials_shrink_trans)
qed

lemma operator_exec_shrinks:
  assumes t: "timeless (look s)" and r: "ready (look s)" and ex: "operator_exec B sha256_hex p s = (ok, s')"
  shows "credentials_shrink (look s) (look s')"
proof (cases p)
  case (UseStep now step)
  then show ?thesis using ex ConsumeTOTPStep_shrinks [OF t r] by (auto split: prod.splits)
next
  case (UseRecovery now code)
  then show ?thesis using ex ConsumeRecoveryCode_shrinks [OF t r] by (auto split: prod.splits)
next
  case (OpenSession now token ttl)
  then obtain x where x: "CreateSession B sha256_hex now token ttl s = (x, s')" using ex by (auto split: prod.splits)
  show ?thesis
    by (rule credentials_shrink_session [OF t r]) (rule CreateSession_others [OF x], auto)
next
  case (CloseSession token)
  then obtain x where x: "DeleteSession B sha256_hex token s = (x, s')" using ex by (auto split: prod.splits)
  show ?thesis
    by (rule credentials_shrink_session [OF t r]) (rule DeleteSession_others [OF x], auto)
next
  case (StartSetup secret)
  then show ?thesis using ex SetPendingTOTP_shrinks [OF t r] by (auto split: prod.splits)
next
  case (FinishSetup now secret step hashes token ttl)
  with ex show ?thesis
    using CompleteOperator_again [OF t r] credentials_shrink_refl [OF t r] by simp
qed

lemma operator_run_shrinks:
  assumes "timeless (look s)" and "ready (look s)" and "operator_run B sha256_hex ops s = (acc, s')"
  shows "credentials_shrink (look s) (look s')"
  using assms
proof (induction ops arbitrary: s acc)
  case Nil
  then show ?case by (simp add: credentials_shrink_refl)
next
  case (Cons p ops)
  obtain ok s1 where p: "operator_exec B sha256_hex p s = (ok, s1)" by fastforce
  have one: "credentials_shrink (look s) (look s1)" using Cons.prems p by (intro operator_exec_shrinks)
  obtain acc' s2 where "operator_run B sha256_hex ops s1 = (acc', s2)" by fastforce
  with Cons.prems p have "operator_run B sha256_hex ops s1 = (acc', s')" by (auto split: if_splits)
  moreover have "timeless (look s1)" "ready (look s1)" using one by (simp_all add: credentials_shrink_def)
  ultimately have "credentials_shrink (look s1) (look s')" by (intro Cons.IH)
  with one show ?case by (rule credentials_shrink_trans)
qed

end

text \<open>The time steps that were accepted, and the session an operation opens or closes.\<close>

fun used_step :: "operator_op \<Rightarrow> u64 list" where
  "used_step (UseStep now step) = [step]"
| "used_step _ = []"

definition used_steps :: "operator_op list \<Rightarrow> u64 list" where
  "used_steps ops = concat (map used_step ops)"

fun touches_session :: "(string \<Rightarrow> string) \<Rightarrow> string \<Rightarrow> operator_op \<Rightarrow> bool" where
  "touches_session sha256_hex h (OpenSession now token ttl) = (sha256_hex token = h)"
| "touches_session sha256_hex h (CloseSession token) = (sha256_hex token = h)"
| "touches_session sha256_hex h _ = False"

fun restarts_setup :: "operator_op \<Rightarrow> bool" where
  "restarts_setup (StartSetup secret) = True"
| "restarts_setup _ = False"

lemma consumed_step_upd [simp]:
  "consumed_step (\<lambda>t. (c t)(totpStepKey \<mapsto> Bytes (PutUint64 w))) = Some w"
  by (simp add: consumed_step_def)

lemma consumed_step_cong: "c' 0 totpStepKey = c 0 totpStepKey \<Longrightarrow> consumed_step c' = consumed_step c"
  by (simp add: consumed_step_def)

context serial_badger
begin

lemma ConsumeTOTPStep_others:
  assumes "ConsumeTOTPStep B now step s = (x, s')" and "timeless (look s)"
  shows "k \<noteq> totpStepKey \<Longrightarrow> look s' t k = look s t k" and "x \<noteq> Inr True \<Longrightarrow> look s' = look s"
proof -
  show same: "look s' = look s" if "x \<noteq> Inr True"
  proof (cases x)
    case (Inl e)
    with assms(1) show ?thesis unfolding ConsumeTOTPStep_def by (auto dest: Update_same)
  next
    case (Inr b)
    with that have "x = Inr False" by (cases b) auto
    with assms ConsumeTOTPStep_refuses(1) show ?thesis by blast
  qed
  show "look s' t k = look s t k" if "k \<noteq> totpStepKey"
    using same ConsumeTOTPStep_accepts(1) [of now step s s' t] assms that by (cases "x = Inr True") simp_all
qed

lemma ConsumeRecoveryCode_others:
  assumes "ConsumeRecoveryCode B sha256_hex now code s = (x, s')"
    and "k \<noteq> recoveryKey (sha256_hex (ToUpper (TrimSpace code)))"
  shows "look s' t k = look s t k"
proof -
  consider e where "x = Inl e" | "x = Inr True" | "x = Inr False" by (cases x) auto
  then show ?thesis
  proof cases
    case 1
    with assms(1) have "look s' = look s" unfolding ConsumeRecoveryCode_def Let_def by (auto dest: Update_same)
    then show ?thesis by simp
  next
    case 2
    with ConsumeRecoveryCode_accepts(2) [OF assms(1) [unfolded 2], of t] assms(2) show ?thesis by simp
  next
    case 3
    with ConsumeRecoveryCode_refuses(1) [OF assms(1) [unfolded 3]] show ?thesis by simp
  qed
qed

lemma SetPendingTOTP_others:
  assumes "SetPendingTOTP B secret s = (x, s')" and "k \<noteq> totpStepKey" "k \<noteq> pendingTOTPKey"
  shows "look s' t k = look s t k"
proof (cases x)
  case (Inl e)
  with assms(1) have "look s' = look s" unfolding SetPendingTOTP_def by (auto dest: Update_same)
  then show ?thesis by simp
next
  case (Inr u)
  then show ?thesis using SetPendingTOTP_look [OF assms(1) [unfolded Inr], of t] assms(2,3) by simp
qed

lemma exec_consumed_step:
  assumes t: "timeless (look s)" and r: "ready (look s)" and ex: "operator_exec B sha256_hex p s = (ok, s')"
    and p: "\<not> restarts_setup p"
  shows "case used_step p of step # _ \<Rightarrow>
      if ok then consumed_step (look s') = Some step \<and> (\<forall>q. consumed_step (look s) = Some q \<longrightarrow> q < step)
      else consumed_step (look s') = consumed_step (look s)
    | [] \<Rightarrow> consumed_step (look s') = consumed_step (look s)"
proof (cases p)
  case (UseStep now step)
  then obtain x where x: "ConsumeTOTPStep B now step s = (x, s')" and ok: "ok = (x = Inr True)"
    using ex by (auto split: prod.splits)
  show ?thesis
  proof (cases "x = Inr True")
    case True
    with ConsumeTOTPStep_accepts [OF x [unfolded True] t] ok UseStep show ?thesis
      by (simp add: consumed_step_def)
  next
    case False
    with ConsumeTOTPStep_others(2) [OF x t] ok UseStep show ?thesis by simp
  qed
next
  case (FinishSetup now secret step hashes token ttl)
  with ex show ?thesis using CompleteOperator_again [OF t r] by simp
qed (use ex p in \<open>auto intro!: consumed_step_cong dest: ConsumeRecoveryCode_others [of _ _ _ _ _ _ totpStepKey 0]
      CreateSession_others [of _ _ _ _ _ _ _ totpStepKey 0] DeleteSession_others [of _ _ _ _ _ totpStepKey 0]
      split: prod.splits\<close>)

lemma run_steps_increase:
  assumes "timeless (look s)" and "ready (look s)" and "\<forall>p\<in>set ops. \<not> restarts_setup p"
    and "operator_run B sha256_hex ops s = (acc, s')"
  shows "sorted_wrt (<) (used_steps acc) \<and> (\<forall>q. consumed_step (look s) = Some q \<longrightarrow> (\<forall>p\<in>set (used_steps acc). q < p))"
  using assms
proof (induction ops arbitrary: s acc)
  case Nil
  then show ?case by (simp add: used_steps_def)
next
  case (Cons p ops)
  obtain ok s1 where p: "operator_exec B sha256_hex p s = (ok, s1)" by fastforce
  obtain acc' s2 where rest: "operator_run B sha256_hex ops s1 = (acc', s2)" by fastforce
  have "credentials_shrink (look s) (look s1)" using Cons.prems p by (intro operator_exec_shrinks)
  then have "timeless (look s1)" "ready (look s1)" by (simp_all add: credentials_shrink_def)
  with Cons.IH [of s1 acc'] Cons.prems rest p
  have IH: "sorted_wrt (<) (used_steps acc')"
    "\<And>q p. consumed_step (look s1) = Some q \<Longrightarrow> p \<in> set (used_steps acc') \<Longrightarrow> q < p"
    by (auto split: if_splits)
  have acc: "acc = (if ok then p # acc' else acc')"
    using Cons.prems(4) p rest by (auto split: if_splits)
  have one: "case used_step p of step # _ \<Rightarrow>
      if ok then consumed_step (look s1) = Some step \<and> (\<forall>q. consumed_step (look s) = Some q \<longrightarrow> q < step)
      else consumed_step (look s1) = consumed_step (look s)
    | [] \<Rightarrow> consumed_step (look s1) = consumed_step (look s)"
    using Cons.prems p by (intro exec_consumed_step) auto
  show ?case
  proof (cases "ok \<and> used_step p \<noteq> []")
    case True
    then obtain now step where "p = UseStep now step" by (cases p) auto
    with True one IH acc show ?thesis
      by (auto simp: used_steps_def) (meson order.strict_trans)+
  next
    case False
    then have "used_steps acc = used_steps acc'" using acc by (auto simp: used_steps_def)
    moreover have "consumed_step (look s1) = consumed_step (look s)"
      using False one by (auto split: list.splits if_splits)
    ultimately show ?thesis using IH by simp
  qed
qed

lemma exec_keeps_session:
  assumes t: "timeless (look s)" and r: "ready (look s)" and ex: "operator_exec B sha256_hex p s = (ok, s')"
    and p: "\<not> touches_session sha256_hex h p"
  shows "look s' t (sessionKey h) = look s t (sessionKey h)"
proof (cases p)
  case (UseStep now step)
  then show ?thesis using ex ConsumeTOTPStep_others(1) [OF _ assms(1)] by (auto split: prod.splits)
next
  case (FinishSetup now secret step hashes token ttl)
  with ex show ?thesis using CompleteOperator_again [OF assms(1,2)] by simp
qed (use ex p in \<open>auto dest: ConsumeRecoveryCode_others [of _ _ _ _ _ _ "sessionKey h" t]
      CreateSession_others [of _ _ _ _ _ _ _ "sessionKey h" t] DeleteSession_others [of _ _ _ _ _ "sessionKey h" t]
      SetPendingTOTP_others [of _ _ _ _ "sessionKey h" t] split: prod.splits\<close>)

lemma run_keeps_session:
  assumes "timeless (look s)" and "ready (look s)" and "\<forall>p\<in>set ops. \<not> touches_session sha256_hex h p"
    and "operator_run B sha256_hex ops s = (acc, s')"
  shows "look s' t (sessionKey h) = look s t (sessionKey h)"
  using assms
proof (induction ops arbitrary: s acc)
  case Nil
  then show ?case by simp
next
  case (Cons p ops)
  obtain ok s1 where p: "operator_exec B sha256_hex p s = (ok, s1)" by fastforce
  obtain acc' s2 where rest: "operator_run B sha256_hex ops s1 = (acc', s2)" by fastforce
  have "credentials_shrink (look s) (look s1)" using Cons.prems p by (intro operator_exec_shrinks)
  then have "timeless (look s1)" "ready (look s1)" by (simp_all add: credentials_shrink_def)
  with Cons.IH [of s1 acc'] Cons.prems rest p have "look s' t (sessionKey h) = look s1 t (sessionKey h)"
    by (auto split: if_splits)
  with exec_keeps_session [OF Cons.prems(1,2) p] Cons.prems(3) show ?case by simp
qed

end

context serial_badger
begin

lemma recovery_used_up:
  assumes t: "timeless (look s)" and r: "ready (look s)"
    and use: "ConsumeRecoveryCode B sha256_hex now code s = (Inr True, s1)"
    and run: "operator_run B sha256_hex ops s1 = (acc, s2)"
    and same: "ToUpper (TrimSpace code') = ToUpper (TrimSpace code)"
  shows "fst (ConsumeRecoveryCode B sha256_hex later code' s2) \<noteq> Inr True"
proof
  let ?k = "recoveryKey (sha256_hex (ToUpper (TrimSpace code)))"
  assume "fst (ConsumeRecoveryCode B sha256_hex later code' s2) = Inr True"
  then have found: "look s2 later ?k \<noteq> None"
    using ConsumeRecoveryCode_accepts(1) [of sha256_hex later code' s2 "snd (ConsumeRecoveryCode B sha256_hex later code' s2)"] same
    by (simp add: prod_eq_iff)
  have one: "credentials_shrink (look s) (look s1)" using t r use by (rule ConsumeRecoveryCode_shrinks)
  then have "credentials_shrink (look s1) (look s2)"
    using run by (intro operator_run_shrinks) (simp_all add: credentials_shrink_def)
  moreover have "look s1 0 ?k = None" using ConsumeRecoveryCode_accepts(2) [OF use, of 0] by simp
  ultimately have "look s2 0 ?k = None" and "timeless (look s2)" by (simp_all add: credentials_shrink_def)
  with found timelessD [of "look s2" ?k later] show False by simp
qed

lemma setup_stays_done:
  assumes "timeless (look s)" and "ready (look s)" and "operator_run B sha256_hex ops s = (acc, s')"
  shows "OperatorReady B later s' = Inr True"
    and "CompleteOperator B sha256_hex later secret step hashes token ttl s' = (Inl ErrAlreadyConfigured, s')"
    and "look s' 0 totpSecretKey = look s 0 totpSecretKey"
  using operator_run_shrinks [OF assms] CompleteOperator_again [of s'] OperatorReady_look [of s']
  by (simp_all add: credentials_shrink_def)

lemma session_lifetime:
  assumes t: "timeless (look s)" and r: "ready (look s)" and token: "token \<noteq> []"
    and new: "CreateSession B sha256_hex now token ttl s = (Inr u, s1)"
    and ops: "\<forall>p\<in>set ops. \<not> touches_session sha256_hex (sha256_hex token) p"
    and run: "operator_run B sha256_hex ops s1 = (acc, s2)"
  shows "later + second \<le> now + ttl \<Longrightarrow> SessionValid B sha256_hex later token s2 = Inr True"
    and "now + ttl \<le> later \<Longrightarrow> SessionValid B sha256_hex later token s2 = Inr False"
proof -
  have "credentials_shrink (look s) (look s1)"
    by (rule credentials_shrink_session [OF t r]) (rule CreateSession_others [OF new], auto)
  then have keep: "look s2 later (sessionKey (sha256_hex token)) = look s1 later (sessionKey (sha256_hex token))"
    using ops run by (intro run_keeps_session) (simp_all add: credentials_shrink_def)
  show "later + second \<le> now + ttl \<Longrightarrow> SessionValid B sha256_hex later token s2 = Inr True"
    using CreateSession_look(2) [OF new] by (simp add: SessionValid_look [OF token] keep)
  show "now + ttl \<le> later \<Longrightarrow> SessionValid B sha256_hex later token s2 = Inr False"
    using CreateSession_look(3) [OF new] by (simp add: SessionValid_look [OF token] keep)
qed

lemma session_closed:
  assumes t: "timeless (look s)" and r: "ready (look s)" and token: "token \<noteq> []"
    and del: "DeleteSession B sha256_hex token s = (Inr u, s1)"
    and ops: "\<forall>p\<in>set ops. \<not> touches_session sha256_hex (sha256_hex token) p"
    and run: "operator_run B sha256_hex ops s1 = (acc, s2)"
  shows "SessionValid B sha256_hex later token s2 = Inr False"
proof -
  have "credentials_shrink (look s) (look s1)"
    by (rule credentials_shrink_session [OF t r]) (rule DeleteSession_others [OF del], auto)
  then have keep: "look s2 later (sessionKey (sha256_hex token)) = look s1 later (sessionKey (sha256_hex token))"
    using ops run by (intro run_keeps_session) (simp_all add: credentials_shrink_def)
  show ?thesis
    using DeleteSession_look [OF del, of later] by (simp add: SessionValid_look [OF token] keep)
qed

end


section \<open>What the operator's credentials guarantee\<close>

text \<open>A configured host for the examples, with the identity in the place of SHA-256.\<close>

definition example_operator :: map_db where
  "example_operator = db_of
     [(operatorReadyKey, Bytes [CHR 0x01]), (totpSecretKey, Bytes ''SECRET''), (totpStepKey, Bytes (PutUint64 41)),
      (recoveryKey ''AB-CD'', Bytes [CHR 0x01])] 0"

lemma example_operator_ok [simp]:
  "timeless (map_look example_operator)" "ready (map_look example_operator)"
  by (simp_all add: example_operator_def ready_def)

lemmas operator_eval = example_operator_def Update_def map_badger_simps ConsumeTOTPStep_def ConsumeRecoveryCode_def
  CreateSession_def DeleteSession_def SessionHash_def stored_u64_def setUint64_def Let_def word_le_def

text \<open>
  C21.  A recovery code works once.  After it was accepted, whatever logins, sessions and setup
  attempts follow, the same code in any capitalisation and with any white space around it is not
  accepted again.
\<close>

theorem recovery_code_single_use:
  assumes "serial_badger B look rely" and "timeless (look s)" and "ready (look s)"
    and "ConsumeRecoveryCode B sha256_hex now code s = (Inr True, s1)"
    and "operator_run B sha256_hex ops s1 = (acc, s2)"
    and "ToUpper (TrimSpace code') = ToUpper (TrimSpace code)"
  shows "fst (ConsumeRecoveryCode B sha256_hex later code' s2) \<noteq> Inr True"
  using serial_badger.recovery_used_up [OF assms] .

theorem recovery_code_single_use_witness:
  "let s1 = snd (ConsumeRecoveryCode map_badger id 5 ''ab-cd'' example_operator) in
   fst (ConsumeRecoveryCode map_badger id 9 '' AB-cd '' s1) \<noteq> Inr True"
proof -
  have norm: "ToUpper (TrimSpace ''ab-cd'') = ''AB-CD''" "ToUpper (TrimSpace '' AB-cd '') = ''AB-CD''"
    by code_simp+
  have "ConsumeRecoveryCode map_badger id 5 ''ab-cd'' example_operator =
      (Inr True, snd (ConsumeRecoveryCode map_badger id 5 ''ab-cd'' example_operator))"
    by (simp add: operator_eval norm)
  from recovery_code_single_use [OF map_db.serial_badger_axioms example_operator_ok this, of "[]" "[]" _ "'' AB-cd ''" 9]
  show ?thesis by (simp add: Let_def norm)
qed

text \<open>
  C22.  A TOTP time step is accepted at most once and never after a later one: in any sequence of
  operations on a configured host that does not start a setup again, the accepted steps increase
  strictly and lie above the step consumed before.
\<close>

theorem totp_steps_strictly_increase:
  assumes "serial_badger B look rely" and "timeless (look s)" and "ready (look s)"
    and "\<forall>p\<in>set ops. \<not> restarts_setup p" and "operator_run B sha256_hex ops s = (acc, s')"
  shows "sorted_wrt (<) (used_steps acc) \<and>
    (\<forall>q. consumed_step (look s) = Some q \<longrightarrow> (\<forall>p\<in>set (used_steps acc). q < p))"
  using serial_badger.run_steps_increase [OF assms] .

theorem totp_steps_strictly_increase_witness:
  "let (acc, s') = operator_run map_badger id [UseStep 1 41, UseStep 2 42, UseStep 3 42, UseStep 4 43] example_operator in
   used_steps acc = [42, 43] \<and> sorted_wrt (<) (used_steps acc)"
proof -
  let ?r = "operator_run map_badger id [UseStep 1 41, UseStep 2 42, UseStep 3 42, UseStep 4 43] example_operator"
  have "used_steps (fst ?r) = [42, 43]"
    by (simp add: operator_eval used_steps_def)
  with totp_steps_strictly_increase [OF map_db.serial_badger_axioms example_operator_ok _ surjective_pairing,
      of "[UseStep 1 41, UseStep 2 42, UseStep 3 42, UseStep 4 43]" id]
  show ?thesis by (simp add: split_beta)
qed

text \<open>
  The setup happens once: on a configured host, after any sequence of operations, the operator
  is still ready, another \<open>CompleteOperator\<close> is refused without a write, and the TOTP secret is the
  one that was set.
\<close>

theorem setup_happens_once:
  assumes "serial_badger B look rely" and "timeless (look s)" and "ready (look s)"
    and "operator_run B sha256_hex ops s = (acc, s')"
  shows "OperatorReady B later s' = Inr True \<and>
    CompleteOperator B sha256_hex later secret step hashes token ttl s' = (Inl ErrAlreadyConfigured, s') \<and>
    look s' 0 totpSecretKey = look s 0 totpSecretKey"
  using serial_badger.setup_stays_done [OF assms] by blast

theorem setup_happens_once_witness:
  "fst (CompleteOperator map_badger id 9 ''EVIL'' 1 [] ''t'' 5
     (snd (operator_run map_badger id [UseStep 2 42, StartSetup ''EVIL''] example_operator))) = Inl ErrAlreadyConfigured"
  using setup_happens_once [OF map_db.serial_badger_axioms example_operator_ok surjective_pairing,
      of 9 id "[UseStep 2 42, StartSetup ''EVIL'']" "''EVIL''" 1 "[]" "''t''" 5]
  by simp

text \<open>
  The life of a session: the token is valid until its time to live has passed (up to the last
  second, which Badger's clock does not resolve) and invalid from then on, whatever other operations
  happen meanwhile.
\<close>

theorem session_expires:
  assumes "serial_badger B look rely" and "timeless (look s)" and "ready (look s)" and "token \<noteq> []"
    and "CreateSession B sha256_hex now token ttl s = (Inr u, s1)"
    and "\<forall>p\<in>set ops. \<not> touches_session sha256_hex (sha256_hex token) p"
    and "operator_run B sha256_hex ops s1 = (acc, s2)"
  shows "(later + second \<le> now + ttl \<longrightarrow> SessionValid B sha256_hex later token s2 = Inr True) \<and>
    (now + ttl \<le> later \<longrightarrow> SessionValid B sha256_hex later token s2 = Inr False)"
  using serial_badger.session_lifetime [OF assms] by blast

theorem session_expires_witness:
  "let s1 = snd (CreateSession map_badger id 0 ''t'' (12 * hour) example_operator);
       s2 = snd (operator_run map_badger id [CloseSession ''u'', UseStep 7 42] s1) in
   SessionValid map_badger id (11 * hour) ''t'' s2 = Inr True \<and>
   SessionValid map_badger id (12 * hour) ''t'' s2 = Inr False"
proof -
  have new: "CreateSession map_badger id 0 ''t'' (12 * hour) example_operator =
      (Inr (), snd (CreateSession map_badger id 0 ''t'' (12 * hour) example_operator))"
    by (simp add: operator_eval)
  note session_expires [OF map_db.serial_badger_axioms example_operator_ok _ new _ surjective_pairing,
      of "[CloseSession ''u'', UseStep 7 42]"]
  from this [of "11 * hour"] this [of "12 * hour"] show ?thesis by (simp add: Let_def)
qed

text \<open>
  Logging out ends a session for good: after \<open>DeleteSession\<close> the token is invalid at every
  instant, whatever other operations follow, as long as the same token is not issued again.
\<close>

theorem logout_ends_session:
  assumes "serial_badger B look rely" and "timeless (look s)" and "ready (look s)" and "token \<noteq> []"
    and "DeleteSession B sha256_hex token s = (Inr u, s1)"
    and "\<forall>p\<in>set ops. \<not> touches_session sha256_hex (sha256_hex token) p"
    and "operator_run B sha256_hex ops s1 = (acc, s2)"
  shows "SessionValid B sha256_hex later token s2 = Inr False"
  using serial_badger.session_closed [OF assms] .

theorem logout_ends_session_witness:
  "let s1 = snd (DeleteSession map_badger id ''t'' (snd (CreateSession map_badger id 0 ''t'' (12 * hour) example_operator))) in
   SessionValid map_badger id 5 ''t'' s1 = Inr False"
proof -
  let ?s = "snd (CreateSession map_badger id 0 ''t'' (12 * hour) example_operator)"
  have s: "?s = put (sessionKey ''t'') (Bytes [CHR 0x01], Some (12 * hour)) example_operator"
    by (simp add: operator_eval)
  have "timeless (map_look ?s)"
    unfolding s by (rule timeless_session [OF example_operator_ok(1)]) (auto simp: map_look_put)
  moreover have "ready (map_look ?s)"
    unfolding s using example_operator_ok(2) by (simp add: ready_def map_look_put)
  moreover have "DeleteSession map_badger id ''t'' ?s = (Inr (), snd (DeleteSession map_badger id ''t'' ?s))"
    by (simp add: operator_eval)
  ultimately show ?thesis
    using logout_ends_session [OF map_db.serial_badger_axioms, of ?s "''t''" id "()" _ "[]" "[]" _ 5]
    by (simp add: Let_def)
qed

end
