(* ===== verification/Os.thy ===== *)
theory Os
  imports Json
begin

text \<open>
  The parts of Go's \<open>path/filepath\<close>, \<open>os\<close>, \<open>crypto/rand\<close> and \<open>encoding/hex\<close> the sources use:
  lexical paths, a file system of named files whose operations may fail, a source of random bytes
  and hexadecimal text.
\<close>

section \<open>Paths\<close>

fun split_path :: "string \<Rightarrow> string list" where
  "split_path [] = [[]]"
| "split_path (c # cs) =
     (case split_path cs of
        w # ws \<Rightarrow> if c = CHR ''/'' then [] # w # ws else (c # w) # ws
      | [] \<Rightarrow> [[c]])"

text \<open>One element of a path after the elements kept so far (the last one first).\<close>

definition clean_step :: "bool \<Rightarrow> string list \<Rightarrow> string \<Rightarrow> string list" where
  "clean_step rooted kept w =
     (if w = [] \<or> w = ''.'' then kept
      else if w = ''..'' then
        (case kept of
           [] \<Rightarrow> if rooted then [] else [''..'']
         | k # ks \<Rightarrow> if k = ''..'' then ''..'' # kept else ks)
      else w # kept)"

fun join_path :: "string list \<Rightarrow> string" where
  "join_path [] = []"
| "join_path [w] = w"
| "join_path (w # ws) = w @ CHR ''/'' # join_path ws"

definition Clean :: "string \<Rightarrow> string" where
  "Clean p =
     (let rooted = (p \<noteq> [] \<and> hd p = CHR ''/'');
          out = join_path (rev (foldl (clean_step rooted) [] (split_path p)))
      in if rooted then CHR ''/'' # out else if out = [] then ''.'' else out)"

definition Join :: "string list \<Rightarrow> string" where
  "Join ws = (case filter (\<lambda>w. w \<noteq> []) ws of [] \<Rightarrow> [] | ws \<Rightarrow> Clean (join_path ws))"


section \<open>Files\<close>

datatype os_error = NotExist | OsFailure string

text \<open>
  \<open>failing\<close> names the paths every operation on fails, for want of permission or of space for example;
  \<open>torn\<close> is what a write that fails leaves at a path, \<open>None\<close> when it fails before it touches the file.
\<close>

record fs =
  files :: "string \<rightharpoonup> string"
  failing :: "string \<Rightarrow> bool"
  torn :: "string \<Rightarrow> string option"

definition ReadFile :: "fs \<Rightarrow> string \<Rightarrow> os_error + string" where
  "ReadFile f path = (if failing f path then Inl (OsFailure path)
     else case files f path of None \<Rightarrow> Inl NotExist | Some d \<Rightarrow> Inr d)"

definition WriteFile :: "fs \<Rightarrow> string \<Rightarrow> string \<Rightarrow> (os_error + unit) \<times> fs" where
  "WriteFile f path d =
     (if failing f path then (Inl (OsFailure path), case torn f path of None \<Rightarrow> f | Some t \<Rightarrow> f\<lparr>files := (files f)(path \<mapsto> t)\<rparr>)
      else (Inr (), f\<lparr>files := (files f)(path \<mapsto> d)\<rparr>))"

definition MkdirAll :: "fs \<Rightarrow> string \<Rightarrow> os_error + fs" where
  "MkdirAll f path = (if failing f path then Inl (OsFailure path) else Inr f)"

definition Remove_file :: "fs \<Rightarrow> string \<Rightarrow> os_error + fs" where
  "Remove_file f path = (if failing f path then Inl (OsFailure path)
     else case files f path of None \<Rightarrow> Inl NotExist | Some _ \<Rightarrow> Inr (f\<lparr>files := (files f)(path := None)\<rparr>))"


section \<open>Random bytes and hexadecimal text\<close>

text \<open>\<open>rand i n\<close> is what the \<open>i\<close>-th call of \<open>rand.Read\<close> puts in a buffer of \<open>n\<close> bytes, or its failure.\<close>

type_synonym random = "nat \<Rightarrow> nat \<Rightarrow> string option"

definition EncodeToString :: "string \<Rightarrow> string" where
  "EncodeToString d = concat (map (\<lambda>c. [hex_digit (of_char c div 16), hex_digit (of_char c mod 16)]) d)"

definition hex_chars :: string where
  "hex_chars = ''0123456789abcdef''"

lemma hex_digit_chars: "n < 16 \<Longrightarrow> hex_digit n \<in> set hex_chars"
proof -
  assume "n < 16"
  then have "n \<in> set [0..<16]" by simp
  moreover have "\<forall>n\<in>set [0..<16]. hex_digit n \<in> set hex_chars" by code_simp
  ultimately show ?thesis by blast
qed

lemma EncodeToString_chars: "set (EncodeToString d) \<subseteq> set hex_chars"
proof -
  have "of_char c div 16 < (16 :: nat)" for c :: char
    using nat_of_char_less_256 [of c] by (simp add: less_mult_imp_div_less)
  then show ?thesis
    by (auto simp: EncodeToString_def hex_digit_chars)
qed

text \<open>Hexadecimal text in upper case is its own upper case and has no white space to trim.\<close>

lemma hex_upper:
  assumes "c \<in> set (CHR ''-'' # hex_chars)"
  shows "upper_char (upper_char c) = upper_char c" and "\<not> is_space (upper_char c)"
proof -
  have "\<forall>c\<in>set (CHR ''-'' # hex_chars). upper_char (upper_char c) = upper_char c \<and> \<not> is_space (upper_char c)"
    by (simp add: hex_chars_def upper_char_def is_space_def Let_def)
  with assms show "upper_char (upper_char c) = upper_char c" "\<not> is_space (upper_char c)" by blast+
qed

lemma normal_code:
  assumes "set s \<subseteq> set (CHR ''-'' # hex_chars)"
  shows "ToUpper (TrimSpace (ToUpper s)) = ToUpper s"
proof -
  have *: "upper_char (upper_char c) = upper_char c" "\<not> is_space (upper_char c)" if "c \<in> set s" for c
    using assms that hex_upper by blast+
  have "TrimSpace (ToUpper s) = ToUpper s"
    using * by (simp add: TrimSpace_def ToUpper_def dropWhile_none)
  then show ?thesis using * by (simp add: ToUpper_def)
qed

end
