(* ===== verification/Auth.thy ===== *)
theory Auth
  imports Operator Os "HOL-Library.Signed_Division"
begin

text \<open>
  \<open>internal/auth/auth.go\<close>: the authentication service of the host.  The TOTP library
  (\<open>github.com/pquerna/otp\<close>) is a parameter: \<open>code_at\<close> is the six-digit code of a secret at a
  Unix time, or \<open>None\<close> when the library reports an error, and \<open>generated\<close> the secret and URL of a
  fresh key.  SHA-256 is a parameter as well.  The calls of \<open>rand.Read\<close> are numbered in the order
  they happen.  A call of \<open>time.Now\<close> gives \<open>now\<close>.
\<close>

section \<open>The service\<close>

definition SessionTTL :: duration where
  "SessionTTL = 12 * hour"

datatype auth_error =
    ErrInvalidCode
  | AuthStore store_error
  | AuthOs string os_error
  | AuthRandom
  | AuthTOTP

record Service =
  setupTokenPath :: string
  setupToken :: string

definition randomHex :: "random \<Rightarrow> nat \<Rightarrow> nat \<Rightarrow> auth_error + string" where
  "randomHex rand i bytes = (case rand i bytes of None \<Rightarrow> Inl AuthRandom | Some d \<Rightarrow> Inr (EncodeToString d))"

definition setupToken_fn ::
    "random \<Rightarrow> string \<Rightarrow> string \<Rightarrow> fs \<Rightarrow> (auth_error + string \<times> string \<times> bool) \<times> fs" where
  "setupToken_fn rand dataDir configured f =
     (if configured \<noteq> [] then (Inr (configured, [], False), f)
      else let path = Join [dataDir, ''setup.token''] in
        case ReadFile f path of
          Inr d \<Rightarrow> (Inr (TrimSpace d, path, False), f)
        | Inl (OsFailure m) \<Rightarrow> (Inl (AuthOs ''read setup token'' (OsFailure m)), f)
        | Inl NotExist \<Rightarrow> (case MkdirAll f dataDir of
              Inl e \<Rightarrow> (Inl (AuthOs [] e), f)
            | Inr f \<Rightarrow> (case randomHex rand 0 24 of
                  Inl e \<Rightarrow> (Inl e, f)
                | Inr token \<Rightarrow> (case WriteFile f path (token @ [CHR 0x0A]) of
                      (Inl e, f) \<Rightarrow> (Inl (AuthOs ''write setup token'' e), f)
                    | (Inr _, f) \<Rightarrow> (Inr (token, path, True), f)))))"

text \<open>The returned flag says whether a setup token was generated.\<close>

definition New ::
    "'db badger \<Rightarrow> random \<Rightarrow> instant \<Rightarrow> string \<Rightarrow> string \<Rightarrow> 'db \<Rightarrow> fs \<Rightarrow> (auth_error + Service \<times> bool) \<times> fs" where
  "New B rand now dataDir configuredToken s f = (case OperatorReady B now s of
       Inl e \<Rightarrow> (Inl (AuthStore e), f)
     | Inr True \<Rightarrow> (Inr (\<lparr>setupTokenPath = [], setupToken = []\<rparr>, False), f)
     | Inr False \<Rightarrow> (case setupToken_fn rand dataDir configuredToken f of
           (Inl e, f) \<Rightarrow> (Inl e, f)
         | (Inr (token, tokenPath, gen), f) \<Rightarrow> (Inr (\<lparr>setupTokenPath = tokenPath, setupToken = token\<rparr>, gen), f)))"

definition CheckSetupToken :: "Service \<Rightarrow> string \<Rightarrow> bool" where
  "CheckSetupToken svc candidate \<longleftrightarrow> setupToken svc \<noteq> [] \<and> candidate = setupToken svc"

definition BeginSetup ::
    "'db badger \<Rightarrow> (string \<times> string) option \<Rightarrow> 'db \<Rightarrow> (auth_error + string \<times> string) \<times> 'db" where
  "BeginSetup B generated s = (case generated of
       None \<Rightarrow> (Inl AuthTOTP, s)
     | Some (secret, url) \<Rightarrow> (case SetPendingTOTP B secret s of
           (Inl e, s) \<Rightarrow> (Inl (AuthStore e), s)
         | (Inr _, s) \<Rightarrow> (Inr (secret, url), s)))"

text \<open>The loop over the offsets 0, 1, -1; \<open>time.Unix(step*30, 0)\<close> is the Unix time \<open>step * 30\<close>.\<close>

fun match_offsets :: "(string \<Rightarrow> int \<Rightarrow> string option) \<Rightarrow> string \<Rightarrow> string \<Rightarrow> int \<Rightarrow> int list \<Rightarrow> u64 \<times> bool" where
  "match_offsets code_at secret code current [] = (0, False)"
| "match_offsets code_at secret code current (offset # offsets) =
     (let step = current + offset in
      if step < 0 then match_offsets code_at secret code current offsets
      else case code_at secret (step * 30) of
          None \<Rightarrow> (0, False)
        | Some candidate \<Rightarrow>
            if candidate = TrimSpace code then (of_int step, True)
            else match_offsets code_at secret code current offsets)"

definition MatchTOTPStep ::
    "(string \<Rightarrow> int \<Rightarrow> string option) \<Rightarrow> string \<Rightarrow> string \<Rightarrow> instant \<Rightarrow> u64 \<times> bool" where
  "MatchTOTPStep code_at secret code now = match_offsets code_at secret code (Unix now sdiv 30) [0, 1, -1]"

definition ValidateTOTP :: "(string \<Rightarrow> int \<Rightarrow> string option) \<Rightarrow> string \<Rightarrow> string \<Rightarrow> instant \<Rightarrow> bool" where
  "ValidateTOTP code_at secret code now = snd (MatchTOTPStep code_at secret code now)"

text \<open>The ten recovery codes: code \<open>i\<close> takes the draws \<open>2 * i\<close> and \<open>2 * i + 1\<close>.\<close>

fun recovery_codes :: "random \<Rightarrow> nat \<Rightarrow> nat \<Rightarrow> auth_error + string list" where
  "recovery_codes rand i 0 = Inr []"
| "recovery_codes rand i (Suc n) =
     bindE (randomHex rand (2 * i) 8) (\<lambda>partA.
     bindE (randomHex rand (2 * i + 1) 8) (\<lambda>partB.
     bindE (recovery_codes rand (Suc i) n) (\<lambda>codes.
     Inr (ToUpper (partA @ ''-'' @ partB) # codes))))"

definition CompleteSetup ::
    "'db badger \<Rightarrow> (string \<Rightarrow> string) \<Rightarrow> (string \<Rightarrow> int \<Rightarrow> string option) \<Rightarrow> random \<Rightarrow> instant \<Rightarrow> string \<Rightarrow>
     Service \<Rightarrow> 'db \<Rightarrow> fs \<Rightarrow> (auth_error + string list \<times> string) \<times> Service \<times> 'db \<times> fs" where
  "CompleteSetup B sha256_hex code_at rand now code svc s f = (case PendingTOTP B now s of
       Inl e \<Rightarrow> (Inl (AuthStore e), svc, s, f)
     | Inr secret \<Rightarrow> (case MatchTOTPStep code_at secret code now of (step, valid) \<Rightarrow>
         if \<not> valid then (Inl ErrInvalidCode, svc, s, f)
         else case recovery_codes rand 0 10 of
             Inl e \<Rightarrow> (Inl e, svc, s, f)
           | Inr codes \<Rightarrow> (case randomHex rand 20 32 of
                 Inl e \<Rightarrow> (Inl e, svc, s, f)
               | Inr session \<Rightarrow>
                   (case CompleteOperator B sha256_hex now secret step (map sha256_hex codes) session SessionTTL s of
                      (Inl e, s) \<Rightarrow> (Inl (AuthStore e), svc, s, f)
                    | (Inr _, s) \<Rightarrow>
                        (Inr (codes, session), svc\<lparr>setupToken := [], setupTokenPath := []\<rparr>, s,
                         (if setupTokenPath svc \<noteq> []
                          then case Remove_file f (setupTokenPath svc) of Inl _ \<Rightarrow> f | Inr f \<Rightarrow> f else f))))))"

definition NewSession ::
    "'db badger \<Rightarrow> (string \<Rightarrow> string) \<Rightarrow> random \<Rightarrow> instant \<Rightarrow> 'db \<Rightarrow> (auth_error + string) \<times> 'db" where
  "NewSession B sha256_hex rand now s = (case randomHex rand 0 32 of
       Inl e \<Rightarrow> (Inl e, s)
     | Inr token \<Rightarrow> (case CreateSession B sha256_hex now token SessionTTL s of
           (Inl e, s) \<Rightarrow> (Inl (AuthStore e), s)
         | (Inr _, s) \<Rightarrow> (Inr token, s)))"

text \<open>The second factor of a login: a TOTP step not used before, or else a recovery code.\<close>

definition login_valid ::
    "'db badger \<Rightarrow> (string \<Rightarrow> string) \<Rightarrow> (string \<Rightarrow> int \<Rightarrow> string option) \<Rightarrow> instant \<Rightarrow> string \<Rightarrow> 'db \<Rightarrow>
     (auth_error + bool) \<times> 'db" where
  "login_valid B sha256_hex code_at now code s = (case TOTPSecret B now s of
       Inl e \<Rightarrow> (Inl (AuthStore e), s)
     | Inr secret \<Rightarrow>
         (case (case MatchTOTPStep code_at secret code now of (step, valid) \<Rightarrow>
                  if valid then ConsumeTOTPStep B now step s else (Inr False, s)) of
            (Inl e, s) \<Rightarrow> (Inl (AuthStore e), s)
          | (Inr True, s) \<Rightarrow> (Inr True, s)
          | (Inr False, s) \<Rightarrow> (case ConsumeRecoveryCode B sha256_hex now code s of
                (Inl e, s) \<Rightarrow> (Inl (AuthStore e), s)
              | (Inr valid, s) \<Rightarrow> (Inr valid, s))))"

definition Login ::
    "'db badger \<Rightarrow> (string \<Rightarrow> string) \<Rightarrow> (string \<Rightarrow> int \<Rightarrow> string option) \<Rightarrow> random \<Rightarrow> instant \<Rightarrow> string \<Rightarrow> 'db \<Rightarrow>
     (auth_error + string) \<times> 'db" where
  "Login B sha256_hex code_at rand now code s = (case login_valid B sha256_hex code_at now code s of
       (Inl e, s) \<Rightarrow> (Inl e, s)
     | (Inr valid, s) \<Rightarrow> if \<not> valid then (Inl ErrInvalidCode, s) else NewSession B sha256_hex rand now s)"


section \<open>Matching a code\<close>

lemma match_offsets_sound:
  "match_offsets code_at secret code current offsets = (step, True) \<Longrightarrow>
   \<exists>offset\<in>set offsets. 0 \<le> current + offset \<and> step = of_int (current + offset) \<and>
     code_at secret ((current + offset) * 30) = Some (TrimSpace code)"
  by (induction offsets) (auto simp: Let_def split: if_splits option.splits)

lemma match_offsets_complete:
  assumes "offset \<in> set offsets" and "0 \<le> current + offset"
    and "code_at secret ((current + offset) * 30) = Some (TrimSpace code)"
    and "\<forall>d\<in>set offsets. 0 \<le> current + d \<longrightarrow> code_at secret ((current + d) * 30) \<noteq> None"
  shows "snd (match_offsets code_at secret code current offsets)"
  using assms by (induction offsets) (auto simp: Let_def split: option.splits)

text \<open>
  \<open>MatchTOTPStep\<close> accepts exactly the codes of the current 30-second step and of its two
  neighbours, surrounding white space aside, and reports the step the code belongs to.
\<close>

theorem match_totp_step_correct:
  assumes "0 < Unix now" and "\<forall>d\<in>{-1, 0, 1}. code_at secret ((Unix now div 30 + d) * 30) \<noteq> None"
    and "MatchTOTPStep code_at secret code now = (step, valid)"
  shows "(valid \<longrightarrow> (\<exists>d\<in>{-1, 0, 1}. step = of_int (Unix now div 30 + d) \<and>
      code_at secret ((Unix now div 30 + d) * 30) = Some (TrimSpace code))) \<and>
    (\<not> valid \<longrightarrow> (\<forall>d\<in>{-1, 0, 1}. 0 \<le> Unix now div 30 + d \<longrightarrow>
      code_at secret ((Unix now div 30 + d) * 30) \<noteq> Some (TrimSpace code)))"
proof -
  have cur: "Unix now sdiv 30 = Unix now div 30"
    using assms(1) by (simp add: signed_divide_int_def)
  note m = assms(3) [unfolded MatchTOTPStep_def cur]
  show ?thesis
  proof (cases valid)
    case True
    with m match_offsets_sound [of code_at secret code "Unix now div 30" "[0, 1, -1]" step] show ?thesis by auto
  next
    case False
    with m have "\<not> snd (match_offsets code_at secret code (Unix now div 30) [0, 1, -1])" by simp
    then have "code_at secret ((Unix now div 30 + d) * 30) \<noteq> Some (TrimSpace code)"
      if "d \<in> {-1, 0, 1}" "0 \<le> Unix now div 30 + d" for d
      using that assms(2) match_offsets_complete [of d "[0, 1, -1]" "Unix now div 30" code_at secret code] by auto
    with False show ?thesis by blast
  qed
qed

text \<open>A TOTP library for the examples: the code of a step is its number.\<close>

definition example_code_at :: "string \<Rightarrow> int \<Rightarrow> string option" where
  "example_code_at secret t = Some (show_nat (nat (t div 30)))"

text \<open>42 * 30 seconds after the epoch, in step 42.\<close>

definition example_now :: instant where
  "example_now = (62135596800 + 42 * 30) * second"

lemma Unix_example_now [simp]: "Unix example_now = 42 * 30"
  by (simp add: Unix_def example_now_def)

lemma show_nat_example [simp]: "show_nat 41 = ''41''" "show_nat 42 = ''42''" "show_nat 43 = ''43''"
  by (simp_all add: show_nat.simps digit_chars [unfolded One_nat_def])

lemma TrimSpace_example [simp]: "TrimSpace '' 43'' = ''43''"
  by (simp add: TrimSpace_def is_space_def)

theorem match_totp_step_correct_witness:
  "MatchTOTPStep example_code_at ''S'' '' 43'' example_now = (43, True) \<and>
   (\<exists>d\<in>{-1, 0, 1 :: int}. (43 :: u64) = of_int (42 + d))"
proof -
  have m: "MatchTOTPStep example_code_at ''S'' '' 43'' example_now = (43, True)"
    by (simp add: MatchTOTPStep_def example_code_at_def signed_divide_int_def)
  moreover have "\<forall>d\<in>{-1, 0, 1}. example_code_at ''S'' ((Unix example_now div 30 + d) * 30) \<noteq> None"
    by (simp add: example_code_at_def)
  ultimately show ?thesis
    using match_totp_step_correct [of example_now example_code_at "''S''" "'' 43''" 43 True] by auto
qed


section \<open>Logging in\<close>

definition rand_fills :: "random \<Rightarrow> bool" where
  "rand_fills rand \<longleftrightarrow> (\<forall>i n d. rand i n = Some d \<longrightarrow> length d = n)"

lemma randomHex_token:
  assumes "rand_fills rand" and "randomHex rand i n = Inr token"
  shows "length token = 2 * n" and "set token \<subseteq> set hex_chars"
proof -
  from assms(2) obtain d where d: "rand i n = Some d" "token = EncodeToString d"
    by (auto simp: randomHex_def split: option.splits)
  have "length (EncodeToString d) = 2 * length d"
    by (induction d) (simp_all add: EncodeToString_def)
  with d assms(1) show "length token = 2 * n" by (simp add: rand_fills_def)
  show "set token \<subseteq> set hex_chars" using EncodeToString_chars d by simp
qed

lemma login_valid_cases:
  assumes "login_valid B sha256_hex code_at now code s = (Inr True, s')"
  obtains (totp) secret step where "TOTPSecret B now s = Inr secret"
      and "MatchTOTPStep code_at secret code now = (step, True)" and "ConsumeTOTPStep B now step s = (Inr True, s')"
    | (recovery) s1 where "s1 = s \<or> (\<exists>step. ConsumeTOTPStep B now step s = (Inr False, s1))"
      and "ConsumeRecoveryCode B sha256_hex now code s1 = (Inr True, s')"
proof (cases "TOTPSecret B now s")
  case (Inl e)
  with assms show ?thesis by (simp add: login_valid_def)
next
  case (Inr secret)
  obtain step valid where m: "MatchTOTPStep code_at secret code now = (step, valid)" by fastforce
  obtain r s1 where first: "(if valid then ConsumeTOTPStep B now step s else (Inr False, s)) = (r, s1)" by fastforce
  show ?thesis
  proof (cases "r = Inr True")
    case True
    with assms Inr m first have "valid" "ConsumeTOTPStep B now step s = (Inr True, s')"
      by (auto simp: login_valid_def split: if_splits)
    with Inr m show ?thesis by (intro totp) simp_all
  next
    case False
    with assms Inr m first have "r = Inr False" and use: "ConsumeRecoveryCode B sha256_hex now code s1 = (Inr True, s')"
      by (auto simp: login_valid_def split: sum.splits prod.splits bool.splits if_splits)
    with first have "s1 = s \<or> (\<exists>step. ConsumeTOTPStep B now step s = (Inr False, s1))"
      by (auto split: if_splits)
    with use recovery show ?thesis by blast
  qed
qed

lemma Login_cases:
  assumes "Login B sha256_hex code_at rand now code s = (Inr token, s')"
  obtains s1 where "login_valid B sha256_hex code_at now code s = (Inr True, s1)"
    and "randomHex rand 0 32 = Inr token" and "CreateSession B sha256_hex now token SessionTTL s1 = (Inr (), s')"
  using assms by (auto simp: Login_def NewSession_def split: prod.splits sum.splits if_splits)

context serial_badger
begin

lemma run_step_lower:
  assumes "timeless (look s)" and "ready (look s)" and "\<forall>p\<in>set ops. \<not> restarts_setup p"
    and "operator_run B sha256_hex ops s = (acc, s')" and "consumed_step (look s) = Some q"
  shows "\<exists>q'. consumed_step (look s') = Some q' \<and> q \<le> q'"
  using assms
proof (induction ops arbitrary: s acc q)
  case Nil
  then show ?case by simp
next
  case (Cons p ops)
  obtain ok s1 where p: "operator_exec B sha256_hex p s = (ok, s1)" by fastforce
  obtain acc' s2 where "operator_run B sha256_hex ops s1 = (acc', s2)" by fastforce
  with Cons.prems p have rest: "operator_run B sha256_hex ops s1 = (acc', s')" by (auto split: if_splits)
  have "credentials_shrink (look s) (look s1)" using Cons.prems p by (intro operator_exec_shrinks)
  then have "timeless (look s1)" "ready (look s1)" by (simp_all add: credentials_shrink_def)
  moreover obtain q1 where "consumed_step (look s1) = Some q1" "q \<le> q1"
    using exec_consumed_step [OF Cons.prems(1,2) p] Cons.prems(3,5)
    by (fastforce split: list.splits if_splits)
  ultimately show ?case
    using Cons.IH [of s1 acc' q1] Cons.prems(3) rest by (meson list.set_intros(2) order_trans)
qed

text \<open>What a login that succeeds did: it used up a credential and opened a session.\<close>

lemma Login_sound:
  assumes t: "timeless (look s)" and r: "ready (look s)"
    and login: "Login B sha256_hex code_at rand now code s = (Inr token, s')"
  shows "credentials_shrink (look s) (look s')"
    and "(\<exists>secret step. TOTPSecret B now s = Inr secret \<and> MatchTOTPStep code_at secret code now = (step, True) \<and>
        (\<forall>q. consumed_step (look s) = Some q \<longrightarrow> q < step) \<and> consumed_step (look s') = Some step) \<or>
      look s 0 (recoveryKey (sha256_hex (ToUpper (TrimSpace code)))) \<noteq> None \<and>
      look s' 0 (recoveryKey (sha256_hex (ToUpper (TrimSpace code)))) = None"
    and "token \<noteq> [] \<Longrightarrow> later + second \<le> now + SessionTTL \<Longrightarrow> SessionValid B sha256_hex later token s' = Inr True"
proof -
  let ?k = "recoveryKey (sha256_hex (ToUpper (TrimSpace code)))"
  from login obtain s1 where valid: "login_valid B sha256_hex code_at now code s = (Inr True, s1)"
    and new: "CreateSession B sha256_hex now token SessionTTL s1 = (Inr (), s')"
    by (rule Login_cases)
  have keep: "look s' t k = look s1 t k" if "\<not> prefix sessionPrefix k" for t k
    by (rule CreateSession_others [OF new]) (use that in auto)
  have "credentials_shrink (look s) (look s1) \<and>
    ((\<exists>secret step. TOTPSecret B now s = Inr secret \<and> MatchTOTPStep code_at secret code now = (step, True) \<and>
        (\<forall>q. consumed_step (look s) = Some q \<longrightarrow> q < step) \<and> consumed_step (look s1) = Some step) \<or>
      look s 0 ?k \<noteq> None \<and> look s1 0 ?k = None)"
    using valid
  proof (cases rule: login_valid_cases)
    case (totp secret step)
    then show ?thesis
      using ConsumeTOTPStep_shrinks [OF t r totp(3)] ConsumeTOTPStep_accepts [OF totp(3) t]
      by (auto simp: consumed_step_def)
  next
    case (recovery s0)
    then have same: "look s0 = look s" using ConsumeTOTPStep_refuses(1) [OF _ t] by blast
    have "look s0 now ?k \<noteq> None" "look s1 0 ?k = None"
      using ConsumeRecoveryCode_accepts [OF recovery(2)] by simp_all
    then show ?thesis
      using ConsumeRecoveryCode_shrinks [OF _ _ recovery(2)] t r same timelessD [OF t, of ?k now] by simp
  qed
  then show "credentials_shrink (look s) (look s')"
    and "(\<exists>secret step. TOTPSecret B now s = Inr secret \<and> MatchTOTPStep code_at secret code now = (step, True) \<and>
        (\<forall>q. consumed_step (look s) = Some q \<longrightarrow> q < step) \<and> consumed_step (look s') = Some step) \<or>
      look s 0 ?k \<noteq> None \<and> look s' 0 ?k = None"
    using credentials_shrink_trans [OF _ credentials_shrink_session [OF _ _ keep]]
    by (auto simp: credentials_shrink_def consumed_step_def keep)
  show "token \<noteq> [] \<Longrightarrow> later + second \<le> now + SessionTTL \<Longrightarrow> SessionValid B sha256_hex later token s' = Inr True"
    using CreateSession_look(2) [OF new] by (simp add: SessionValid_look)
qed

end

text \<open>A step that is matched is one of the three around the time; without a match it is 0.\<close>

lemma MatchTOTPStep_bound:
  assumes m: "MatchTOTPStep code_at secret code later = (step', valid)"
    and "\<forall>d\<in>{0, 1, - 1}. uint step < Unix later sdiv 30 + d \<longrightarrow> code_at secret ((Unix later sdiv 30 + d) * 30) \<noteq> Some (TrimSpace code)"
  shows "step' \<le> step"
proof (cases valid)
  case True
  with m have "match_offsets code_at secret code (Unix later sdiv 30) [0, 1, - 1] = (step', True)" by (simp add: MatchTOTPStep_def)
  from match_offsets_sound [OF this] obtain d where
    d: "d \<in> {0, 1, - 1}" "0 \<le> Unix later sdiv 30 + d" "step' = of_int (Unix later sdiv 30 + d)"
      "code_at secret ((Unix later sdiv 30 + d) * 30) = Some (TrimSpace code)"
    unfolding list.set by blast
  with assms(2) have "Unix later sdiv 30 + d \<le> uint step" by force
  moreover have "uint (word_of_int n :: u64) \<le> n" if "0 \<le> n" for n
    using that by (simp add: uint_word_of_int_eq take_bit_int_less_eq_self_iff)
  ultimately show ?thesis using d(2) unfolding d(3) word_le_def by (meson order_trans)
next
  case False
  have none: "\<not> snd (match_offsets code_at secret code n os) \<Longrightarrow> fst (match_offsets code_at secret code n os) = 0" for n os
    by (induction os) (auto simp: Let_def split: if_splits option.splits)
  have "step' = 0" using none [of "Unix later sdiv 30" "[0, 1, -1]"] False m [unfolded MatchTOTPStep_def] by (metis fst_conv snd_conv)
  then show ?thesis by simp
qed

context serial_badger
begin

lemma TOTPSecret_kept:
  assumes "credentials_shrink (look s) (look s')" and t: "timeless (look s)"
    and "TOTPSecret B now s = Inr secret" and "TOTPSecret B later s' = Inr secret'"
  shows "secret' = secret"
proof -
  have read: "look x u totpSecretKey = Some (Bytes d)" if "TOTPSecret B u x = Inr d" for x u d
  proof -
    from that obtain v where v: "get_found B u x totpSecretKey = Inr v" "(case v of Bytes b \<Rightarrow> Inr b | Doc j \<Rightarrow> Inl (StoreFailure ''document under a byte key'')) = Inr d"
      by (auto simp: TOTPSecret_def getString_def bind_simps)
    then have "v = Bytes d" by (cases v) simp_all
    with v(1) show ?thesis by (auto simp: get_found_def ofB_eq_Inr intro: get_value split: sum.splits badger_error.splits)
  qed
  have "timeless (look s')" using assms(1) by (simp add: credentials_shrink_def)
  with t assms show ?thesis
    using read [OF assms(3)] read [OF assms(4)] timelessD [of "look s" totpSecretKey now] timelessD [of "look s'" totpSecretKey later]
    by (simp add: credentials_shrink_def)
qed

lemma Login_no_replay:
  assumes t: "timeless (look s)" and r: "ready (look s)" and c: "consumed_step (look s) = Some q"
    and secret: "TOTPSecret B later s2 = Inr secret"
    and ops: "\<forall>p\<in>set ops. \<not> restarts_setup p" and run: "operator_run B sha256_hex ops s = (acc, s2)"
    and m: "MatchTOTPStep code_at secret code later = (step, valid)" and "step \<le> q"
    and rec: "look s2 0 (recoveryKey (sha256_hex (ToUpper (TrimSpace code)))) = None"
  shows "isl (fst (Login B sha256_hex code_at rand later code s2))"
proof (rule ccontr)
  assume "\<not> isl (fst (Login B sha256_hex code_at rand later code s2))"
  then obtain token s3 where "Login B sha256_hex code_at rand later code s2 = (Inr token, s3)"
    by (metis obj_sumE isl_def prod.collapse)
  then obtain s1 where "login_valid B sha256_hex code_at later code s2 = (Inr True, s1)"
    by (rule Login_cases)
  moreover have "timeless (look s2)"
    using operator_run_shrinks [OF t r run] by (simp add: credentials_shrink_def)
  moreover obtain q' where "consumed_step (look s2) = Some q'" "q \<le> q'"
    using run_step_lower [OF t r ops run c] by blast
  ultimately show False
  proof (cases rule: login_valid_cases)
    case (totp secret' step')
    with secret m have "step' = step" by simp
    with ConsumeTOTPStep_accepts(2) [OF totp(3) \<open>timeless (look s2)\<close> \<open>consumed_step (look s2) = Some q'\<close>]
    show False using \<open>step \<le> q\<close> \<open>q \<le> q'\<close> by simp
  next
    case (recovery s0)
    then have "look s0 = look s2" using ConsumeTOTPStep_refuses(1) [OF _ \<open>timeless (look s2)\<close>] by blast
    moreover have "look s0 later (recoveryKey (sha256_hex (ToUpper (TrimSpace code)))) \<noteq> None"
      using ConsumeRecoveryCode_accepts(1) [OF recovery(2)] .
    ultimately show False
      using rec timelessD [OF \<open>timeless (look s2)\<close>, of "recoveryKey (sha256_hex (ToUpper (TrimSpace code)))" later] by simp
  qed
qed

end


section \<open>Setting up\<close>

lemma recovery_codes_shape:
  assumes "rand_fills rand" and "recovery_codes rand i n = Inr codes"
  shows "length codes = n \<and> (\<forall>code\<in>set codes. ToUpper (TrimSpace code) = code \<and> length code = 33)"
  using assms(2)
proof (induction n arbitrary: i codes)
  case 0
  then show ?case by simp
next
  case (Suc n)
  then obtain a b cs where a: "randomHex rand (2 * i) 8 = Inr a" and b: "randomHex rand (2 * i + 1) 8 = Inr b"
    and cs: "recovery_codes rand (Suc i) n = Inr cs" and codes: "codes = ToUpper (a @ ''-'' @ b) # cs"
    by (auto simp: bind_simps)
  have "set (a @ ''-'' @ b) \<subseteq> set (CHR ''-'' # hex_chars)"
    using randomHex_token(2) [OF assms(1) a] randomHex_token(2) [OF assms(1) b] by auto
  then have "ToUpper (TrimSpace (ToUpper (a @ ''-'' @ b))) = ToUpper (a @ ''-'' @ b)"
    by (rule normal_code)
  moreover have "length (ToUpper (a @ ''-'' @ b)) = 33"
    using randomHex_token(1) [OF assms(1) a] randomHex_token(1) [OF assms(1) b] by (simp add: ToUpper_def)
  ultimately show ?case
    using Suc.IH [OF cs] codes by simp
qed

lemma CompleteSetup_cases:
  assumes "CompleteSetup B sha256_hex code_at rand now code svc s f = (Inr (codes, session), svc', s', f')"
  obtains secret step where "PendingTOTP B now s = Inr secret"
    and "MatchTOTPStep code_at secret code now = (step, True)"
    and "recovery_codes rand 0 10 = Inr codes" and "randomHex rand 20 32 = Inr session"
    and "CompleteOperator B sha256_hex now secret step (map sha256_hex codes) session SessionTTL s = (Inr (), s')"
    and "svc' = svc\<lparr>setupToken := [], setupTokenPath := []\<rparr>"
  using assms by (auto simp: CompleteSetup_def split: sum.splits prod.splits if_splits)

context reliable_badger
begin

lemma ConsumeRecoveryCode_found:
  assumes "look s now (recoveryKey (sha256_hex (ToUpper (TrimSpace code)))) \<noteq> None"
  shows "fst (ConsumeRecoveryCode B sha256_hex now code s) \<in> {Inr True, Inl (StoreBadger ErrConflict)}"
proof -
  let ?k = "recoveryKey (sha256_hex (ToUpper (TrimSpace code)))"
  obtain v where "txn_get B s now ?k = Inr (Inr v)" using assms get_total [of s now ?k] by auto
  moreover obtain txn where "txn_delete B s ?k = Inr txn" using delete_total by blast
  ultimately show ?thesis
    using commit_total [of s txn]
    by (auto simp: ConsumeRecoveryCode_def Update_def Let_def split: prod.splits option.splits)
qed

lemma CompleteSetup_hands_over:
  assumes fills: "rand_fills rand"
    and compl: "CompleteSetup B sha256_hex code_at rand now code svc s f = (Inr (codes, session), svc', s', f')"
  shows "length codes = 10 \<and> (\<forall>c\<in>set codes. fst (ConsumeRecoveryCode B sha256_hex later c s') \<in>
      {Inr True, Inl (StoreBadger ErrConflict)})"
    and "\<not> CheckSetupToken svc' candidate"
    and "later + second \<le> now + SessionTTL \<Longrightarrow> SessionValid B sha256_hex later session s' = Inr True"
    and "PendingTOTP B now s = Inr secret \<Longrightarrow> TOTPSecret B later s' = Inr secret"
    and "\<exists>secret step. PendingTOTP B now s = Inr secret \<and> MatchTOTPStep code_at secret code now = (step, True) \<and>
      consumed_step (look s') = Some step"
proof -
  from compl obtain secret' step where pend: "PendingTOTP B now s = Inr secret'"
    and m: "MatchTOTPStep code_at secret' code now = (step, True)"
    and codes: "recovery_codes rand 0 10 = Inr codes" and session: "randomHex rand 20 32 = Inr session"
    and cop: "CompleteOperator B sha256_hex now secret' step (map sha256_hex codes) session SessionTTL s = (Inr (), s')"
    and svc': "svc' = svc\<lparr>setupToken := [], setupTokenPath := []\<rparr>"
    by (rule CompleteSetup_cases)
  note look' = CompleteOperator_look(2) [OF cop]
  show "length codes = 10 \<and> (\<forall>c\<in>set codes. fst (ConsumeRecoveryCode B sha256_hex later c s') \<in>
      {Inr True, Inl (StoreBadger ErrConflict)})"
    using recovery_codes_shape [OF fills codes] by (auto intro!: ConsumeRecoveryCode_found simp: look' simp del: insert_iff)
  show "\<not> CheckSetupToken svc' candidate"
    by (simp add: CheckSetupToken_def svc')
  have "session \<noteq> []" using randomHex_token(1) [OF fills session] by auto
  then show "later + second \<le> now + SessionTTL \<Longrightarrow> SessionValid B sha256_hex later session s' = Inr True"
    using CompleteOperator_look(3) [OF cop] by (simp add: SessionValid_look)
  show "TOTPSecret B later s' = Inr secret" if "PendingTOTP B now s = Inr secret"
  proof -
    have "look s' later totpSecretKey = Some (Bytes secret')" by (auto simp: look')
    then show ?thesis
      using that pend by (simp add: TOTPSecret_def getString_def get_found_def get_total)
  qed
  show "\<exists>secret step. PendingTOTP B now s = Inr secret \<and> MatchTOTPStep code_at secret code now = (step, True) \<and>
      consumed_step (look s') = Some step"
    using pend m by (auto simp: consumed_step_def look')
qed

end


section \<open>What authentication guarantees\<close>

text \<open>A source of random bytes for the examples: the draw's number in every byte.\<close>

definition example_rand :: random where
  "example_rand i n = Some (replicate n (char_of i))"

lemma example_rand_fills [simp]: "rand_fills example_rand"
  by (auto simp: rand_fills_def example_rand_def)

lemmas login_eval = Login_def login_valid_def NewSession_def randomHex_def TOTPSecret_def getString_def get_found_def
  MatchTOTPStep_def example_code_at_def example_rand_def signed_divide_int_def

text \<open>
  A login succeeds only by using up a credential: the code belongs to a time step after every
  step used before, which is then used, or it is a recovery code that was unused and is then gone.
  The token returned is a session for twelve hours (up to the last second), and no other credential
  comes into being.
\<close>

theorem login_uses_up_credential:
  assumes "serial_badger B look rely" and "timeless (look s)" and "ready (look s)" and "rand_fills rand"
    and "Login B sha256_hex code_at rand now code s = (Inr token, s')"
  shows "((\<exists>secret step. TOTPSecret B now s = Inr secret \<and> MatchTOTPStep code_at secret code now = (step, True) \<and>
        (\<forall>q. consumed_step (look s) = Some q \<longrightarrow> q < step) \<and> consumed_step (look s') = Some step) \<or>
      look s 0 (recoveryKey (sha256_hex (ToUpper (TrimSpace code)))) \<noteq> None \<and>
      look s' 0 (recoveryKey (sha256_hex (ToUpper (TrimSpace code)))) = None) \<and>
    credentials_shrink (look s) (look s') \<and>
    (\<forall>later. later + second \<le> now + 12 * hour \<longrightarrow> SessionValid B sha256_hex later token s' = Inr True)"
proof -
  obtain s1 where "randomHex rand 0 32 = Inr token"
    using assms(5) by (rule Login_cases)
  with randomHex_token(1) [OF assms(4)] have "token \<noteq> []" by fastforce
  then show ?thesis
    using serial_badger.Login_sound [OF assms(1-3,5)] by (auto simp: SessionTTL_def)
qed

theorem login_uses_up_credential_witness:
  "let r = Login map_badger id example_code_at example_rand example_now ''42'' example_operator in
   \<exists>token. fst r = Inr token \<and> credentials_shrink (map_look example_operator) (map_look (snd r)) \<and>
     SessionValid map_badger id (example_now + 1) token (snd r) = Inr True"
proof -
  let ?r = "Login map_badger id example_code_at example_rand example_now ''42'' example_operator"
  have trim: "TrimSpace ''42'' = ''42''" by (simp add: TrimSpace_def is_space_def)
  obtain token where r: "?r = (Inr token, snd ?r)"
    by (simp add: login_eval operator_eval trim)
  show ?thesis
    using login_uses_up_credential [OF map_db.serial_badger_axioms example_operator_ok example_rand_fills r] r
    by (auto simp: Let_def prod_eq_iff)
qed

text \<open>
  C23.  A TOTP code cannot be replayed: once a login with a code has succeeded, then, whatever is done to
  the credentials in between short of starting a setup again, a later login with the same code fails, if
  the code is not a recovery code of the operator and none of the three steps around the later time that
  come after the one it was used for happens to have the same code.
\<close>

theorem totp_code_no_replay:
  assumes "serial_badger B look rely" and "timeless (look s)" and "ready (look s)"
    and "Login B sha256_hex code_at rand now code s = (Inr token, s1)"
    and "TOTPSecret B now s = Inr secret" and "MatchTOTPStep code_at secret code now = (step, True)"
    and "look s 0 (recoveryKey (sha256_hex (ToUpper (TrimSpace code)))) = None"
    and "\<forall>p\<in>set ops. \<not> restarts_setup p" and "operator_run B sha256_hex ops s1 = (acc, s2)"
    and "\<forall>d\<in>{0, 1, - 1}. uint step < Unix later sdiv 30 + d \<longrightarrow> code_at secret ((Unix later sdiv 30 + d) * 30) \<noteq> Some (TrimSpace code)"
  shows "isl (fst (Login B sha256_hex code_at rand' later code s2))"
proof -
  note sb = assms(1)
  let ?k = "recoveryKey (sha256_hex (ToUpper (TrimSpace code)))"
  have shrink: "credentials_shrink (look s) (look s1)" and used: "consumed_step (look s1) = Some step"
    using serial_badger.Login_sound(1,2) [OF sb assms(2-4)] assms(5-7) by auto
  then have s1: "timeless (look s1)" "ready (look s1)" "look s1 0 ?k = None"
    using assms(7) by (auto simp: credentials_shrink_def)
  have shrink2: "credentials_shrink (look s1) (look s2)" using serial_badger.operator_run_shrinks [OF sb s1(1,2) assms(9)] .
  show ?thesis
  proof (cases "TOTPSecret B later s2")
    case (Inl e)
    then show ?thesis by (simp add: Login_def login_valid_def)
  next
    case (Inr secret')
    have "secret' = secret"
      using serial_badger.TOTPSecret_kept [OF sb credentials_shrink_trans [OF shrink shrink2] assms(2,5) Inr] .
    moreover obtain step' valid where m: "MatchTOTPStep code_at secret code later = (step', valid)" by fastforce
    moreover have "look s2 0 ?k = None" using shrink2 s1(3) by (auto simp: credentials_shrink_def)
    ultimately show ?thesis
      using serial_badger.Login_no_replay [OF sb s1(1,2) used _ assms(8,9), of later secret code_at code step' valid rand'] Inr
        MatchTOTPStep_bound [OF m assms(10)] by auto
  qed
qed

theorem totp_code_no_replay_witness:
  "\<exists>token s1. Login map_badger id example_code_at example_rand example_now ''42'' example_operator = (Inr token, s1) \<and>
     isl (fst (Login map_badger id example_code_at example_rand (example_now + second) ''42'' s1))"
proof -
  have trim: "TrimSpace ''42'' = ''42''" by (simp add: TrimSpace_def is_space_def)
  obtain token s1 where r: "Login map_badger id example_code_at example_rand example_now ''42'' example_operator = (Inr token, s1)"
    by (simp add: login_eval operator_eval trim)
  have "TOTPSecret map_badger example_now example_operator = Inr ''SECRET''"
    by (simp add: TOTPSecret_def getString_def get_found_def operator_eval)
  moreover have "MatchTOTPStep example_code_at ''SECRET'' ''42'' example_now = (42, True)"
    by (simp add: MatchTOTPStep_def example_code_at_def signed_divide_int_def trim)
  moreover have "map_look example_operator 0 (recoveryKey (id (ToUpper (TrimSpace ''42'')))) = None"
    by (simp add: example_operator_def trim ToUpper_def)
  moreover have "\<forall>d\<in>{0, 1, - 1}. uint (42 :: u64) < Unix (example_now + second) sdiv 30 + d \<longrightarrow>
      example_code_at ''SECRET'' ((Unix (example_now + second) sdiv 30 + d) * 30) \<noteq> Some (TrimSpace ''42'')"
    by (simp add: Unix_def example_now_def signed_divide_int_def example_code_at_def trim)
  ultimately have "isl (fst (Login map_badger id example_code_at example_rand (example_now + second) ''42'' s1))"
    using totp_code_no_replay [OF map_db.serial_badger_axioms example_operator_ok r, of "''SECRET''" 42 "[]" "[]" s1 "example_now + second"]
    by simp
  with r show ?thesis by blast
qed

text \<open>
  C24.  What completing the setup hands over: ten recovery codes, every one of which is accepted
  later (unless the commit meets a conflict), a session for twelve hours, the pending TOTP secret as
  the secret, and a setup token that no longer works.  The code used for the setup is used up.
\<close>

theorem setup_hands_over:
  assumes "reliable_badger B look rely" and "rand_fills rand"
    and "CompleteSetup B sha256_hex code_at rand now code svc s f = (Inr (codes, session), svc', s', f')"
  shows "length codes = 10 \<and>
    (\<forall>c\<in>set codes. fst (ConsumeRecoveryCode B sha256_hex later c s') \<in> {Inr True, Inl (StoreBadger ErrConflict)}) \<and>
    \<not> CheckSetupToken svc' candidate \<and>
    (later + second \<le> now + 12 * hour \<longrightarrow> SessionValid B sha256_hex later session s' = Inr True) \<and>
    (\<exists>secret step. PendingTOTP B now s = Inr secret \<and> TOTPSecret B later s' = Inr secret \<and>
      MatchTOTPStep code_at secret code now = (step, True) \<and> consumed_step (look s') = Some step)"
  using reliable_badger.CompleteSetup_hands_over [OF assms] by (auto simp: SessionTTL_def)

definition pending_db :: map_db where
  "pending_db = db_of [(pendingTOTPKey, Bytes ''NEW'')] 0"

definition no_files :: fs where
  "no_files = \<lparr>files = Map.empty, failing = (\<lambda>_. False), torn = (\<lambda>_. None)\<rparr>"

theorem setup_hands_over_witness:
  "let r = CompleteSetup map_badger id example_code_at example_rand example_now ''42''
       \<lparr>setupTokenPath = [], setupToken = ''tok''\<rparr> pending_db no_files in
   \<exists>codes token. fst r = Inr (codes, token) \<and> length codes = 10 \<and> \<not> CheckSetupToken (fst (snd r)) ''tok''"
proof -
  let ?r = "CompleteSetup map_badger id example_code_at example_rand example_now ''42''
       \<lparr>setupTokenPath = [], setupToken = ''tok''\<rparr> pending_db no_files"
  have trim: "TrimSpace ''42'' = ''42''" by (simp add: TrimSpace_def is_space_def)
  have codes: "\<exists>cs. recovery_codes example_rand i n = Inr cs" for i n
    by (induction n arbitrary: i) (simp_all add: bind_simps randomHex_def example_rand_def)
  have hashes: "\<exists>s'. set_recovery_hashes map_badger hs s = Inr s' \<and> conflicts s' = conflicts s" for hs s
    by (induction hs arbitrary: s) (simp_all add: map_badger_ops, metis conflicts_put)
  obtain cs where cs: "recovery_codes example_rand 0 10 = Inr cs" using codes by blast
  obtain token where token: "randomHex example_rand 20 32 = Inr token" by (simp add: randomHex_def example_rand_def)
  have "\<exists>s'. CompleteOperator map_badger id example_now ''NEW'' 42 (map id cs) token SessionTTL pending_db = (Inr (), s')"
    using hashes [of "map id cs"]
    by (auto simp: CompleteOperator_def Update_def map_badger_simps setUint64_def pending_db_def bindE_def
        split: sum.splits) (metis Inl_Inr_False conflicts_db_of)
  then have "\<exists>x. ?r = (Inr (cs, token), x)"
    using cs token by (auto simp: CompleteSetup_def PendingTOTP_def getString_def get_found_def map_badger_simps
        pending_db_def MatchTOTPStep_def example_code_at_def signed_divide_int_def trim)
  then obtain svc' s' f' where r: "?r = (Inr (cs, token), svc', s', f')" by (metis prod.collapse)
  show ?thesis
    using setup_hands_over [OF map_db.reliable_badger_axioms example_rand_fills r] r by (simp add: Let_def)
qed

end
