(* ===== verification/Limiter.thy ===== *)
theory Limiter
  imports Prelude
begin

text \<open>
  \<open>internal/api/limiter.go\<close>: the limiter of authentication attempts.  The API asks \<open>allowed\<close>
  before an attempt and reports the outcome with \<open>failed\<close> or \<open>succeeded\<close>.  The mutex makes each of
  them one step.  The failure count and the delay are \<open>int64\<close>s, and their arithmetic is reduced to
  64 bits where the code computes them.
\<close>

record loginLimiter =
  failures :: int
  blockedUntil :: instant

definition new_limiter :: loginLimiter where
  "new_limiter = \<lparr>failures = 0, blockedUntil = zero_time\<rparr>"

definition allowed :: "loginLimiter \<Rightarrow> instant \<Rightarrow> bool" where
  "allowed l now \<longleftrightarrow> \<not> now < blockedUntil l"

definition failed :: "loginLimiter \<Rightarrow> instant \<Rightarrow> loginLimiter" where
  "failed l now =
     (let l = l\<lparr>failures := int64 (failures l + 1)\<rparr> in
      if failures l \<ge> 5 then
        let delay = int64 (int64 (int64 (failures l - 4) * 30) * second);
            delay = (if delay > 5 * minute then 5 * minute else delay)
        in l\<lparr>blockedUntil := now + delay\<rparr>
      else l)"

definition succeeded :: "loginLimiter \<Rightarrow> loginLimiter" where
  "succeeded l = l\<lparr>failures := 0, blockedUntil := zero_time\<rparr>"


section \<open>The pause after a failure\<close>

text \<open>The specification: no pause for four failures, then half a minute more each time, up to five minutes.\<close>

definition pause :: "nat \<Rightarrow> duration" where
  "pause n = (if n < 5 then 0 else min (int (n - 4) * 30 * second) (5 * minute))"

lemma pause_mono: "m \<le> n \<Longrightarrow> pause m \<le> pause n"
  by (auto simp: pause_def min_def)

lemma pause_bounds: "0 \<le> pause n" "pause n \<le> 5 * minute" "5 \<le> n \<Longrightarrow> 30 * second \<le> pause n"
  by (auto simp: pause_def)

text \<open>The delay is exact as long as it fits 64 bits, which it does for 307445738 failures in a row.\<close>

lemma failed_pause:
  assumes "failures l = int n" and "n < 307445738"
  shows "failures (failed l now) = int (Suc n)"
    and "blockedUntil (failed l now) = (if n < 4 then blockedUntil l else now + pause (Suc n))"
  using assms by (auto simp: failed_def Let_def int64_id pause_def min_def)

section \<open>Any order of calls\<close>

text \<open>
  The handlers of concurrent requests call the limiter in any order: several may be let in before one of
  them reports a failure, since \<open>allowed\<close> and \<open>failed\<close> lock it separately.  \<open>allowed\<close> changes nothing, so the
  state after any such sequence depends on the reports alone.
\<close>

datatype report = Failure instant | Success

fun limiter_report :: "loginLimiter \<Rightarrow> report \<Rightarrow> loginLimiter" where
  "limiter_report l (Failure now) = failed l now"
| "limiter_report l Success = succeeded l"

text \<open>The instants of the failures since the last success.\<close>

fun recent_failures :: "report list \<Rightarrow> instant list" where
  "recent_failures [] = []"
| "recent_failures (r # rs) = (if Success \<in> set rs then recent_failures rs else case r of
       Success \<Rightarrow> recent_failures rs
     | Failure now \<Rightarrow> now # recent_failures rs)"

lemma recent_failures_snoc:
  "recent_failures (rs @ [Success]) = []" "recent_failures (rs @ [Failure now]) = recent_failures rs @ [now]"
  by (induction rs) (auto split: report.splits)

text \<open>What the specification makes of them: the instant until which nobody is let in.\<close>

definition blocked_until :: "instant list \<Rightarrow> instant" where
  "blocked_until ts = (if length ts < 5 then zero_time else last ts + pause (length ts))"

lemma limiter_state:
  assumes "\<And>us vs. rs = us @ vs \<Longrightarrow> length (recent_failures us) < 307445738"
  shows "failures (foldl limiter_report new_limiter rs) = int (length (recent_failures rs)) \<and>
    blockedUntil (foldl limiter_report new_limiter rs) = blocked_until (recent_failures rs)"
  using assms
proof (induction rs rule: rev_induct)
  case Nil
  then show ?case by (simp add: new_limiter_def blocked_until_def)
next
  case (snoc r rs)
  let ?l = "foldl limiter_report new_limiter rs"
  have l: "failures ?l = int (length (recent_failures rs))" "blockedUntil ?l = blocked_until (recent_failures rs)"
    using snoc.IH snoc.prems by (metis append.assoc)+
  have "length (recent_failures rs) < 307445738" using snoc.prems [of rs "[r]"] by simp
  with l failed_pause [of ?l "length (recent_failures rs)"] show ?case
    by (cases r) (auto simp: recent_failures_snoc blocked_until_def succeeded_def)
qed

text \<open>
  The limiter on every branch: fewer than five failures in a row never block, from the fifth on
  the limiter blocks for exactly the pause, and a success forgets the failures.
\<close>

theorem limiter_blocks_exactly:
  assumes "failures l = int n" and "n < 307445738" and "0 \<le> t"
  shows "(4 \<le> n \<longrightarrow> (allowed (failed l now) t \<longleftrightarrow> now + pause (Suc n) \<le> t)) \<and>
    (n < 4 \<longrightarrow> (allowed (failed l now) t \<longleftrightarrow> allowed l t)) \<and> allowed (succeeded l) t"
  using failed_pause [OF assms(1,2), of now] assms(3)
  by (auto simp: allowed_def succeeded_def zero_time_def)

theorem limiter_blocks_exactly_witness:
  "\<not> allowed (failed (new_limiter\<lparr>failures := 4\<rparr>) 0) (29 * second) \<and>
   allowed (failed (new_limiter\<lparr>failures := 4\<rparr>) 0) (30 * second)"
  using limiter_blocks_exactly [of "new_limiter\<lparr>failures := 4\<rparr>" 4 "29 * second" 0]
    limiter_blocks_exactly [of "new_limiter\<lparr>failures := 4\<rparr>" 4 "30 * second" 0]
  by (simp add: pause_def)

end
