(* ===== verification/Hub.thy ===== *)
theory Hub
  imports Channel Proto
begin

text \<open>
  \<open>internal/control/hub.go\<close>: the hub of connected agents.  Pointers to connections and
  reservations are indices into lists of everything allocated, and the closures the hub hands out
  are operations of their own: \<open>detach\<close> takes the reservation it was made for, \<open>release\<close> the number
  of the revocation, whose \<open>sync.Once\<close> is the flag kept with it.  Every operation holds the mutex
  from beginning to end, so it is one step.  An operation returns \<open>None\<close> when it panics (closing a
  closed channel, sending on a closed channel).
\<close>

section \<open>State\<close>

record connection =
  messages :: "HostMessage chan"
  conn_done :: "unit chan"
  closed :: bool

record Reservation =
  res_id :: string
  res_connection :: nat
  canceled :: bool

text \<open>
  The maps of the hub, and the objects its pointers point to: connections, reservations and, for
  each call of \<open>Revoke\<close>, the identifier and whether its release ran.
\<close>

record Hub =
  connections :: "string \<rightharpoonup> nat"
  pending :: "string \<rightharpoonup> nat list"
  blocked :: "string \<rightharpoonup> int"
  conns :: "connection list"
  ress :: "Reservation list"
  revocations :: "(string \<times> bool) list"

definition NewHub :: Hub where
  "NewHub = \<lparr>connections = Map.empty, pending = Map.empty, blocked = Map.empty, conns = [], ress = [], revocations = []\<rparr>"

text \<open>\<open>h.blocked[id]\<close>, 0 when there is no entry.\<close>

definition blocked_count :: "Hub \<Rightarrow> string \<Rightarrow> int" where
  "blocked_count h iid = (case blocked h iid of None \<Rightarrow> 0 | Some n \<Rightarrow> n)"


section \<open>Operations\<close>

definition closeConnection :: "nat \<Rightarrow> Hub \<Rightarrow> Hub option" where
  "closeConnection a h =
     (let c = conns h ! a in
      if \<not> closed c then
        Option.bind (close_chan (conn_done c)) (\<lambda>d.
        Option.bind (close_chan (messages c)) (\<lambda>m.
        Some (h\<lparr>conns := (conns h)[a := \<lparr>messages = m, conn_done = d, closed = True\<rparr>]\<rparr>)))
      else Some h)"

definition Reserve :: "string \<Rightarrow> Hub \<Rightarrow> nat option \<times> Hub" where
  "Reserve iid h =
     (if blocked_count h iid > 0 then (None, h)
      else
        let r = length (ress h);
            c = \<lparr>messages = make_chan 16, conn_done = make_chan 0, closed = False\<rparr>;
            others = (case pending h iid of None \<Rightarrow> [] | Some rs \<Rightarrow> rs)
        in (Some r, h\<lparr>ress := ress h @ [\<lparr>res_id = iid, res_connection = length (conns h), canceled = False\<rparr>],
              conns := conns h @ [c], pending := (pending h)(iid \<mapsto> others @ [r])\<rparr>))"

text \<open>\<open>delete(pending, reservation)\<close>, and the entry itself once it is empty.\<close>

definition drop_pending :: "nat \<Rightarrow> Hub \<Rightarrow> Hub" where
  "drop_pending r h =
     (let iid = res_id (ress h ! r) in
      case pending h iid of
        None \<Rightarrow> h
      | Some rs \<Rightarrow>
          let rs = removeAll r rs in
          h\<lparr>pending := (if rs = [] then (pending h)(iid := None) else (pending h)(iid \<mapsto> rs))\<rparr>)"

definition is_pending :: "Hub \<Rightarrow> nat \<Rightarrow> bool" where
  "is_pending h r \<longleftrightarrow> (case pending h (res_id (ress h ! r)) of None \<Rightarrow> False | Some rs \<Rightarrow> r \<in> set rs)"

definition Activate :: "nat \<Rightarrow> Hub \<Rightarrow> (bool \<times> Hub) option" where
  "Activate r h =
     (let reservation = ress h ! r; iid = res_id reservation;
          found = is_pending h r;
          h = drop_pending r h
      in
      if \<not> found \<or> canceled reservation \<or> blocked_count h iid > 0 then
        map_option (\<lambda>h. (False, h)) (closeConnection (res_connection reservation) h)
      else
        Option.bind (case connections h iid of Some previous \<Rightarrow> closeConnection previous h | None \<Rightarrow> Some h) (\<lambda>h.
        Some (True, h\<lparr>connections := (connections h)(iid \<mapsto> res_connection reservation)\<rparr>)))"

text \<open>The closure \<open>Activate\<close> returns for the reservation it attached.\<close>

definition detach :: "nat \<Rightarrow> Hub \<Rightarrow> (bool \<times> Hub) option" where
  "detach r h =
     (let iid = res_id (ress h ! r); current = res_connection (ress h ! r) in
      if connections h iid = Some current then
        map_option (\<lambda>h. (True, h)) (closeConnection current (h\<lparr>connections := (connections h)(iid := None)\<rparr>))
      else Some (False, h))"

definition cancel_reservation :: "nat \<Rightarrow> Hub \<Rightarrow> Hub option" where
  "cancel_reservation r h =
     closeConnection (res_connection (ress h ! r)) (h\<lparr>ress := (ress h)[r := (ress h ! r)\<lparr>canceled := True\<rparr>]\<rparr>)"

definition Cancel :: "nat \<Rightarrow> Hub \<Rightarrow> Hub option" where
  "Cancel r h = cancel_reservation r (drop_pending r h)"

text \<open>The loop of \<open>Revoke\<close> over the reservations that wait.\<close>

fun cancel_all :: "nat list \<Rightarrow> Hub \<Rightarrow> Hub option" where
  "cancel_all [] h = Some h"
| "cancel_all (r # rs) h = Option.bind (cancel_reservation r h) (cancel_all rs)"

text \<open>The number returned names the revocation for its release.\<close>

definition Revoke :: "string \<Rightarrow> Hub \<Rightarrow> (nat \<times> Hub) option" where
  "Revoke iid h =
     Option.bind (cancel_all (case pending h iid of None \<Rightarrow> [] | Some rs \<Rightarrow> rs)
       (h\<lparr>blocked := (blocked h)(iid \<mapsto> blocked_count h iid + 1)\<rparr>)) (\<lambda>h.
     let h = h\<lparr>pending := (pending h)(iid := None)\<rparr> in
     Option.bind (case connections h iid of
         Some current \<Rightarrow> closeConnection current (h\<lparr>connections := (connections h)(iid := None)\<rparr>)
       | None \<Rightarrow> Some h) (\<lambda>h.
     Some (length (revocations h), h\<lparr>revocations := revocations h @ [(iid, False)]\<rparr>)))"

definition release :: "nat \<Rightarrow> Hub \<Rightarrow> Hub" where
  "release k h = (case revocations h ! k of (iid, once) \<Rightarrow>
     if once then h
     else
       let n = blocked_count h iid - 1 in
       h\<lparr>revocations := (revocations h)[k := (iid, True)],
         blocked := (if n = 0 then (blocked h)(iid := None) else (blocked h)(iid \<mapsto> n))\<rparr>)"

text \<open>An action that runs under the mutex, on whatever else it changes.\<close>

definition IfNotRevoked :: "Hub \<Rightarrow> string \<Rightarrow> ('w \<Rightarrow> 'w) \<Rightarrow> 'w \<Rightarrow> bool \<times> 'w" where
  "IfNotRevoked h iid action w = (if blocked_count h iid > 0 then (False, w) else (True, action w))"

definition IfOnline :: "Hub \<Rightarrow> string \<Rightarrow> ('w \<Rightarrow> 'w) \<Rightarrow> 'w \<Rightarrow> bool \<times> 'w" where
  "IfOnline h iid action w = (case connections h iid of
       None \<Rightarrow> (False, w)
     | Some current \<Rightarrow>
         if blocked_count h iid > 0 \<or> closed (conns h ! current) then (False, w) else (True, action w))"

definition Send :: "string \<Rightarrow> HostMessage \<Rightarrow> Hub \<Rightarrow> (bool \<times> Hub) option" where
  "Send iid message h = (case connections h iid of
       None \<Rightarrow> Some (False, h)
     | Some current \<Rightarrow>
         let c = conns h ! current in
         if closed c then Some (False, h)
         else case try_send (messages c) message of
             SendPanic \<Rightarrow> None
           | Sent m \<Rightarrow> Some (True, h\<lparr>conns := (conns h)[current := c\<lparr>messages := m\<rparr>]\<rparr>)
           | Full \<Rightarrow> map_option (\<lambda>h. (False, h)) (closeConnection current h))"

definition Online :: "Hub \<Rightarrow> string \<Rightarrow> bool" where
  "Online h iid = (case connections h iid of None \<Rightarrow> False | Some current \<Rightarrow> \<not> closed (conns h ! current))"

text \<open>The serving goroutine takes a message from the channel of its connection.\<close>

definition take_message :: "nat \<Rightarrow> Hub \<Rightarrow> (HostMessage \<times> Hub) option" where
  "take_message a h = (case try_recv (messages (conns h ! a)) of
       Received m c \<Rightarrow> Some (m, h\<lparr>conns := (conns h)[a := (conns h ! a)\<lparr>messages := c\<rparr>]\<rparr>)
     | _ \<Rightarrow> None)"


section \<open>The invariant\<close>

definition conn_ok :: "connection \<Rightarrow> bool" where
  "conn_ok c \<longleftrightarrow> is_closed (messages c) = closed c \<and> is_closed (conn_done c) = closed c \<and>
     capacity (messages c) = 16 \<and> within_capacity (messages c)"

text \<open>The revocations of an identifier that were not released.\<close>

definition active_revocations :: "Hub \<Rightarrow> string \<Rightarrow> nat" where
  "active_revocations h iid = length (filter (\<lambda>(i, once). i = iid \<and> \<not> once) (revocations h))"

text \<open>Reservation \<open>r\<close> owns connection \<open>r\<close>: they are allocated together.\<close>

definition objects_ok :: "Hub \<Rightarrow> bool" where
  "objects_ok h \<longleftrightarrow> length (conns h) = length (ress h) \<and> (\<forall>c\<in>set (conns h). conn_ok c) \<and>
     (\<forall>r<length (ress h). res_connection (ress h ! r) = r)"

definition waiting_ok :: "Hub \<Rightarrow> bool" where
  "waiting_ok h \<longleftrightarrow> (\<forall>iid rs. pending h iid = Some rs \<longrightarrow> rs \<noteq> [] \<and> distinct rs \<and>
     (\<forall>r\<in>set rs. r < length (ress h) \<and> res_id (ress h ! r) = iid \<and> \<not> canceled (ress h ! r) \<and> \<not> closed (conns h ! r)))"

definition attached_ok :: "Hub \<Rightarrow> bool" where
  "attached_ok h \<longleftrightarrow> (\<forall>iid a. connections h iid = Some a \<longrightarrow>
     a < length (ress h) \<and> res_id (ress h ! a) = iid \<and> \<not> is_pending h a)"

definition revoked_ok :: "Hub \<Rightarrow> bool" where
  "revoked_ok h \<longleftrightarrow> (\<forall>iid. blocked_count h iid = int (active_revocations h iid) \<and>
     (0 < active_revocations h iid \<longrightarrow> connections h iid = None \<and> pending h iid = None))"

definition hub_ok :: "Hub \<Rightarrow> bool" where
  "hub_ok h \<longleftrightarrow> objects_ok h \<and> waiting_ok h \<and> attached_ok h \<and> revoked_ok h"

lemmas hub_ok_defs = hub_ok_def objects_ok_def waiting_ok_def attached_ok_def revoked_ok_def

lemma hub_ok_NewHub: "hub_ok NewHub"
  by (simp add: hub_ok_defs NewHub_def blocked_count_def active_revocations_def)


section \<open>Closing\<close>

definition shut :: "connection \<Rightarrow> connection" where
  "shut c = \<lparr>messages = (messages c)\<lparr>is_closed := True\<rparr>, conn_done = (conn_done c)\<lparr>is_closed := True\<rparr>, closed = True\<rparr>"

lemma shut_simps [simp]:
  "closed (shut c)" "conn_ok c \<Longrightarrow> conn_ok (shut c)" "buffer (messages (shut c)) = buffer (messages c)"
  by (simp_all add: shut_def conn_ok_def within_capacity_def)

lemma shut_closed: "conn_ok c \<Longrightarrow> closed c \<Longrightarrow> shut c = c"
  by (cases c) (simp add: shut_def conn_ok_def)

text \<open>On a hub whose objects are in order closing never panics, however often it is done.\<close>

lemma closeConnection_shut:
  assumes "objects_ok h" and "a < length (ress h)"
  shows "closeConnection a h = Some (h\<lparr>conns := (conns h)[a := shut (conns h ! a)]\<rparr>)"
proof -
  have ok: "conn_ok (conns h ! a)" using assms by (simp add: objects_ok_def)
  show ?thesis
  proof (cases "closed (conns h ! a)")
    case True
    with ok show ?thesis by (simp add: closeConnection_def shut_closed)
  next
    case False
    with ok show ?thesis by (simp add: closeConnection_def close_chan_def conn_ok_def shut_def Let_def)
  qed
qed

lemma objects_ok_conns:
  assumes "objects_ok h" and "conn_ok c"
  shows "objects_ok (h\<lparr>conns := (conns h)[a := c]\<rparr>)"
  using assms by (auto simp: objects_ok_def dest!: set_update_subset_insert [THEN subsetD])

lemma hub_ok_conns:
  assumes "hub_ok h" and "conn_ok c" and "closed c \<Longrightarrow> closed (conns h ! a) \<or> \<not> is_pending h a"
  shows "hub_ok (h\<lparr>conns := (conns h)[a := c]\<rparr>)"
proof -
  let ?h = "h\<lparr>conns := (conns h)[a := c]\<rparr>"
  have "objects_ok ?h" using assms(1,2) by (simp add: hub_ok_def objects_ok_conns)
  moreover have "waiting_ok ?h"
    unfolding waiting_ok_def
  proof (intro allI impI)
    fix iid rs assume p: "pending ?h iid = Some rs"
    then have "\<not> closed ((conns h)[a := c] ! r)" if "r \<in> set rs" for r
      using that assms(1,3)
      by (cases "a = r") (auto simp: hub_ok_def objects_ok_def waiting_ok_def is_pending_def)
    with p assms(1) show "rs \<noteq> [] \<and> distinct rs \<and> (\<forall>r\<in>set rs. r < length (ress ?h) \<and>
        res_id (ress ?h ! r) = iid \<and> \<not> canceled (ress ?h ! r) \<and> \<not> closed (conns ?h ! r))"
      by (auto simp: hub_ok_def waiting_ok_def)
  qed
  moreover have "attached_ok ?h" "revoked_ok ?h"
    using assms(1) by (auto simp: hub_ok_def attached_ok_def revoked_ok_def is_pending_def blocked_count_def active_revocations_def)
  ultimately show ?thesis by (simp add: hub_ok_def)
qed

text \<open>Closing a connection whose reservation does not wait.\<close>

lemma closeConnection_ok:
  assumes "hub_ok h" and "a < length (ress h)" and "\<not> is_pending h a"
  obtains h' where "closeConnection a h = Some h'" and "hub_ok h'"
    and "h' = h\<lparr>conns := (conns h)[a := shut (conns h ! a)]\<rparr>"
proof
  show "closeConnection a h = Some (h\<lparr>conns := (conns h)[a := shut (conns h ! a)]\<rparr>)"
    using assms by (intro closeConnection_shut) (simp_all add: hub_ok_def)
  have "conn_ok (conns h ! a)" using assms by (simp add: hub_ok_def objects_ok_def)
  then show "hub_ok (h\<lparr>conns := (conns h)[a := shut (conns h ! a)]\<rparr>)"
    using assms by (intro hub_ok_conns) simp_all
qed simp


section \<open>Waiting reservations and attached connections\<close>

lemma drop_pending_fields [simp]:
  "connections (drop_pending r h) = connections h" "blocked (drop_pending r h) = blocked h"
  "conns (drop_pending r h) = conns h" "ress (drop_pending r h) = ress h"
  "revocations (drop_pending r h) = revocations h" "blocked_count (drop_pending r h) iid = blocked_count h iid"
  by (simp_all add: drop_pending_def blocked_count_def Let_def split: option.split)

lemma drop_pending_conns [simp]:
  "(drop_pending r h)\<lparr>connections := m, conns := conns h\<rparr> = (drop_pending r h)\<lparr>connections := m\<rparr>"
  by (rule Hub.equality) simp_all

lemma conns_connections: "h\<lparr>conns := c, connections := m\<rparr> = h\<lparr>connections := m, conns := c\<rparr>"
  by simp

lemma drop_pending_lookup:
  "pending (drop_pending r h) iid =
     (if iid = res_id (ress h ! r)
      then (case pending h iid of None \<Rightarrow> None | Some rs \<Rightarrow> if removeAll r rs = [] then None else Some (removeAll r rs))
      else pending h iid)"
  by (auto simp: drop_pending_def Let_def split: option.split)

lemma removeAll_Nil_iff: "removeAll r rs = [] \<longleftrightarrow> set rs \<subseteq> {r}"
  by (induction rs) auto

lemma is_pending_drop: "is_pending (drop_pending r h) q \<longleftrightarrow> is_pending h q \<and> q \<noteq> r"
  by (auto simp: is_pending_def drop_pending_lookup removeAll_Nil_iff split: option.splits)

lemma hub_ok_drop_pending:
  assumes "hub_ok h"
  shows "hub_ok (drop_pending r h)"
proof -
  have "waiting_ok (drop_pending r h)"
    using assms
    by (auto simp: hub_ok_def waiting_ok_def drop_pending_lookup distinct_removeAll split: if_splits option.splits)
  moreover have "attached_ok (drop_pending r h)"
    using assms by (auto simp: hub_ok_def attached_ok_def is_pending_drop)
  moreover have "revoked_ok (drop_pending r h)"
    using assms by (auto simp: hub_ok_def revoked_ok_def active_revocations_def drop_pending_lookup)
  ultimately show ?thesis using assms by (simp add: hub_ok_def objects_ok_def)
qed

lemma hub_ok_attach:
  assumes "hub_ok h" and "r < length (ress h)" and "\<not> is_pending h r" and "res_id (ress h ! r) = iid"
    and "blocked_count h iid \<le> 0"
  shows "hub_ok (h\<lparr>connections := (connections h)(iid \<mapsto> r)\<rparr>)"
  using assms by (auto simp: hub_ok_defs is_pending_def blocked_count_def active_revocations_def)

lemma hub_ok_unattach:
  assumes "hub_ok h"
  shows "hub_ok (h\<lparr>connections := (connections h)(iid := None)\<rparr>)"
  using assms by (auto simp: hub_ok_defs is_pending_def blocked_count_def active_revocations_def)

lemma hub_ok_cancel_flag:
  assumes "hub_ok h" and "\<not> is_pending h r"
  shows "hub_ok (h\<lparr>ress := (ress h)[r := (ress h ! r)\<lparr>canceled := True\<rparr>]\<rparr>)"
    (is "hub_ok ?h")
proof -
  have rid: "res_id (ress ?h ! q) = res_id (ress h ! q)" "res_connection (ress ?h ! q) = res_connection (ress h ! q)" for q
    by (cases "q = r \<and> r < length (ress h)"; auto simp: nth_list_update list_update_beyond)+
  have pend: "is_pending ?h q = is_pending h q" for q
    using rid(1) [of q] by (simp add: is_pending_def)
  have "\<not> canceled (ress ?h ! q)" if "pending h iid = Some rs" "q \<in> set rs" for iid rs q
    using that assms by (cases "q = r") (auto simp: hub_ok_def waiting_ok_def is_pending_def)
  then have "waiting_ok ?h"
    unfolding waiting_ok_def rid using assms(1) by (auto simp: hub_ok_def waiting_ok_def)
  moreover have "objects_ok ?h"
    unfolding objects_ok_def rid using assms(1) by (simp add: hub_ok_def objects_ok_def)
  moreover have "attached_ok ?h"
    unfolding attached_ok_def rid pend using assms(1) by (simp add: hub_ok_def attached_ok_def)
  moreover have "revoked_ok ?h"
    using assms(1) by (simp add: hub_ok_def revoked_ok_def blocked_count_def active_revocations_def)
  ultimately show ?thesis by (simp add: hub_ok_def)
qed

section \<open>Every operation returns and keeps the invariant\<close>

lemma Reserve_ok:
  assumes "hub_ok h" and "Reserve iid h = (x, h')"
  shows "hub_ok h'"
proof (cases "blocked_count h iid > 0")
  case True
  with assms show ?thesis by (simp add: Reserve_def)
next
  case False
  define r where "r = length (ress h)"
  define c :: connection where "c = \<lparr>messages = make_chan 16, conn_done = make_chan 0, closed = False\<rparr>"
  have h': "h' = h\<lparr>ress := ress h @ [\<lparr>res_id = iid, res_connection = r, canceled = False\<rparr>], conns := conns h @ [c],
      pending := (pending h)(iid \<mapsto> (case pending h iid of None \<Rightarrow> [] | Some rs \<Rightarrow> rs) @ [r])\<rparr>"
    using assms False by (auto simp: Reserve_def Let_def r_def c_def hub_ok_def objects_ok_def)
  have len: "length (conns h) = r" using assms(1) by (simp add: hub_ok_def objects_ok_def r_def)
  have "objects_ok h'"
    using assms(1) len by (auto simp: h' hub_ok_def objects_ok_def nth_append r_def c_def conn_ok_def within_capacity_def)
  moreover have new: "q < r" if "pending h iid = Some rs" "q \<in> set rs" for iid rs q
    using assms(1) that by (auto simp: hub_ok_def waiting_ok_def r_def)
  then have fresh: "r \<notin> set rs" if "pending h iid = Some rs" for iid rs using that by blast
  have "waiting_ok h'"
    unfolding waiting_ok_def h'
    using assms(1) len new fresh
    by (auto simp: hub_ok_def waiting_ok_def nth_append r_def c_def less_SucI split: option.splits if_splits)
  moreover have "attached_ok h'"
    unfolding attached_ok_def
  proof (intro allI impI conjI)
    fix i a assume "connections h' i = Some a"
    then have a: "a < r" "res_id (ress h ! a) = i" "\<not> is_pending h a"
      using assms(1) by (auto simp: h' hub_ok_def attached_ok_def r_def)
    then show "a < length (ress h')" "res_id (ress h' ! a) = i"
      by (auto simp: h' nth_append r_def)
    show "\<not> is_pending h' a"
      using a by (auto simp: h' is_pending_def nth_append r_def split: option.splits)
  qed
  moreover have "revoked_ok h'"
    using assms(1) False by (auto simp: h' hub_ok_def revoked_ok_def blocked_count_def active_revocations_def)
  ultimately show ?thesis by (simp add: hub_ok_def)
qed

lemma Activate_cases:
  assumes ok: "hub_ok h" and r: "r < length (ress h)"
  obtains (refused) h' where "Activate r h = Some (False, h')" and "hub_ok h'"
      and "\<not> is_pending h r \<or> blocked_count h (res_id (ress h ! r)) > 0"
      and "h' = (drop_pending r h)\<lparr>conns := (conns h)[r := shut (conns h ! r)]\<rparr>"
    | (attached) h' where "Activate r h = Some (True, h')" and "hub_ok h'" and "is_pending h r"
      and "h' = (drop_pending r h)\<lparr>connections := (connections h)(res_id (ress h ! r) \<mapsto> r),
        conns := (case connections h (res_id (ress h ! r)) of None \<Rightarrow> conns h | Some a \<Rightarrow> (conns h)[a := shut (conns h ! a)])\<rparr>"
proof -
  let ?h = "drop_pending r h" and ?iid = "res_id (ress h ! r)"
  have own: "res_connection (ress h ! r) = r" using ok r by (simp add: hub_ok_def objects_ok_def)
  have ok1: "hub_ok ?h" using ok by (rule hub_ok_drop_pending)
  have np: "\<not> is_pending ?h r" by (simp add: is_pending_drop)
  have nc: "\<not> canceled (ress h ! r)" if "is_pending h r"
    using that ok by (auto simp: is_pending_def hub_ok_def waiting_ok_def split: option.splits)
  show ?thesis
  proof (cases "\<not> is_pending h r \<or> blocked_count h ?iid > 0")
    case True
    obtain h' where "closeConnection r ?h = Some h'" "hub_ok h'"
      "h' = ?h\<lparr>conns := (conns ?h)[r := shut (conns ?h ! r)]\<rparr>"
      using closeConnection_ok [OF ok1 _ np] r by auto
    with True refused [of h'] show ?thesis by (auto simp: Activate_def Let_def own)
  next
    case False
    show ?thesis
    proof (cases "connections h ?iid")
      case None
      have "hub_ok (?h\<lparr>connections := (connections ?h)(?iid \<mapsto> r)\<rparr>)"
        using False r by (intro hub_ok_attach ok1 np) auto
      with False None nc show ?thesis
        by (intro attached) (auto simp: Activate_def Let_def own)
    next
      case (Some a)
      with ok1 have a: "a < length (ress ?h)" "\<not> is_pending ?h a" by (auto simp: hub_ok_def attached_ok_def)
      obtain h2 where h2: "closeConnection a ?h = Some h2" "hub_ok h2"
        "h2 = ?h\<lparr>conns := (conns ?h)[a := shut (conns ?h ! a)]\<rparr>"
        using closeConnection_ok [OF ok1 a] by blast
      have "is_pending h2 r = is_pending ?h r" by (simp add: h2(3) is_pending_def)
      then have "hub_ok (h2\<lparr>connections := (connections h2)(?iid \<mapsto> r)\<rparr>)"
        using False r np h2(2) by (intro hub_ok_attach) (auto simp: h2(3) blocked_count_def)
      with False Some nc h2(1) show ?thesis
        by (intro attached) (auto simp: Activate_def Let_def own h2(3) conns_connections)
    qed
  qed
qed

lemma detach_cases:
  assumes ok: "hub_ok h" and r: "r < length (ress h)"
  obtains (refused) "detach r h = Some (False, h)" and "connections h (res_id (ress h ! r)) \<noteq> Some r"
    | (detached) h' where "detach r h = Some (True, h')" and "hub_ok h'" and "connections h (res_id (ress h ! r)) = Some r"
      and "h' = h\<lparr>connections := (connections h)(res_id (ress h ! r) := None), conns := (conns h)[r := shut (conns h ! r)]\<rparr>"
proof -
  let ?iid = "res_id (ress h ! r)" and ?h = "h\<lparr>connections := (connections h)(res_id (ress h ! r) := None)\<rparr>"
  have own: "res_connection (ress h ! r) = r" using ok r by (simp add: hub_ok_def objects_ok_def)
  show ?thesis
  proof (cases "connections h ?iid = Some r")
    case True
    with ok have "\<not> is_pending h r" unfolding hub_ok_def attached_ok_def by blast
    moreover have "is_pending ?h r = is_pending h r" by (simp add: is_pending_def)
    ultimately obtain h' where "closeConnection r ?h = Some h'" "hub_ok h'"
      "h' = ?h\<lparr>conns := (conns ?h)[r := shut (conns ?h ! r)]\<rparr>"
      using closeConnection_ok [OF hub_ok_unattach [OF ok]] r by auto
    then show ?thesis
      using True by (intro detached [of h']) (simp_all add: detach_def own)
  next
    case False
    then show ?thesis by (intro refused) (auto simp: detach_def own)
  qed
qed

lemma Cancel_ok:
  assumes ok: "hub_ok h" and r: "r < length (ress h)"
  obtains h' where "Cancel r h = Some h'" and "hub_ok h'"
    and "h' = (drop_pending r h)\<lparr>ress := (ress h)[r := (ress h ! r)\<lparr>canceled := True\<rparr>], conns := (conns h)[r := shut (conns h ! r)]\<rparr>"
proof -
  let ?h = "(drop_pending r h)\<lparr>ress := (ress h)[r := (ress h ! r)\<lparr>canceled := True\<rparr>]\<rparr>"
  have own: "res_connection (ress h ! r) = r" using ok r by (simp add: hub_ok_def objects_ok_def)
  have np: "\<not> is_pending (drop_pending r h) r" by (simp add: is_pending_drop)
  have "hub_ok ?h"
    using hub_ok_cancel_flag [OF hub_ok_drop_pending [OF ok] np] by simp
  moreover have "\<not> is_pending ?h r"
    using np r by (simp add: is_pending_def)
  ultimately obtain h' where "closeConnection r ?h = Some h'" "hub_ok h'"
    "h' = ?h\<lparr>conns := (conns ?h)[r := shut (conns ?h ! r)]\<rparr>"
    using closeConnection_ok [of ?h r] r by auto
  then show ?thesis by (intro that [of h']) (auto simp: Cancel_def cancel_reservation_def own)
qed

text \<open>The maps of a hub; closing and canceling neither read nor change them.\<close>

definition with_maps :: "(string \<rightharpoonup> nat) \<Rightarrow> (string \<rightharpoonup> nat list) \<Rightarrow> (string \<rightharpoonup> int) \<Rightarrow> Hub \<Rightarrow> Hub" where
  "with_maps c p b h = h\<lparr>connections := c, pending := p, blocked := b\<rparr>"

lemma with_maps_fields [simp]:
  "connections (with_maps c p b h) = c" "pending (with_maps c p b h) = p" "blocked (with_maps c p b h) = b"
  "conns (with_maps c p b h) = conns h" "ress (with_maps c p b h) = ress h"
  "revocations (with_maps c p b h) = revocations h"
  by (simp_all add: with_maps_def)

lemma with_maps_upd [simp]:
  "(with_maps c p b h)\<lparr>connections := c'\<rparr> = with_maps c' p b h" "(with_maps c p b h)\<lparr>pending := p'\<rparr> = with_maps c p' b h"
  by (simp_all add: with_maps_def)

lemma with_maps_with_maps [simp]: "with_maps c p b (with_maps c' p' b' h) = with_maps c p b h"
  by (simp add: with_maps_def)

lemma with_maps_self: "c = connections h \<Longrightarrow> p = pending h \<Longrightarrow> b = blocked h \<Longrightarrow> with_maps c p b h = h"
  by (simp add: with_maps_def)

lemma closeConnection_with_maps:
  "closeConnection a (with_maps c p b h) = map_option (with_maps c p b) (closeConnection a h)"
  by (cases "closed (conns h ! a)"; cases "is_closed (conn_done (conns h ! a))"; cases "is_closed (messages (conns h ! a))")
    (simp_all add: closeConnection_def close_chan_def with_maps_def Let_def)

lemma cancel_reservation_with_maps:
  "cancel_reservation r (with_maps c p b h) = map_option (with_maps c p b) (cancel_reservation r h)"
proof -
  have "(with_maps c p b h)\<lparr>ress := x\<rparr> = with_maps c p b (h\<lparr>ress := x\<rparr>)" for x
    by (simp add: with_maps_def)
  then show ?thesis by (simp only: cancel_reservation_def with_maps_fields closeConnection_with_maps)
qed

lemma cancel_all_with_maps:
  "cancel_all rs (with_maps c p b h) = map_option (with_maps c p b) (cancel_all rs h)"
proof (induction rs arbitrary: h)
  case (Cons r rs)
  then show ?case
    by (cases "cancel_reservation r h") (simp_all add: cancel_reservation_with_maps)
qed simp

text \<open>What closing and canceling leave alone.\<close>

definition same_frame :: "Hub \<Rightarrow> Hub \<Rightarrow> bool" where
  "same_frame h h' \<longleftrightarrow> connections h' = connections h \<and> pending h' = pending h \<and> blocked h' = blocked h \<and>
     revocations h' = revocations h \<and> length (ress h') = length (ress h) \<and>
     (\<forall>q<length (ress h). res_id (ress h' ! q) = res_id (ress h ! q) \<and>
        buffer (messages (conns h' ! q)) = buffer (messages (conns h ! q)))"

lemma same_frame_refl [simp]: "same_frame h h"
  by (simp add: same_frame_def)

lemma same_frame_trans: "same_frame h h1 \<Longrightarrow> same_frame h1 h2 \<Longrightarrow> same_frame h h2"
  by (simp add: same_frame_def)

lemma same_frame_shut:
  assumes "objects_ok h" and "a < length (ress h)"
  shows "same_frame h (h\<lparr>conns := (conns h)[a := shut (conns h ! a)]\<rparr>)"
  using assms by (auto simp: same_frame_def objects_ok_def nth_list_update)

lemma cancel_reservation_ok:
  assumes ok: "hub_ok h" and r: "r < length (ress h)" and np: "\<not> is_pending h r"
  obtains h' where "cancel_reservation r h = Some h'" and "hub_ok h'" and "same_frame h h'"
proof -
  let ?h = "h\<lparr>ress := (ress h)[r := (ress h ! r)\<lparr>canceled := True\<rparr>]\<rparr>"
  have own: "res_connection (ress h ! r) = r" using ok r by (simp add: hub_ok_def objects_ok_def)
  have ok1: "hub_ok ?h" using ok np by (rule hub_ok_cancel_flag)
  have "\<not> is_pending ?h r" using np r by (simp add: is_pending_def)
  then obtain h' where h': "closeConnection r ?h = Some h'" "hub_ok h'"
    "h' = ?h\<lparr>conns := (conns ?h)[r := shut (conns ?h ! r)]\<rparr>"
    using closeConnection_ok [OF ok1] r by auto
  have "same_frame h ?h" using r by (auto simp: same_frame_def nth_list_update)
  moreover have "same_frame ?h h'"
    unfolding h'(3) using ok1 r by (intro same_frame_shut) (simp_all add: hub_ok_def)
  ultimately have "same_frame h h'" by (rule same_frame_trans)
  with h' show ?thesis by (intro that) (simp_all add: cancel_reservation_def own)
qed

lemma same_frame_pending: "same_frame h h' \<Longrightarrow> r < length (ress h) \<Longrightarrow> is_pending h' r = is_pending h r"
  by (simp add: same_frame_def is_pending_def)

lemma cancel_all_ok:
  assumes "hub_ok h" and "\<forall>r\<in>set rs. r < length (ress h) \<and> \<not> is_pending h r"
  shows "\<exists>h'. cancel_all rs h = Some h' \<and> hub_ok h' \<and> same_frame h h'"
  using assms
proof (induction rs arbitrary: h)
  case Nil
  then show ?case by simp
next
  case (Cons r rs)
  from Cons.prems obtain h1 where h1: "cancel_reservation r h = Some h1" "hub_ok h1" "same_frame h h1"
    using cancel_reservation_ok [of h r] by auto
  have "\<forall>q\<in>set rs. q < length (ress h1) \<and> \<not> is_pending h1 q"
    using Cons.prems(2) h1(3) same_frame_pending [OF h1(3)] by (auto simp: same_frame_def)
  with Cons.IH [OF h1(2)] obtain h2 where "cancel_all rs h1 = Some h2" "hub_ok h2" "same_frame h1 h2" by auto
  with h1 same_frame_trans show ?case by fastforce
qed

lemma hub_ok_forget:
  assumes "hub_ok h"
  shows "hub_ok (with_maps ((connections h)(iid := None)) ((pending h)(iid := None)) (blocked h) h)"
    (is "hub_ok ?h")
proof -
  have "waiting_ok ?h" "revoked_ok ?h" "objects_ok ?h"
    using assms by (auto simp: hub_ok_defs blocked_count_def active_revocations_def)
  moreover have "is_pending ?h a \<Longrightarrow> is_pending h a" for a
    by (auto simp: is_pending_def split: if_splits option.splits)
  then have "attached_ok ?h"
    using assms by (auto simp: hub_ok_def attached_ok_def split: if_splits)
  ultimately show ?thesis by (simp add: hub_ok_def)
qed

lemma hub_ok_block:
  assumes "hub_ok h" and "connections h iid = None" and "pending h iid = None"
    and "h' = h\<lparr>blocked := (blocked h)(iid \<mapsto> blocked_count h iid + 1), revocations := revocations h @ [(iid, False)]\<rparr>"
  shows "hub_ok h'"
  using assms by (auto simp: hub_ok_defs is_pending_def blocked_count_def active_revocations_def)

lemma Revoke_ok:
  assumes ok: "hub_ok h"
  obtains h' where "Revoke iid h = Some (length (revocations h), h')" and "hub_ok h'"
    and "same_frame (with_maps ((connections h)(iid := None)) ((pending h)(iid := None))
      ((blocked h)(iid \<mapsto> blocked_count h iid + 1)) (h\<lparr>revocations := revocations h @ [(iid, False)]\<rparr>)) h'"
proof -
  let ?c = "(connections h)(iid := None)" and ?p = "(pending h)(iid := None)"
  let ?b = "(blocked h)(iid \<mapsto> blocked_count h iid + 1)"
  define rs where "rs = (case pending h iid of None \<Rightarrow> [] | Some rs \<Rightarrow> rs)"
  define g where "g = with_maps ?c ?p (blocked h) h"
  have okg: "hub_ok g" unfolding g_def using ok by (rule hub_ok_forget)
  have rs: "r < length (ress h) \<and> res_id (ress h ! r) = iid" if "r \<in> set rs" for r
    using ok that by (cases "pending h iid") (auto simp: rs_def hub_ok_def waiting_ok_def)
  then obtain g1 where g1: "cancel_all rs g = Some g1" "hub_ok g1" "same_frame g g1"
    using cancel_all_ok [OF okg, of rs] by (auto simp: g_def is_pending_def)
  have start: "h\<lparr>blocked := ?b\<rparr> = with_maps (connections h) (pending h) ?b g"
    by (simp add: g_def with_maps_def)
  have loop: "cancel_all rs (h\<lparr>blocked := ?b\<rparr>) = Some (with_maps (connections h) (pending h) ?b g1)"
    by (simp only: start cancel_all_with_maps g1 option.map)
  have "\<exists>g2. (case connections h iid of None \<Rightarrow> Some g1 | Some a \<Rightarrow> closeConnection a g1) = Some g2 \<and> hub_ok g2 \<and> same_frame g1 g2"
  proof (cases "connections h iid")
    case (Some a)
    with ok have "a < length (ress h)" "res_id (ress h ! a) = iid" by (auto simp: hub_ok_def attached_ok_def)
    then have a: "a < length (ress g1)" "\<not> is_pending g1 a"
      using same_frame_pending [OF g1(3), of a] g1(3) by (auto simp: g_def is_pending_def same_frame_def)
    obtain g2 where "closeConnection a g1 = Some g2" "hub_ok g2" "g2 = g1\<lparr>conns := (conns g1)[a := shut (conns g1 ! a)]\<rparr>"
      using closeConnection_ok [OF g1(2) a] by blast
    with Some a g1(2) show ?thesis by (auto simp: hub_ok_def intro: same_frame_shut)
  qed (use g1 in auto)
  then obtain g2 where g2: "(case connections h iid of None \<Rightarrow> Some g1 | Some a \<Rightarrow> closeConnection a g1) = Some g2"
    "hub_ok g2" "same_frame g g2" using g1(3) same_frame_trans by blast
  then have maps: "connections g2 = ?c" "pending g2 = ?p" "blocked g2 = blocked h" "revocations g2 = revocations h"
    by (simp_all add: same_frame_def g_def)
  have close: "(case connections h iid of
         Some current \<Rightarrow> closeConnection current (with_maps ?c ?p ?b g1)
       | None \<Rightarrow> Some (with_maps (connections h) ?p ?b g1)) = Some (with_maps ?c ?p ?b g2)"
    using g2(1) by (cases "connections h iid") (simp_all add: closeConnection_with_maps fun_upd_idem)
  have "Revoke iid h = Some (length (revocations h), (with_maps ?c ?p ?b g2)\<lparr>revocations := revocations h @ [(iid, False)]\<rparr>)"
    using loop close maps(4) by (cases "connections h iid") (simp_all add: Revoke_def rs_def Let_def)
  moreover have "hub_ok ((with_maps ?c ?p ?b g2)\<lparr>revocations := revocations h @ [(iid, False)]\<rparr>)"
    by (rule hub_ok_block [OF g2(2), of iid]) (simp_all add: maps with_maps_def blocked_count_def)
  moreover have "same_frame (with_maps ?c ?p ?b (h\<lparr>revocations := revocations h @ [(iid, False)]\<rparr>))
      ((with_maps ?c ?p ?b g2)\<lparr>revocations := revocations h @ [(iid, False)]\<rparr>)"
    using g2(3) by (simp add: same_frame_def g_def)
  ultimately show ?thesis by (rule that)
qed

lemma length_filter_update:
  "k < length xs \<Longrightarrow>
   length (filter P (xs[k := y])) + (if P (xs ! k) then 1 else 0) = length (filter P xs) + (if P y then 1 else 0)"
proof (induction xs arbitrary: k)
  case (Cons x xs)
  then show ?case using Cons.IH [of "k - 1"] by (cases k) (auto split: if_splits)
qed simp

lemma active_revocations_release:
  assumes "k < length (revocations h)" and "revocations h ! k = (iid, False)"
  shows "active_revocations (h\<lparr>revocations := (revocations h)[k := (iid, True)], blocked := b\<rparr>) i + (if i = iid then 1 else 0) =
    active_revocations h i"
  using length_filter_update [OF assms(1), of "\<lambda>(j, once). j = i \<and> \<not> once" "(iid, True)"] assms(2)
  by (auto simp: active_revocations_def split: if_splits)

lemma release_ok:
  assumes ok: "hub_ok h" and k: "k < length (revocations h)"
  shows "hub_ok (release k h)"
proof (cases "revocations h ! k")
  case (Pair iid once)
  show ?thesis
  proof (cases once)
    case True
    with ok Pair show ?thesis by (simp add: release_def)
  next
    case False
    define n where "n = blocked_count h iid - 1"
    define b where "b = (if n = 0 then (blocked h)(iid := None) else (blocked h)(iid \<mapsto> n))"
    have h': "release k h = h\<lparr>revocations := (revocations h)[k := (iid, True)], blocked := b\<rparr>"
      using Pair False by (simp add: release_def b_def n_def Let_def)
    have act: "active_revocations (release k h) i + (if i = iid then 1 else 0) = active_revocations h i" for i
      unfolding h' using k Pair False by (intro active_revocations_release) simp_all
    have count: "blocked_count (release k h) i = blocked_count h i - (if i = iid then 1 else 0)" for i
      by (simp add: h' blocked_count_def b_def n_def)
    have "revoked_ok (release k h)"
      unfolding revoked_ok_def
    proof (intro allI conjI impI)
      fix i
      have old: "blocked_count h i = int (active_revocations h i)"
        "0 < active_revocations h i \<Longrightarrow> connections h i = None \<and> pending h i = None"
        using ok by (simp_all add: hub_ok_def revoked_ok_def)
      show "blocked_count (release k h) i = int (active_revocations (release k h) i)"
        using act [of i] old(1) by (simp add: count split: if_splits)
      assume "0 < active_revocations (release k h) i"
      with act [of i] have "0 < active_revocations h i" by linarith
      then show "connections (release k h) i = None" "pending (release k h) i = None"
        using old(2) by (simp_all add: h')
    qed
    moreover have "objects_ok (release k h)" "waiting_ok (release k h)"
      using ok by (simp_all add: h' hub_ok_def objects_ok_def waiting_ok_def)
    moreover have "is_pending (release k h) q = is_pending h q" for q
      by (simp add: h' is_pending_def)
    then have "attached_ok (release k h)"
      using ok unfolding attached_ok_def hub_ok_def by (simp add: h')
    ultimately show ?thesis by (simp add: hub_ok_def)
  qed
qed

lemma Send_cases:
  assumes ok: "hub_ok h"
  obtains (offline) "Send iid message h = Some (False, h)" and "\<not> Online h iid"
    | (sent) a where "connections h iid = Some a" and "Online h iid" and "length (buffer (messages (conns h ! a))) < 16"
      and "Send iid message h = Some (True, h\<lparr>conns := (conns h)[a := (conns h ! a)\<lparr>messages :=
        (messages (conns h ! a))\<lparr>buffer := buffer (messages (conns h ! a)) @ [message]\<rparr>\<rparr>]\<rparr>)"
    | (full) a where "connections h iid = Some a" and "Online h iid" and "length (buffer (messages (conns h ! a))) = 16"
      and "Send iid message h = Some (False, h\<lparr>conns := (conns h)[a := shut (conns h ! a)]\<rparr>)"
proof (cases "Online h iid")
  case False
  then show ?thesis by (intro offline) (auto simp: Send_def Online_def Let_def split: option.splits)
next
  case True
  then obtain a where a: "connections h iid = Some a" "\<not> closed (conns h ! a)"
    by (auto simp: Online_def split: option.splits)
  with ok have len: "a < length (ress h)" "a < length (conns h)"
    by (auto simp: hub_ok_def objects_ok_def attached_ok_def)
  with ok have c: "conn_ok (conns h ! a)" by (simp add: hub_ok_def objects_ok_def)
  show ?thesis
  proof (cases "length (buffer (messages (conns h ! a))) < 16")
    case less: True
    then show ?thesis
      using a c True by (intro sent [of a]) (auto simp: Send_def Let_def try_send_def conn_ok_def)
  next
    case False
    with c have "length (buffer (messages (conns h ! a))) = 16" by (simp add: conn_ok_def within_capacity_def)
    moreover have "Send iid message h = Some (False, h\<lparr>conns := (conns h)[a := shut (conns h ! a)]\<rparr>)"
      using a c False ok closeConnection_shut [OF _ len(1)]
      by (simp add: Send_def Let_def try_send_def conn_ok_def hub_ok_def)
    ultimately show ?thesis using a True full by blast
  qed
qed

lemma conn_ok_buffer:
  "conn_ok c \<Longrightarrow> length ms \<le> 16 \<Longrightarrow> conn_ok (c\<lparr>messages := (messages c)\<lparr>buffer := ms\<rparr>\<rparr>)"
  by (simp add: conn_ok_def within_capacity_def)

lemma Send_ok:
  assumes ok: "hub_ok h" and st: "Send iid message h = Some (d, h')"
  shows "hub_ok h'"
  using ok
proof (cases rule: Send_cases [where iid = iid and message = message])
  case offline
  with ok st show ?thesis by simp
next
  case (sent a)
  with ok have "a < length (ress h)" "\<not> closed (conns h ! a)"
    by (auto simp: hub_ok_def attached_ok_def Online_def)
  moreover then have "conn_ok (conns h ! a)" using ok by (simp add: hub_ok_def objects_ok_def)
  ultimately have "hub_ok (h\<lparr>conns := (conns h)[a := (conns h ! a)\<lparr>messages :=
        (messages (conns h ! a))\<lparr>buffer := buffer (messages (conns h ! a)) @ [message]\<rparr>\<rparr>]\<rparr>)"
    using ok sent by (intro hub_ok_conns conn_ok_buffer) auto
  with sent st show ?thesis by simp
next
  case (full a)
  with ok have "a < length (ress h)" "\<not> is_pending h a" by (auto simp: hub_ok_def attached_ok_def)
  moreover then have "conn_ok (conns h ! a)" using ok by (simp add: hub_ok_def objects_ok_def)
  ultimately have "hub_ok (h\<lparr>conns := (conns h)[a := shut (conns h ! a)]\<rparr>)"
    using ok by (intro hub_ok_conns) simp_all
  with full st show ?thesis by simp
qed

lemma take_message_eq:
  "take_message a h = Some (m, h') \<longleftrightarrow> (\<exists>ms. buffer (messages (conns h ! a)) = m # ms \<and>
     h' = h\<lparr>conns := (conns h)[a := (conns h ! a)\<lparr>messages := (messages (conns h ! a))\<lparr>buffer := ms\<rparr>\<rparr>]\<rparr>)"
  by (cases "buffer (messages (conns h ! a))") (auto simp: take_message_def try_recv_def)

lemma take_message_ok:
  assumes ok: "hub_ok h" and a: "a < length (ress h)" and st: "take_message a h = Some (m, h')"
  shows "hub_ok h'"
proof -
  from st obtain ms where ms: "buffer (messages (conns h ! a)) = m # ms"
    and h': "h' = h\<lparr>conns := (conns h)[a := (conns h ! a)\<lparr>messages := (messages (conns h ! a))\<lparr>buffer := ms\<rparr>\<rparr>]\<rparr>"
    by (auto simp: take_message_eq)
  have c: "conn_ok (conns h ! a)" using ok a by (simp add: hub_ok_def objects_ok_def)
  with ms have "length ms \<le> 16" by (simp add: conn_ok_def within_capacity_def)
  with c ok show ?thesis unfolding h' by (intro hub_ok_conns conn_ok_buffer) auto
qed

end
