(* ===== verification/HubRuns.thy ===== *)
theory HubRuns
  imports Hub
begin

text \<open>
  Runs of the hub: any number of goroutines call its operations in any order.  \<open>hub_step\<close> is one
  operation with what it returned, \<open>hub_run\<close> the states reachable from \<open>NewHub\<close> with the trace that
  led there.  The theorems are about every reachable state and every trace.
\<close>

section \<open>Steps and runs\<close>

datatype hub_event =
    Reserved string "nat option"
  | Activated nat bool
  | Detached nat bool
  | Canceled nat
  | Revoked string nat
  | Released nat
  | SentTo string HostMessage "nat option"
  | Taken nat HostMessage

text \<open>A goroutine only has pointers the hub gave out, so every pointer is in range.\<close>

inductive hub_step :: "Hub \<Rightarrow> hub_event \<Rightarrow> Hub \<Rightarrow> bool" where
  reserve: "Reserve iid h = (x, h') \<Longrightarrow> hub_step h (Reserved iid x) h'"
| activate: "r < length (ress h) \<Longrightarrow> Activate r h = Some (ok, h') \<Longrightarrow> hub_step h (Activated r ok) h'"
| detach: "r < length (ress h) \<Longrightarrow> detach r h = Some (ok, h') \<Longrightarrow> hub_step h (Detached r ok) h'"
| cancel: "r < length (ress h) \<Longrightarrow> Cancel r h = Some h' \<Longrightarrow> hub_step h (Canceled r) h'"
| revoke: "Revoke iid h = Some (k, h') \<Longrightarrow> hub_step h (Revoked iid k) h'"
| release: "k < length (revocations h) \<Longrightarrow> hub_step h (Released k) (release k h)"
| send: "Send iid m h = Some (d, h') \<Longrightarrow> hub_step h (SentTo iid m (if d then connections h iid else None)) h'"
| take_message: "a < length (ress h) \<Longrightarrow> take_message a h = Some (m, h') \<Longrightarrow> hub_step h (Taken a m) h'"

inductive hub_run :: "hub_event list \<Rightarrow> Hub \<Rightarrow> bool" where
  start: "hub_run [] NewHub"
| more: "hub_run tr h \<Longrightarrow> hub_step h e h' \<Longrightarrow> hub_run (tr @ [e]) h'"

inductive_cases hub_step_ReservedE: "hub_step h (Reserved iid x) h'"
inductive_cases hub_step_RevokedE: "hub_step h (Revoked iid k) h'"

lemma hub_step_ok:
  assumes "hub_step h e h'" and "hub_ok h"
  shows "hub_ok h'"
  using assms
proof (cases rule: hub_step.cases)
  case (activate r ok)
  from assms(2) activate(2) show ?thesis by (cases rule: Activate_cases) (use activate in auto)
next
  case (detach r ok)
  from assms(2) detach(2) show ?thesis by (cases rule: detach_cases) (use detach assms in auto)
next
  case (cancel r)
  from assms(2) cancel(2) show ?thesis by (rule Cancel_ok) (use cancel in auto)
next
  case (revoke iid k)
  from assms(2) show ?thesis by (rule Revoke_ok [of _ iid]) (use revoke in auto)
qed (auto intro: Reserve_ok release_ok Send_ok take_message_ok)

lemma hub_run_ok: "hub_run tr h \<Longrightarrow> hub_ok h"
  by (induction rule: hub_run.induct) (auto intro: hub_ok_NewHub hub_step_ok)

text \<open>A suffix of a run.\<close>

inductive hub_steps :: "Hub \<Rightarrow> hub_event list \<Rightarrow> Hub \<Rightarrow> bool" where
  none: "hub_steps h [] h"
| some: "hub_step h e h' \<Longrightarrow> hub_steps h' tr h'' \<Longrightarrow> hub_steps h (e # tr) h''"

lemma hub_steps_run: "hub_steps h tr' h' \<Longrightarrow> hub_run tr h \<Longrightarrow> hub_run (tr @ tr') h'"
  by (induction arbitrary: tr rule: hub_steps.induct) (simp, metis append.assoc append_Cons append_Nil hub_run.more)


section \<open>What a step does to a reservation\<close>

definition attached :: "Hub \<Rightarrow> nat \<Rightarrow> bool" where
  "attached h r \<longleftrightarrow> connections h (res_id (ress h ! r)) = Some r"

text \<open>
  For a reservation that exists: it keeps its identifier, it never starts to wait again, and it
  becomes attached only by being activated, which ends its waiting.
\<close>

definition moves_on :: "hub_event \<Rightarrow> Hub \<Rightarrow> Hub \<Rightarrow> nat \<Rightarrow> bool" where
  "moves_on e h h' r \<longleftrightarrow> res_id (ress h' ! r) = res_id (ress h ! r) \<and> (is_pending h' r \<longrightarrow> is_pending h r) \<and>
     (attached h' r \<longrightarrow> attached h r \<or> e = Activated r True) \<and>
     (e = Activated r True \<longrightarrow> is_pending h r \<and> \<not> is_pending h' r) \<and>
     (e = Detached r True \<longrightarrow> attached h r \<and> \<not> attached h' r)"

lemma moves_on_same_ids:
  assumes "\<And>q. res_id (ress h' ! q) = res_id (ress h ! q)" and "connections h' = connections h"
    and "\<And>q. is_pending h' q \<Longrightarrow> is_pending h q" and "\<And>q b. e \<noteq> Activated q True" and "\<And>q. e \<noteq> Detached q True"
  shows "moves_on e h h' r"
  using assms by (simp add: moves_on_def attached_def)

lemma update_same_id: "res_id ((ress h)[r := (ress h ! r)\<lparr>canceled := True\<rparr>] ! q) = res_id (ress h ! q)"
  by (cases "r < length (ress h)") (auto simp: nth_list_update list_update_beyond)

lemma Activate_moves_on:
  assumes ok: "hub_ok h" and q: "q < length (ress h)" and act: "Activate q h = Some (b, h')"
  shows "ress h' = ress h \<and> moves_on (Activated q b) h h' r"
  using ok q
proof (cases rule: Activate_cases)
  case (refused h2)
  with act have h': "h' = (drop_pending q h)\<lparr>conns := (conns h)[q := shut (conns h ! q)]\<rparr>" and "\<not> b" by auto
  have "is_pending h' s = is_pending (drop_pending q h) s" for s
    by (simp add: h' is_pending_def)
  then have "moves_on (Activated q b) h h' r"
    using \<open>\<not> b\<close> by (intro moves_on_same_ids) (simp_all add: h' is_pending_drop)
  then show ?thesis by (simp add: h')
next
  case (attached h2)
  with act have maps: "connections h' = (connections h)(res_id (ress h ! q) \<mapsto> q)"
      "pending h' = pending (drop_pending q h)" "ress h' = ress h" and "b" by auto
  then have "is_pending h' s = is_pending (drop_pending q h) s" for s
    by (simp add: is_pending_def)
  then have pend: "is_pending h' s = (is_pending h s \<and> s \<noteq> q)" for s
    by (simp add: is_pending_drop)
  have "HubRuns.attached h' r \<Longrightarrow> HubRuns.attached h r \<or> r = q"
    by (simp add: HubRuns.attached_def maps split: if_splits)
  then have "moves_on (Activated q True) h h' r"
    using attached(3) by (auto simp: moves_on_def maps(3) pend)
  then show ?thesis using \<open>b\<close> by (simp add: maps(3))
qed

lemma detach_moves_on:
  assumes ok: "hub_ok h" and q: "q < length (ress h)" and det: "detach q h = Some (b, h')"
  shows "ress h' = ress h \<and> moves_on (Detached q b) h h' r"
  using ok q
proof (cases rule: detach_cases)
  case refused
  with det show ?thesis by (auto intro!: moves_on_same_ids)
next
  case (detached h2)
  with det have maps: "connections h' = (connections h)(res_id (ress h ! q) := None)"
      "pending h' = pending h" "ress h' = ress h" and "b" by auto
  then have pend: "is_pending h' s = is_pending h s" for s
    by (simp add: is_pending_def)
  have "attached h' r \<Longrightarrow> attached h r \<and> r \<noteq> q"
    by (auto simp: attached_def maps split: if_splits)
  moreover have "attached h q" using detached(3) by (simp only: attached_def)
  ultimately have "moves_on (Detached q True) h h' r"
    by (auto simp: moves_on_def maps(3) pend)
  then show ?thesis using \<open>b\<close> by (simp add: maps(3))
qed

lemma Cancel_moves_on:
  assumes ok: "hub_ok h" and q: "q < length (ress h)" and can: "Cancel q h = Some h'"
  shows "length (ress h') = length (ress h) \<and> moves_on (Canceled q) h h' r"
proof -
  from ok q obtain h2 where "Cancel q h = Some h2"
    and h2: "h2 = (drop_pending q h)\<lparr>ress := (ress h)[q := (ress h ! q)\<lparr>canceled := True\<rparr>], conns := (conns h)[q := shut (conns h ! q)]\<rparr>"
    by (rule Cancel_ok)
  with can have h': "h' = h2" by simp
  have "is_pending h' s \<Longrightarrow> is_pending h s" for s
    using is_pending_drop [of q h s] by (simp add: h' h2 is_pending_def update_same_id)
  then have "moves_on (Canceled q) h h' r"
    by (rule moves_on_same_ids [rotated 2]) (simp_all add: h' h2 update_same_id)
  then show ?thesis by (simp add: h' h2)
qed

lemma Revoke_effect:
  assumes ok: "hub_ok h" and rev: "Revoke iid h = Some (k, h')"
  shows "connections h' = (connections h)(iid := None)" and "pending h' = (pending h)(iid := None)"
    and "length (ress h') = length (ress h)" and "revocations h' = revocations h @ [(iid, False)]"
    and "q < length (ress h) \<Longrightarrow> res_id (ress h' ! q) = res_id (ress h ! q)"
    and "q < length (ress h) \<Longrightarrow> buffer (messages (conns h' ! q)) = buffer (messages (conns h ! q))"
    and "k = length (revocations h)"
  using ok by (rule Revoke_ok [of h iid], use rev in \<open>auto simp: same_frame_def\<close>)+

lemma hub_step_moves_on:
  assumes st: "hub_step h e h'" and ok: "hub_ok h" and r: "r < length (ress h)"
  shows "length (ress h) \<le> length (ress h') \<and> moves_on e h h' r"
  using st
proof (cases rule: hub_step.cases)
  case (reserve iid x)
  then show ?thesis
    using r by (auto simp: Reserve_def Let_def moves_on_def attached_def is_pending_def nth_append
        split: if_splits option.splits)
next
  case (activate q b)
  then show ?thesis using Activate_moves_on [OF ok activate(2,3)] by simp
next
  case (detach q b)
  then show ?thesis using detach_moves_on [OF ok detach(2,3)] by simp
next
  case (cancel q)
  then show ?thesis using Cancel_moves_on [OF ok cancel(2,3)] by simp
next
  case (revoke iid k)
  note eff = Revoke_effect [OF ok revoke(2)]
  show ?thesis
    using revoke(1) r eff(1,2,3) eff(5) [of r]
    by (auto simp: moves_on_def attached_def is_pending_def split: if_splits option.splits)
next
  case (release k)
  then have "connections h' = connections h" "pending h' = pending h" "ress h' = ress h"
    by (auto simp: release_def Let_def split: prod.splits)
  with release show ?thesis by (auto intro!: moves_on_same_ids simp: is_pending_def)
next
  case (send iid m d)
  from ok have "connections h' = connections h \<and> pending h' = pending h \<and> ress h' = ress h"
    by (cases rule: Send_cases [where iid = iid and message = m]) (use send in auto)
  with send show ?thesis by (auto intro!: moves_on_same_ids simp: is_pending_def)
next
  case (take_message a m)
  then have "connections h' = connections h" "pending h' = pending h" "ress h' = ress h"
    by (auto simp: take_message_eq)
  with take_message show ?thesis by (auto intro!: moves_on_same_ids simp: is_pending_def)
qed

text \<open>A reservation that no longer waits never waits again.\<close>

lemma spent_stays_spent:
  assumes "hub_steps h tr h'" and "hub_ok h" and "r < length (ress h)" and "\<not> is_pending h r"
  shows "r < length (ress h') \<and> \<not> is_pending h' r \<and> res_id (ress h' ! r) = res_id (ress h ! r) \<and> hub_ok h'"
  using assms
proof (induction rule: hub_steps.induct)
  case (none h)
  then show ?case by simp
next
  case (some h e h1 tr h2)
  have "length (ress h) \<le> length (ress h1) \<and> moves_on e h h1 r"
    using some.hyps(1) some.prems by (intro hub_step_moves_on)
  moreover have "hub_ok h1" using some.hyps(1) some.prems(1) by (rule hub_step_ok)
  ultimately show ?case using some.IH some.prems by (simp add: moves_on_def)
qed

lemma spent_not_attached:
  assumes "hub_ok h" and "r < length (ress h)" and "\<not> is_pending h r"
  shows "\<exists>h'. Activate r h = Some (False, h')"
  using assms(1,2) by (cases rule: Activate_cases) (use assms(3) in auto)


section \<open>Ownership of a connection\<close>

definition activations :: "nat \<Rightarrow> hub_event list \<Rightarrow> nat" where
  "activations r tr = length (filter (\<lambda>e. e = Activated r True) tr)"

definition detachments :: "nat \<Rightarrow> hub_event list \<Rightarrow> nat" where
  "detachments r tr = length (filter (\<lambda>e. e = Detached r True) tr)"

lemma activations_snoc: "activations r (tr @ [e]) = activations r tr + (if e = Activated r True then 1 else 0)"
  by (simp add: activations_def)

lemma detachments_snoc: "detachments r (tr @ [e]) = detachments r tr + (if e = Detached r True then 1 else 0)"
  by (simp add: detachments_def)

lemma hub_step_new:
  assumes "hub_step h e h'" and "hub_ok h" and "length (ress h) \<le> r" and "r < length (ress h')"
  shows "\<not> attached h' r" and "e \<noteq> Activated r True" and "e \<noteq> Detached r True"
proof -
  obtain iid x where e: "e = Reserved iid x" "Reserve iid h = (x, h')"
    using assms(1)
  proof (cases rule: hub_step.cases)
    case (activate q b)
    with assms show ?thesis using Activate_moves_on [of h q b h'] by simp
  next
    case (detach q b)
    with assms show ?thesis using detach_moves_on [of h q b h'] by simp
  next
    case (cancel q)
    with assms show ?thesis using Cancel_moves_on [of h q h'] by simp
  next
    case (revoke iid k)
    with assms show ?thesis using Revoke_effect(3) [of h iid k h'] by simp
  next
    case (release k)
    with assms(3,4) show ?thesis by (simp add: release_def Let_def split: prod.splits if_splits)
  next
    case (send iid m d)
    from assms(2) have "ress h' = ress h"
      by (cases rule: Send_cases [where iid = iid and message = m]) (use send in auto)
    with assms(3,4) show ?thesis by simp
  next
    case (take_message a m)
    with assms(3,4) show ?thesis by (auto simp: take_message_eq)
  qed
  show "e \<noteq> Activated r True" "e \<noteq> Detached r True" by (simp_all add: e)
  have "connections h' = connections h" using e(2) by (auto simp: Reserve_def Let_def split: if_splits)
  moreover have "connections h i \<noteq> Some r" for i
    using assms(2,3) by (auto simp: hub_ok_def attached_ok_def dest: leD)
  ultimately show "\<not> attached h' r" by (simp add: attached_def)
qed

lemma run_pointers:
  assumes "hub_run tr h"
  shows "\<forall>e\<in>set tr. \<forall>r. e = Activated r True \<or> e = Detached r True \<longrightarrow> r < length (ress h)"
  using assms
proof (induction rule: hub_run.induct)
  case start
  then show ?case by simp
next
  case (more tr h e h')
  have len: "length (ress h) \<le> length (ress h')"
  proof (cases "ress h")
    case (Cons x xs)
    then show ?thesis using hub_step_moves_on [OF more.hyps(2) hub_run_ok [OF more.hyps(1)], of 0] by simp
  qed simp
  have "r < length (ress h)" if "e = Activated r True \<or> e = Detached r True" for r
    using more.hyps(2) that by (auto elim: hub_step.cases)
  with more.IH len show ?case by (auto intro: less_le_trans)
qed

text \<open>Each reservation is activated at most once, and detached no more often than activated.\<close>

lemma run_counts:
  assumes "hub_run tr h" and "r < length (ress h)"
  shows "activations r tr + (if is_pending h r then 1 else 0) \<le> 1 \<and>
    detachments r tr + (if attached h r then 1 else 0) \<le> activations r tr"
  using assms
proof (induction rule: hub_run.induct)
  case start
  then show ?case by (simp add: NewHub_def)
next
  case (more tr h e h')
  have ok: "hub_ok h" using more.hyps(1) by (rule hub_run_ok)
  show ?case
  proof (cases "r < length (ress h)")
    case True
    have "moves_on e h h' r" using hub_step_moves_on [OF more.hyps(2) ok True] by simp
    with more.IH [OF True] show ?thesis
      by (auto simp: activations_snoc detachments_snoc moves_on_def split: if_splits)
  next
    case False
    then have none: "activations r tr = 0" "detachments r tr = 0"
      using run_pointers [OF more.hyps(1)] by (auto simp: activations_def detachments_def filter_empty_conv)
    show ?thesis
      using hub_step_new [OF more.hyps(2) ok _ more.prems] False
      by (simp add: activations_snoc detachments_snoc none)
  qed
qed


section \<open>Order of messages\<close>

fun sent_by :: "nat \<Rightarrow> hub_event \<Rightarrow> HostMessage list" where
  "sent_by a (SentTo iid m (Some b)) = (if b = a then [m] else [])"
| "sent_by a _ = []"

fun taken_by :: "nat \<Rightarrow> hub_event \<Rightarrow> HostMessage list" where
  "taken_by a (Taken b m) = (if b = a then [m] else [])"
| "taken_by a _ = []"

definition sent_to :: "nat \<Rightarrow> hub_event list \<Rightarrow> HostMessage list" where
  "sent_to a tr = concat (map (sent_by a) tr)"

definition taken_from :: "nat \<Rightarrow> hub_event list \<Rightarrow> HostMessage list" where
  "taken_from a tr = concat (map (taken_by a) tr)"

definition buffered :: "Hub \<Rightarrow> nat \<Rightarrow> HostMessage list" where
  "buffered h a = (if a < length (conns h) then buffer (messages (conns h ! a)) else [])"

lemma shut_update_buffer [simp]:
  "buffer (messages (cs[b := shut (cs ! b)] ! a)) = buffer (messages (cs ! a))"
  by (cases "b < length cs") (auto simp: nth_list_update list_update_beyond)

lemma buffered_shut: "buffered (h\<lparr>conns := (conns h)[b := shut (conns h ! b)]\<rparr>) a = buffered h a"
  by (simp add: buffered_def)

lemma buffered_cong: "conns h' = conns h \<Longrightarrow> buffered h' a = buffered h a"
  by (simp add: buffered_def)

lemma buffered_upd:
  assumes "b < length (conns h)"
  shows "buffered (h\<lparr>conns := (conns h)[b := (conns h ! b)\<lparr>messages := (messages (conns h ! b))\<lparr>buffer := ms\<rparr>\<rparr>]\<rparr>) a =
    (if a = b then ms else buffered h a)"
  using assms by (auto simp: buffered_def nth_list_update)

lemma Activate_buffered:
  assumes "hub_ok h" and "q < length (ress h)" and "Activate q h = Some (b, h')"
  shows "buffered h' a = buffered h a"
  using assms(1,2)
proof (cases rule: Activate_cases)
  case (refused h2)
  with assms(3) have "conns h' = (conns h)[q := shut (conns h ! q)]" by auto
  then show ?thesis by (simp add: buffered_def)
next
  case (attached h2)
  with assms(3) have "conns h' = (case connections h (res_id (ress h ! q)) of None \<Rightarrow> conns h | Some a \<Rightarrow> (conns h)[a := shut (conns h ! a)])"
    by auto
  then show ?thesis by (simp add: buffered_def split: option.splits)
qed

lemma Send_buffered:
  assumes ok: "hub_ok h" and st: "Send iid m h = Some (d, h')"
  shows "buffered h' a = buffered h a @ sent_by a (SentTo iid m (if d then connections h iid else None))"
  using ok
proof (cases rule: Send_cases [where iid = iid and message = m])
  case offline
  with st show ?thesis by simp
next
  case (sent b)
  with ok have "b < length (conns h)" by (auto simp: hub_ok_def objects_ok_def attached_ok_def)
  moreover from this have "buffered h b = buffer (messages (conns h ! b))" by (simp add: buffered_def)
  ultimately show ?thesis using sent st buffered_upd [of b h _ a] by auto
next
  case (full b)
  with st show ?thesis using buffered_shut [of h b a] by simp
qed

lemma hub_step_buffered:
  assumes st: "hub_step h e h'" and ok: "hub_ok h"
  shows "buffered h a @ sent_by a e = taken_by a e @ buffered h' a"
  using st
proof (cases rule: hub_step.cases)
  case (reserve iid x)
  then show ?thesis by (auto simp: Reserve_def Let_def buffered_def nth_append split: if_splits)
next
  case (activate q b)
  then show ?thesis using Activate_buffered [OF ok activate(2,3), of a] by simp
next
  case (detach q b)
  from ok detach(2) have "conns h' = conns h \<or> conns h' = (conns h)[q := shut (conns h ! q)]"
    by (cases rule: detach_cases) (use detach in auto)
  then have "buffered h' a = buffered h a" by (auto simp: buffered_def)
  with detach show ?thesis by simp
next
  case (cancel q)
  from ok cancel(2) have "conns h' = (conns h)[q := shut (conns h ! q)]"
    by (rule Cancel_ok) (use cancel in auto)
  with cancel show ?thesis by (simp add: buffered_def)
next
  case (revoke iid k)
  have "hub_ok h'" using st ok by (rule hub_step_ok)
  with ok have "length (conns h) = length (ress h)" "length (conns h') = length (ress h')"
    by (simp_all add: hub_ok_def objects_ok_def)
  with revoke show ?thesis using Revoke_effect(3,6) [OF ok revoke(2)] by (simp add: buffered_def)
next
  case (release k)
  then have "conns h' = conns h" by (auto simp: release_def Let_def split: prod.splits)
  then have "buffered h' a = buffered h a" by (rule buffered_cong)
  with release show ?thesis by simp
next
  case (send iid m d)
  then show ?thesis using Send_buffered [OF ok send(2), of a] by simp
next
  case (take_message b m)
  then obtain ms where ms: "buffer (messages (conns h ! b)) = m # ms"
    and h': "h' = h\<lparr>conns := (conns h)[b := (conns h ! b)\<lparr>messages := (messages (conns h ! b))\<lparr>buffer := ms\<rparr>\<rparr>]\<rparr>"
    by (auto simp: take_message_eq)
  have b: "b < length (conns h)" using take_message(2) ok by (simp add: hub_ok_def objects_ok_def)
  then have "buffered h b = m # ms" using ms by (simp add: buffered_def)
  moreover have "buffered h' a = (if a = b then ms else buffered h a)"
    unfolding h' by (rule buffered_upd [OF b])
  ultimately show ?thesis using take_message(1) by simp
qed

lemma run_fifo: "hub_run tr h \<Longrightarrow> sent_to a tr = taken_from a tr @ buffered h a"
proof (induction rule: hub_run.induct)
  case start
  then show ?case by (simp add: sent_to_def taken_from_def buffered_def NewHub_def)
next
  case (more tr h e h')
  have "buffered h a @ sent_by a e = taken_by a e @ buffered h' a"
    using more.hyps(2) hub_run_ok [OF more.hyps(1)] by (rule hub_step_buffered)
  with more.IH show ?case by (simp add: sent_to_def taken_from_def)
qed


section \<open>What the hub guarantees\<close>

text \<open>A run for the examples: one agent attaches, a second reservation waits, a message is sent.\<close>

definition example_h1 :: Hub where "example_h1 = snd (Reserve ''a'' NewHub)"
definition example_h2 :: Hub where "example_h2 = snd (the (Activate 0 example_h1))"
definition example_h3 :: Hub where "example_h3 = snd (Reserve ''a'' example_h2)"
definition example_h4 :: Hub where "example_h4 = snd (the (Send ''a'' NoHostBody example_h3))"
definition example_h5 :: Hub where "example_h5 = snd (the (Revoke ''a'' example_h4))"
definition example_h6 :: Hub where "example_h6 = release 0 example_h5"

lemmas hub_eval = NewHub_def Reserve_def Activate_def Send_def Revoke_def release_def detach_def Let_def
  drop_pending_def is_pending_def blocked_count_def closeConnection_def cancel_reservation_def make_chan_def
  close_chan_def try_send_def

lemma example_states:
  "Reserve ''a'' NewHub = (Some 0, example_h1)" "Activate 0 example_h1 = Some (True, example_h2)"
  "Reserve ''a'' example_h2 = (Some 1, example_h3)" "Send ''a'' NoHostBody example_h3 = Some (True, example_h4)"
  "Revoke ''a'' example_h4 = Some (0, example_h5)"
  "length (ress example_h1) = 1" "length (ress example_h4) = 2" "length (revocations example_h5) = 1"
  "connections example_h3 ''a'' = Some 0" "res_id (ress example_h4 ! 1) = ''a''" "revocations example_h5 ! 0 = (''a'', False)"
  by (simp_all add: hub_eval example_h1_def example_h2_def example_h3_def example_h4_def example_h5_def)

lemma example_run4:
  "hub_run [Reserved ''a'' (Some 0), Activated 0 True, Reserved ''a'' (Some 1), SentTo ''a'' NoHostBody (Some 0)] example_h4"
proof -
  have "hub_run [Reserved ''a'' (Some 0)] example_h1"
    using hub_run.more [OF hub_run.start hub_step.reserve [OF example_states(1)]] by simp
  from hub_run.more [OF this hub_step.activate [OF _ example_states(2)]]
  have "hub_run [Reserved ''a'' (Some 0), Activated 0 True] example_h2" by (simp add: example_states)
  from hub_run.more [OF this hub_step.reserve [OF example_states(3)]]
  have "hub_run [Reserved ''a'' (Some 0), Activated 0 True, Reserved ''a'' (Some 1)] example_h3" by simp
  from hub_run.more [OF this hub_step.send [OF example_states(4)]] show ?thesis by (simp add: example_states)
qed

lemma example_run5: "hub_run ([Reserved ''a'' (Some 0), Activated 0 True, Reserved ''a'' (Some 1),
    SentTo ''a'' NoHostBody (Some 0)] @ [Revoked ''a'' 0]) example_h5"
  by (rule hub_run.more [OF example_run4 hub_step.revoke [OF example_states(5)]])

text \<open>
  The hub never panics: in every reachable state every operation returns; in particular no
  channel is closed twice and nothing is sent on a closed channel, although connections are closed
  by replacement, backpressure, cancellation, revocation and detaching in any order.
\<close>

theorem hub_never_panics:
  assumes "hub_run tr h" and "r < length (ress h)"
  shows "Activate r h \<noteq> None \<and> detach r h \<noteq> None \<and> Cancel r h \<noteq> None \<and> Revoke iid h \<noteq> None \<and> Send iid m h \<noteq> None"
proof -
  have ok: "hub_ok h" using assms(1) by (rule hub_run_ok)
  have "Activate r h \<noteq> None" using ok assms(2) by (cases rule: Activate_cases) simp_all
  moreover have "detach r h \<noteq> None" using ok assms(2) by (cases rule: detach_cases) simp_all
  moreover have "Cancel r h \<noteq> None" using ok assms(2) by (rule Cancel_ok) simp
  moreover have "Revoke iid h \<noteq> None" using ok by (rule Revoke_ok [of h iid]) simp
  moreover have "Send iid m h \<noteq> None"
    using ok by (cases rule: Send_cases [where iid = iid and message = m]) simp_all
  ultimately show ?thesis by simp
qed

theorem hub_never_panics_witness:
  "Activate 1 example_h4 \<noteq> None \<and> Revoke ''a'' example_h4 \<noteq> None"
  using hub_never_panics [OF example_run4, of 1 "''a''" NoHostBody] by (simp add: example_states)

text \<open>
  C18.  Revocation excludes: an identifier has a revocation that was not released exactly when a new
  reservation of it is refused, and then it has no attached connection and no waiting reservation in
  the hub's maps, it is offline, no reservation of it can be activated, nothing is sent to it and no
  guarded action runs for it.
\<close>

theorem revoked_instance_excluded:
  assumes "hub_run tr h"
  shows "(0 < active_revocations h iid \<longleftrightarrow> fst (Reserve iid h) = None) \<and>
    (0 < active_revocations h iid \<longrightarrow> connections h iid = None \<and> pending h iid = None \<and>
       \<not> Online h iid \<and> Send iid m h = Some (False, h) \<and>
       IfNotRevoked h iid action w = (False, w) \<and> IfOnline h iid action w = (False, w) \<and>
       (\<forall>r<length (ress h). res_id (ress h ! r) = iid \<longrightarrow> (\<exists>h'. Activate r h = Some (False, h'))))"
proof -
  have ok: "hub_ok h" using assms by (rule hub_run_ok)
  then have count: "blocked_count h iid = int (active_revocations h iid)"
    and gone: "0 < active_revocations h iid \<Longrightarrow> connections h iid = None \<and> pending h iid = None"
    by (simp_all add: hub_ok_def revoked_ok_def)
  have act: "\<exists>h'. Activate r h = Some (False, h')"
    if "0 < active_revocations h iid" "r < length (ress h)" "res_id (ress h ! r) = iid" for r
    using that gone by (intro spent_not_attached ok) (simp_all add: is_pending_def)
  show ?thesis
    using count gone act
    by (auto simp: Reserve_def Let_def Online_def Send_def IfNotRevoked_def IfOnline_def)
qed

theorem revoked_instance_excluded_witness:
  "connections example_h5 ''a'' = None \<and> pending example_h5 ''a'' = None \<and> fst (Reserve ''a'' example_h5) = None"
proof -
  have "0 < active_revocations example_h5 ''a''"
    by (simp add: active_revocations_def hub_eval example_h1_def example_h2_def example_h3_def example_h4_def example_h5_def)
  with revoked_instance_excluded [OF example_run5, of "''a''" NoHostBody id "()"] show ?thesis by blast
qed

text \<open>
  C17.  A reservation made before a revocation never attaches, not even after the revocation was
  released: whatever steps follow, activating it fails.
\<close>

theorem revoked_reservation_never_attaches:
  assumes "hub_run tr h" and "r < length (ress h)" and "res_id (ress h ! r) = iid"
    and "hub_step h (Revoked iid k) h1" and "hub_steps h1 tr' h'"
  shows "\<exists>h''. Activate r h' = Some (False, h'')"
proof -
  have ok: "hub_ok h" using assms(1) by (rule hub_run_ok)
  from assms(4) have rev: "Revoke iid h = Some (k, h1)" by (rule hub_step_RevokedE)
  have ok1: "hub_ok h1" using assms(4) ok by (rule hub_step_ok)
  have "r < length (ress h1)" "\<not> is_pending h1 r"
    using Revoke_effect(2,3,5) [OF ok rev] assms(2,3) by (simp_all add: is_pending_def)
  from spent_stays_spent [OF assms(5) ok1 this] show ?thesis by (intro spent_not_attached) simp_all
qed

theorem revoked_reservation_never_attaches_witness:
  "\<exists>h''. Activate 1 example_h6 = Some (False, h'')"
proof -
  have "hub_step example_h5 (Released 0) example_h6"
    unfolding example_h6_def by (rule hub_step.release) (simp add: example_states)
  then have "hub_steps example_h5 [Released 0] example_h6" by (auto intro: hub_steps.intros)
  with revoked_reservation_never_attaches [OF example_run4 _ _ hub_step.revoke [OF example_states(5)], of 1 "[Released 0]" example_h6]
  show ?thesis by (simp add: example_states [unfolded One_nat_def])
qed

text \<open>
  C19.  One owner per connection: in every run a reservation is activated at most once, and its
  \<open>detach\<close> returns true at most once, only after it was activated and only while its own connection is
  the attached one.  So each connection that is marked offline is marked offline once, by its own
  handler, and never by a handler that was replaced.
\<close>

theorem detach_owned_once:
  assumes "hub_run tr h" and "r < length (ress h)"
  shows "activations r tr \<le> 1 \<and> detachments r tr \<le> activations r tr \<and>
    (\<forall>h'. detach r h = Some (True, h') \<longrightarrow> attached h r \<and> detachments r tr < activations r tr \<and>
      connections h' (res_id (ress h ! r)) = None)"
proof -
  have ok: "hub_ok h" using assms(1) by (rule hub_run_ok)
  have counts: "activations r tr + (if is_pending h r then 1 else 0) \<le> 1"
    "detachments r tr + (if attached h r then 1 else 0) \<le> activations r tr"
    using run_counts [OF assms] by simp_all
  have "attached h r \<and> connections h' (res_id (ress h ! r)) = None" if "detach r h = Some (True, h')" for h'
    using ok assms(2) by (cases rule: detach_cases) (use that in \<open>simp_all add: attached_def\<close>)
  with counts show ?thesis by (auto split: if_splits)
qed

theorem detach_owned_once_witness:
  "activations 0 [Reserved ''a'' (Some 0), Activated 0 True, Reserved ''a'' (Some 1), SentTo ''a'' NoHostBody (Some 0)] = 1 \<and>
   attached example_h4 0"
proof -
  have "\<exists>h'. detach 0 example_h4 = Some (True, h')"
    by (simp add: hub_eval example_h1_def example_h2_def example_h3_def example_h4_def)
  with detach_owned_once [OF example_run4, of 0] show ?thesis by (auto simp: example_states activations_def)
qed

text \<open>
  Messages keep their order: what the serving goroutine of a connection has taken, followed by
  what waits in the buffer, is exactly what was sent to that connection, in order, and never more
  than 16 messages wait.
\<close>

theorem messages_in_order:
  assumes "hub_run tr h" and "a < length (conns h)"
  shows "sent_to a tr = taken_from a tr @ buffer (messages (conns h ! a)) \<and> length (buffer (messages (conns h ! a))) \<le> 16"
proof -
  have "conn_ok (conns h ! a)"
    using hub_run_ok [OF assms(1)] assms(2) by (simp add: hub_ok_def objects_ok_def)
  then show ?thesis
    using run_fifo [OF assms(1), of a] assms(2) by (simp add: buffered_def conn_ok_def within_capacity_def)
qed

theorem messages_in_order_witness:
  "buffer (messages (conns example_h4 ! 0)) = [NoHostBody]"
proof -
  have "0 < length (conns example_h4)"
    using hub_run_ok [OF example_run4] by (simp add: hub_ok_def objects_ok_def example_states)
  with messages_in_order [OF example_run4, of 0] show ?thesis by (simp add: sent_to_def taken_from_def)
qed

end
