(* ===== verification/Grpc.thy ===== *)
theory Grpc
  imports Prelude
begin

text \<open>
  gRPC status errors (\<open>google.golang.org/grpc/status\<close> and \<open>codes\<close>), as the control server and the
  agent use them: an error that carries a code, and any other error, whose code is \<open>Unknown\<close>.
\<close>

datatype code =
    OK
  | CanceledCode
  | Unknown
  | InvalidArgument
  | PermissionDenied
  | Unauthenticated
  | Aborted
  | Internal

datatype rpc_error =
    Status code string
  | ContextCanceled
  | DeadlineExceeded
  | EOF
  | Plain string

text \<open>\<open>status.Code(err)\<close>; a nil error is \<open>None\<close>.\<close>

definition status_code :: "rpc_error option \<Rightarrow> code" where
  "status_code err = (case err of None \<Rightarrow> OK | Some (Status c m) \<Rightarrow> c | Some _ \<Rightarrow> Unknown)"

end
