(* ===== verification/Control.thy ===== *)
theory Control
  imports Bus HubRuns Registry Grpc
begin

text \<open>
  \<open>internal/control/server.go\<close>: the control server, one goroutine per connected agent.  Its
  handler is split where other goroutines can run: each \<open>connect_\<close> definition is what happens
  between two such points.  The network is explicit: the first message, the peer's
  certificate, the message or error a turn of the loop selects, and which case of
  \<open>sendWhileConnected\<close> was ready are inputs.  \<open>None\<close> as the outer result is a panic of the bus or the
  hub.
\<close>

section \<open>Sending and publishing\<close>

text \<open>The case \<open>sendWhileConnected\<close> selects, with the errors of the context and of the stream.\<close>

datatype select = PickDisconnected | PickContext rpc_error | PickResult "rpc_error option"

definition sendWhileConnected :: "select \<Rightarrow> rpc_error option" where
  "sendWhileConnected pick = (case pick of
       PickDisconnected \<Rightarrow> Some (Status Aborted ''connection closed'')
     | PickContext err \<Rightarrow> Some err
     | PickResult err \<Rightarrow> err)"

definition publish ::
    "'db badger \<Rightarrow> instant \<Rightarrow> string \<Rightarrow> string \<Rightarrow> (string \<times> json) list \<Rightarrow> 'db \<times> Bus \<Rightarrow> ('db \<times> Bus) option" where
  "publish B now eventType resourceID data w = (case w of (s, b) \<Rightarrow>
     map_option (\<lambda>(r, s, b). (s, b))
       (Publish B now \<lparr>EventID = 0, EventType = eventType, ResourceID = resourceID, At = zero_time, Data = data\<rparr> s b))"

text \<open>The guarded action sets \<open>published\<close>, the first component of what it works on.\<close>

definition publishIfEnrolled ::
    "'db badger \<Rightarrow> instant \<Rightarrow> Hub \<Rightarrow> string \<Rightarrow> string \<Rightarrow> (string \<times> json) list \<Rightarrow> 'db \<times> Bus \<Rightarrow> (bool \<times> 'db \<times> Bus) option" where
  "publishIfEnrolled B now h eventType resourceID data w =
     (case IfNotRevoked h resourceID (\<lambda>(published, r).
        case r of None \<Rightarrow> (published, None) | Some (s, b) \<Rightarrow>
        (case lookup_instance B now resourceID s of
           Inr _ \<Rightarrow> (True, publish B now eventType resourceID data (s, b))
         | Inl _ \<Rightarrow> (published, Some (s, b)))) (False, Some w) of
      (guarded, published, r) \<Rightarrow> map_option (\<lambda>w. (if \<not> guarded then False else published, w)) r)"

definition offline_update :: "Instance \<Rightarrow> store_error + Instance" where
  "offline_update i = Inr (i\<lparr>Phase := ''offline''\<rparr>)"

definition markOffline :: "'db badger \<Rightarrow> instant \<Rightarrow> Hub \<Rightarrow> string \<Rightarrow> 'db \<times> Bus \<Rightarrow> ('db \<times> Bus) option" where
  "markOffline B now h iid w = snd (IfNotRevoked h iid (\<lambda>r.
     case r of None \<Rightarrow> None | Some (s, b) \<Rightarrow>
     (case UpdateInstance B now iid offline_update s of
        (Inr _, s) \<Rightarrow> publish B now ''instance.disconnected'' iid [] (s, b)
      | (Inl _, s) \<Rightarrow> Some (s, b))) (Some w))"

definition desiredMessage :: "Instance \<Rightarrow> HostMessage" where
  "desiredMessage i = DesiredMessage \<lparr>DesiredInstanceId = ID i, Generation = DesiredGeneration i,
     SpecDigest = DesiredDigest i, CanonicalSpecBytes = DesiredSpec i\<rparr>"


section \<open>Identity of the peer\<close>

record certificate =
  URIs :: "string list"

text \<open>The peer of the context: what is known of its TLS state, if it has one.\<close>

datatype peer = NoPeer | OtherAuth | TLSInfo "certificate list list"

definition authorizeInstance :: "peer \<Rightarrow> string \<Rightarrow> rpc_error option" where
  "authorizeInstance p iid = (case p of
       NoPeer \<Rightarrow> Some (Status Unauthenticated ''missing peer'')
     | OtherAuth \<Rightarrow> Some (Status Unauthenticated ''verified client certificate required'')
     | TLSInfo [] \<Rightarrow> Some (Status Unauthenticated ''verified client certificate required'')
     | TLSInfo ([] # _) \<Rightarrow> Some (Status Unauthenticated ''verified client certificate required'')
     | TLSInfo ((c # _) # _) \<Rightarrow>
         if \<exists>uri\<in>set (URIs c). EqualFold uri (''spiffe://ulcer/instance/'' @ iid) then None
         else Some (Status PermissionDenied ''certificate is not bound to instance''))"


section \<open>Messages of an agent\<close>

definition hello_update :: "instant \<Rightarrow> InstanceHello \<Rightarrow> Instance \<Rightarrow> store_error + Instance" where
  "hello_update now hello i =
     (let i = i\<lparr>LastSeenAt := Some now, AgentVersion := HelloAgentVersion hello, Capabilities := HelloCapabilities hello\<rparr> in
      Inr (if Phase i = ''enrolled'' \<or> Phase i = ''offline'' then i\<lparr>Phase := ''connected''\<rparr> else i))"

definition status_update :: "instant \<Rightarrow> InstanceStatus \<Rightarrow> Instance \<Rightarrow> store_error + Instance" where
  "status_update now st i =
     (if StatusAppliedGeneration st > DesiredGeneration i
        then Inl (StoreFailure ''applied generation exceeds desired generation'')
      else if StatusAppliedGeneration st = DesiredGeneration i \<and> StatusAppliedGeneration st > 0 \<and>
          StatusSpecDigest st \<noteq> DesiredDigest i
        then Inl (StoreFailure (''digest differs at generation '' @ show_nat (unat (StatusAppliedGeneration st))))
      else Inr (i\<lparr>LastSeenAt := Some now, AppliedGeneration := StatusAppliedGeneration st,
        AppliedDigest := StatusSpecDigest st, Phase := StatusPhase st, Reason := StatusReason st\<rparr>))"

definition not_enrolled :: rpc_error where
  "not_enrolled = Status PermissionDenied ''instance is not enrolled''"

text \<open>A status: the update of the store, then the event.\<close>

definition status_store ::
    "'db badger \<Rightarrow> instant \<Rightarrow> string \<Rightarrow> InstanceStatus \<Rightarrow> 'db \<Rightarrow> (rpc_error + Instance) \<times> 'db" where
  "status_store B now instanceID st s =
     (if StatusInstanceId st \<noteq> instanceID then (Inl (Status PermissionDenied ''status identity mismatch''), s)
      else case UpdateInstance B now instanceID (status_update now st) s of
          (Inl ErrNotFound, s) \<Rightarrow> (Inl not_enrolled, s)
        | (Inl e, s) \<Rightarrow> (Inl (Status InvalidArgument ''apply status''), s)
        | (Inr updated, s) \<Rightarrow> (Inr updated, s))"

definition status_publish ::
    "'db badger \<Rightarrow> instant \<Rightarrow> Hub \<Rightarrow> string \<Rightarrow> Instance \<Rightarrow> 'db \<times> Bus \<Rightarrow> (rpc_error option \<times> 'db \<times> Bus) option" where
  "status_publish B now h instanceID updated w =
     map_option (\<lambda>(published, w). (if published then None else Some not_enrolled, w))
       (publishIfEnrolled B now h ''instance.status'' instanceID
         [(''phase'', JStr (Phase updated)), (''generation'', JNum (uint (AppliedGeneration updated)))] w)"

text \<open>A batch of meters: the ledger, then the acknowledgement, then the event.\<close>

definition meter_mismatch :: "MeterBatch \<Rightarrow> bool" where
  "meter_mismatch m \<longleftrightarrow> (case Deltas m of
       [] \<Rightarrow> False
     | None # _ \<Rightarrow> True
     | Some d # _ \<Rightarrow> FirstSequence m = 0 \<or> FirstSequence m \<noteq> Sequence d)"

definition meters_store ::
    "'db badger \<Rightarrow> instant \<Rightarrow> string \<Rightarrow> MeterBatch \<Rightarrow> 'db \<Rightarrow> (rpc_error + u64) \<times> 'db" where
  "meters_store B now instanceID meters s =
     (if BatchInstanceId meters \<noteq> instanceID then (Inl (Status PermissionDenied ''meter identity mismatch''), s)
      else if meter_mismatch meters then (Inl (Status InvalidArgument ''meter batch first sequence mismatch''), s)
      else case ApplyMeters B now instanceID (Deltas meters) s of
          (Inl ErrNotFound, s) \<Rightarrow> (Inl not_enrolled, s)
        | (Inl e, s) \<Rightarrow> (Inl (Status Internal ''apply meters''), s)
        | (Inr ack, s) \<Rightarrow> (Inr ack, s))"

definition ack_message :: "string \<Rightarrow> u64 \<Rightarrow> HostMessage" where
  "ack_message instanceID ack = MeterAckMessage \<lparr>AckInstanceId = instanceID, ContiguousSequence = ack\<rparr>"

definition meters_publish ::
    "'db badger \<Rightarrow> instant \<Rightarrow> Hub \<Rightarrow> string \<Rightarrow> u64 \<Rightarrow> 'db \<times> Bus \<Rightarrow> (rpc_error option \<times> 'db \<times> Bus) option" where
  "meters_publish B now h instanceID ack w =
     map_option (\<lambda>(published, w). (if published then None else Some not_enrolled, w))
       (publishIfEnrolled B now h ''traffic.updated'' instanceID [(''sequence'', JNum (uint ack))] w)"

text \<open>The whole handler, run without an interruption.\<close>

definition handleMessage ::
    "'db badger \<Rightarrow> instant \<Rightarrow> Hub \<Rightarrow> string \<Rightarrow> InstanceMessage \<Rightarrow> select \<Rightarrow> 'db \<times> Bus \<Rightarrow>
     (rpc_error option \<times> HostMessage list \<times> 'db \<times> Bus) option" where
  "handleMessage B now h instanceID message sending w = (case w of (s, b) \<Rightarrow>
     case message of
       StatusMessage st \<Rightarrow> (case status_store B now instanceID st s of
           (Inl err, s) \<Rightarrow> Some (Some err, [], s, b)
         | (Inr updated, s) \<Rightarrow> map_option (\<lambda>(err, w). (err, [], w)) (status_publish B now h instanceID updated (s, b)))
     | MetersMessage meters \<Rightarrow> (case meters_store B now instanceID meters s of
           (Inl err, s) \<Rightarrow> Some (Some err, [], s, b)
         | (Inr ack, s) \<Rightarrow> (case sendWhileConnected sending of
               Some err \<Rightarrow> Some (Some err, [ack_message instanceID ack], s, b)
             | None \<Rightarrow> map_option (\<lambda>(err, w). (err, [ack_message instanceID ack], w))
                 (meters_publish B now h instanceID ack (s, b))))
     | HelloMessage hello \<Rightarrow> Some (Some (Status InvalidArgument ''hello can only be sent once''), [], w)
     | NoInstanceBody \<Rightarrow> Some (Some (Status InvalidArgument ''empty instance message''), [], w))"


section \<open>A connection\<close>

text \<open>
  The host: hub, database and bus.  \<open>session\<close> is what the goroutine of a connection keeps: the
  identifier of the hello, its reservation, and the instance as the store returned it.
\<close>

record 'db host =
  hub :: Hub
  db :: 'db
  bus :: Bus

record session =
  hello_id :: string
  reservation :: nat
  snapshot :: Instance

text \<open>
  Where the handler of a connection is between its steps: waiting for the hello; reserved; refused by
  the store; updated; attached; announced; serving, with the parts of \<open>handleMessage\<close> and of the
  outbound case that follow one another as states of their own; leaving through the deferred call;
  finished.
\<close>

datatype handler =
    Accepting
  | Reserving InstanceHello nat
  | Refused nat rpc_error
  | Updated session
  | Attached session
  | Withdrawing nat
  | Greeting session
  | Serving session
  | StatusStored session Instance
  | MetersStored session u64
  | MetersSent session u64
  | Forwarding session HostMessage
  | Leaving session "rpc_error option"
  | GoingOffline string "rpc_error option"
  | Finished "rpc_error option"

text \<open>What a turn of the loop selects after \<open>disconnected\<close> was found open.\<close>

datatype turn =
    TurnContext rpc_error
  | TurnDisconnected
  | TurnRecvError rpc_error
  | TurnRecv "InstanceMessage option"
  | TurnOutbound

text \<open>The first part of \<open>Connect\<close>: hello, authorization, reservation.\<close>

definition connect_accept :: "rpc_error + InstanceMessage \<Rightarrow> peer \<Rightarrow> 'db host \<Rightarrow> handler \<times> 'db host" where
  "connect_accept first p w = (case first of
       Inl err \<Rightarrow> (Finished (Some (Status InvalidArgument ''receive hello'')), w)
     | Inr m \<Rightarrow> (case GetHello m of
           None \<Rightarrow> (Finished (Some (Status InvalidArgument ''first message must be instance hello'')), w)
         | Some hello \<Rightarrow>
             if HelloInstanceId hello = []
               then (Finished (Some (Status InvalidArgument ''first message must be instance hello'')), w)
             else case authorizeInstance p (HelloInstanceId hello) of
                 Some err \<Rightarrow> (Finished (Some err), w)
               | None \<Rightarrow> (case Reserve (HelloInstanceId hello) (hub w) of
                     (None, h) \<Rightarrow> (Finished (Some (Status Aborted ''instance deletion is in progress'')), w\<lparr>hub := h\<rparr>)
                   | (Some r, h) \<Rightarrow> (Reserving hello r, w\<lparr>hub := h\<rparr>))))"

definition connect_update :: "'db badger \<Rightarrow> instant \<Rightarrow> InstanceHello \<Rightarrow> nat \<Rightarrow> 'db host \<Rightarrow> handler \<times> 'db host" where
  "connect_update B now hello r w = (case UpdateInstance B now (HelloInstanceId hello) (hello_update now hello) (db w) of
       (Inr i, s) \<Rightarrow> (Updated \<lparr>hello_id = HelloInstanceId hello, reservation = r, snapshot = i\<rparr>, w\<lparr>db := s\<rparr>)
     | (Inl ErrNotFound, s) \<Rightarrow> (Refused r not_enrolled, w\<lparr>db := s\<rparr>)
     | (Inl e, s) \<Rightarrow> (Refused r (Status Internal ''load instance''), w\<lparr>db := s\<rparr>))"

definition connect_cancel :: "nat \<Rightarrow> rpc_error \<Rightarrow> 'db host \<Rightarrow> (handler \<times> 'db host) option" where
  "connect_cancel r err w = map_option (\<lambda>h. (Finished (Some err), w\<lparr>hub := h\<rparr>)) (Cancel r (hub w))"

definition connect_activate :: "session \<Rightarrow> 'db host \<Rightarrow> (handler \<times> 'db host) option" where
  "connect_activate c w = map_option (\<lambda>(ok, h).
     (if ok then Attached c else Finished (Some (Status Aborted ''instance connection was revoked'')), w\<lparr>hub := h\<rparr>))
     (Activate (reservation c) (hub w))"

text \<open>If the event is not published, \<open>detach\<close> follows; it is a step of the hub of its own.\<close>

definition connect_announce :: "'db badger \<Rightarrow> instant \<Rightarrow> session \<Rightarrow> 'db host \<Rightarrow> (handler \<times> 'db host) option" where
  "connect_announce B now c w =
     map_option (\<lambda>(published, s, b).
       (if published then Greeting c else Withdrawing (reservation c), w\<lparr>db := s, bus := b\<rparr>))
       (publishIfEnrolled B now (hub w) ''instance.connected'' (ID (snapshot c))
         [(''name'', JStr (Name (snapshot c)))] (db w, bus w))"

text \<open>The connection whose announcement failed: \<open>detach()\<close>, whose result is not looked at.\<close>

definition connect_withdraw :: "nat \<Rightarrow> 'db host \<Rightarrow> (handler \<times> 'db host) option" where
  "connect_withdraw r w = map_option (\<lambda>(ok, h).
     (Finished (Some (Status Aborted ''instance connection was revoked'')), w\<lparr>hub := h\<rparr>)) (detach r (hub w))"

text \<open>After a send or a part of \<open>handleMessage\<close>: go on serving, or leave with the error.\<close>

definition continue :: "session \<Rightarrow> rpc_error option \<Rightarrow> handler" where
  "continue c err = (case err of None \<Rightarrow> Serving c | Some e \<Rightarrow> Leaving c (Some e))"

text \<open>The first desired state, if the instance has one; with the messages handed to the stream.\<close>

definition connect_greet :: "select \<Rightarrow> session \<Rightarrow> handler \<times> HostMessage list" where
  "connect_greet sending c =
     (if DesiredGeneration (snapshot c) > 0
      then (continue c (sendWhileConnected sending), [desiredMessage (snapshot c)])
      else (Serving c, []))"

definition disconnected :: "'db host \<Rightarrow> session \<Rightarrow> bool" where
  "disconnected w c \<longleftrightarrow> is_closed (conn_done (conns (hub w) ! reservation c))"

text \<open>
  The beginning of a turn: the check of \<open>disconnected\<close> and the case that is selected.  The outbound
  case is selected only when the channel has a message or is closed; otherwise nothing happens.
\<close>

definition connect_turn_host ::
    "'db badger \<Rightarrow> instant \<Rightarrow> turn \<Rightarrow> session \<Rightarrow> 'db host \<Rightarrow> handler \<times> 'db host" where
  "connect_turn_host B now t c w =
     (if disconnected w c then (Leaving c (Some (Status Aborted ''connection closed'')), w)
      else case t of
          TurnContext err \<Rightarrow> (Leaving c (Some err), w)
        | TurnDisconnected \<Rightarrow> (Leaving c (Some (Status Aborted ''connection closed'')), w)
        | TurnRecvError err \<Rightarrow> (Leaving c (if err = EOF then None else Some err), w)
        | TurnRecv None \<Rightarrow> (Leaving c None, w)
        | TurnRecv (Some (StatusMessage st)) \<Rightarrow> (case status_store B now (hello_id c) st (db w) of
              (Inl err, s) \<Rightarrow> (Leaving c (Some err), w\<lparr>db := s\<rparr>)
            | (Inr updated, s) \<Rightarrow> (StatusStored c updated, w\<lparr>db := s\<rparr>))
        | TurnRecv (Some (MetersMessage meters)) \<Rightarrow> (case meters_store B now (hello_id c) meters (db w) of
              (Inl err, s) \<Rightarrow> (Leaving c (Some err), w\<lparr>db := s\<rparr>)
            | (Inr ack, s) \<Rightarrow> (MetersStored c ack, w\<lparr>db := s\<rparr>))
        | TurnRecv (Some (HelloMessage hello)) \<Rightarrow> (Leaving c (Some (Status InvalidArgument ''hello can only be sent once'')), w)
        | TurnRecv (Some NoInstanceBody) \<Rightarrow> (Leaving c (Some (Status InvalidArgument ''empty instance message'')), w)
        | TurnOutbound \<Rightarrow>
            (case take_message (reservation c) (hub w) of
               Some (m, h) \<Rightarrow> (Forwarding c m, w\<lparr>hub := h\<rparr>)
             | None \<Rightarrow>
                 if is_closed (messages (conns (hub w) ! reservation c))
                 then (Leaving c (Some (Status Aborted ''connection replaced'')), w)
                 else (Serving c, w)))"

definition connect_status_event ::
    "'db badger \<Rightarrow> instant \<Rightarrow> session \<Rightarrow> Instance \<Rightarrow> 'db host \<Rightarrow> (handler \<times> 'db host) option" where
  "connect_status_event B now c updated w = map_option (\<lambda>(err, s, b). (continue c err, w\<lparr>db := s, bus := b\<rparr>))
     (status_publish B now (hub w) (hello_id c) updated (db w, bus w))"

definition connect_ack :: "select \<Rightarrow> session \<Rightarrow> u64 \<Rightarrow> handler \<times> HostMessage list" where
  "connect_ack sending c ack =
     (case sendWhileConnected sending of None \<Rightarrow> MetersSent c ack | Some err \<Rightarrow> Leaving c (Some err),
      [ack_message (hello_id c) ack])"

definition connect_meters_event ::
    "'db badger \<Rightarrow> instant \<Rightarrow> session \<Rightarrow> u64 \<Rightarrow> 'db host \<Rightarrow> (handler \<times> 'db host) option" where
  "connect_meters_event B now c ack w = map_option (\<lambda>(err, s, b). (continue c err, w\<lparr>db := s, bus := b\<rparr>))
     (meters_publish B now (hub w) (hello_id c) ack (db w, bus w))"

text \<open>The outbound case after the message was taken: \<open>disconnected\<close> is checked again before it is sent.\<close>

definition connect_forward :: "select \<Rightarrow> session \<Rightarrow> HostMessage \<Rightarrow> 'db host \<Rightarrow> handler \<times> HostMessage list" where
  "connect_forward sending c m w =
     (if disconnected w c then (Leaving c (Some (Status Aborted ''connection closed'')), [])
      else (continue c (sendWhileConnected sending), [m]))"

text \<open>The deferred call: detach, and mark the instance offline if the connection was still the attached one.\<close>

definition connect_leave :: "session \<Rightarrow> rpc_error option \<Rightarrow> 'db host \<Rightarrow> (handler \<times> 'db host) option" where
  "connect_leave c err w = map_option (\<lambda>(ok, h).
     (if ok then GoingOffline (ID (snapshot c)) err else Finished err, w\<lparr>hub := h\<rparr>)) (detach (reservation c) (hub w))"

definition connect_offline ::
    "'db badger \<Rightarrow> instant \<Rightarrow> string \<Rightarrow> rpc_error option \<Rightarrow> 'db host \<Rightarrow> (handler \<times> 'db host) option" where
  "connect_offline B now iid err w = map_option (\<lambda>(s, b). (Finished err, w\<lparr>db := s, bus := b\<rparr>))
     (markOffline B now (hub w) iid (db w, bus w))"

text \<open>
  One step of the goroutine: \<open>first\<close> and \<open>p\<close> are what it receives first and from whom, \<open>t\<close> what its
  loop selects, \<open>sending\<close> how a send ends; each state looks at those it needs.
\<close>

record connect_input =
  in_first :: "rpc_error + InstanceMessage"
  in_peer :: peer
  in_turn :: turn
  in_sending :: select

definition quiet :: "handler \<times> 'db host \<Rightarrow> handler \<times> HostMessage list \<times> 'db host" where
  "quiet r = (case r of (k, w) \<Rightarrow> (k, [], w))"

definition connect_step ::
    "'db badger \<Rightarrow> instant \<Rightarrow> connect_input \<Rightarrow> handler \<Rightarrow> 'db host \<Rightarrow> (handler \<times> HostMessage list \<times> 'db host) option" where
  "connect_step B now inp k w = (case k of
       Accepting \<Rightarrow> Some (quiet (connect_accept (in_first inp) (in_peer inp) w))
     | Reserving hello r \<Rightarrow> Some (quiet (connect_update B now hello r w))
     | Refused r err \<Rightarrow> map_option quiet (connect_cancel r err w)
     | Updated c \<Rightarrow> map_option quiet (connect_activate c w)
     | Attached c \<Rightarrow> map_option quiet (connect_announce B now c w)
     | Withdrawing r \<Rightarrow> map_option quiet (connect_withdraw r w)
     | Greeting c \<Rightarrow> (case connect_greet (in_sending inp) c of (k, out) \<Rightarrow> Some (k, out, w))
     | Serving c \<Rightarrow> Some (quiet (connect_turn_host B now (in_turn inp) c w))
     | StatusStored c updated \<Rightarrow> map_option quiet (connect_status_event B now c updated w)
     | MetersStored c ack \<Rightarrow> (case connect_ack (in_sending inp) c ack of (k, out) \<Rightarrow> Some (k, out, w))
     | MetersSent c ack \<Rightarrow> map_option quiet (connect_meters_event B now c ack w)
     | Forwarding c m \<Rightarrow> (case connect_forward (in_sending inp) c m w of (k, out) \<Rightarrow> Some (k, out, w))
     | Leaving c err \<Rightarrow> map_option quiet (connect_leave c err w)
     | GoingOffline iid err \<Rightarrow> map_option quiet (connect_offline B now iid err w)
     | Finished err \<Rightarrow> Some (Finished err, [], w))"


section \<open>The handler of a message and its parts\<close>

text \<open>The states in the middle of \<open>handleMessage\<close>, run to its end: at most \<open>n\<close> of them.\<close>

fun settle ::
    "nat \<Rightarrow> 'db badger \<Rightarrow> instant \<Rightarrow> connect_input \<Rightarrow> handler \<times> HostMessage list \<times> 'db host \<Rightarrow>
     (handler \<times> HostMessage list \<times> 'db host) option" where
  "settle 0 B now inp x = Some x"
| "settle (Suc n) B now inp (k, out, w) =
     (if (\<exists>c i. k = StatusStored c i) \<or> (\<exists>c a. k = MetersStored c a) \<or> (\<exists>c a. k = MetersSent c a)
      then Option.bind (connect_step B now inp k w) (\<lambda>(k, out', w). settle n B now inp (k, out @ out', w))
      else Some (k, out, w))"

lemma settle_continue [simp]: "settle n B now inp (continue c err, out, w) = Some (continue c err, out, w)"
  by (cases n) (simp_all add: continue_def split: option.split)

lemma settle_Leaving [simp]: "settle n B now inp (Leaving c err, out, w) = Some (Leaving c err, out, w)"
  by (cases n) simp_all

lemma settle_status:
  "settle (Suc n) B now inp (StatusStored c i, out, w) =
     map_option (\<lambda>(err, s, b). (continue c err, out, w\<lparr>db := s, bus := b\<rparr>)) (status_publish B now (hub w) (hello_id c) i (db w, bus w))"
  by (cases "status_publish B now (hub w) (hello_id c) i (db w, bus w)")
    (auto simp: connect_step_def connect_status_event_def quiet_def)

lemma settle_meters_event:
  "settle (Suc n) B now inp (MetersSent c a, out, w) =
     map_option (\<lambda>(err, s, b). (continue c err, out, w\<lparr>db := s, bus := b\<rparr>)) (meters_publish B now (hub w) (hello_id c) a (db w, bus w))"
  by (cases "meters_publish B now (hub w) (hello_id c) a (db w, bus w)")
    (auto simp: connect_step_def connect_meters_event_def quiet_def)

lemma settle_meters:
  "settle (Suc (Suc n)) B now inp (MetersStored c a, out, w) = (case sendWhileConnected (in_sending inp) of
       Some err \<Rightarrow> Some (Leaving c (Some err), out @ [ack_message (hello_id c) a], w)
     | None \<Rightarrow> map_option (\<lambda>(err, s, b). (continue c err, out @ [ack_message (hello_id c) a], w\<lparr>db := s, bus := b\<rparr>))
         (meters_publish B now (hub w) (hello_id c) a (db w, bus w)))"
  using settle_meters_event [of n B now inp c a "out @ [ack_message (hello_id c) a]" w]
  by (simp add: connect_step_def connect_ack_def split: option.split del: settle.simps(2))
    (simp add: connect_step_def connect_ack_def)

lemma continue_Some: "continue c (Some err) = Leaving c (Some err)"
  by (simp add: continue_def)

text \<open>
  The steps of the serving loop compute \<open>handleMessage\<close>: from a turn that receives a message, the
  goroutine comes to the state, the messages handed to the agent and the host that the handler run in
  one piece gives, on every branch, and goes on exactly when it returns no error.
\<close>

theorem message_steps_are_handler:
  assumes "\<not> disconnected w c" and "in_turn inp = TurnRecv (Some m)"
  shows "Option.bind (connect_step B now inp (Serving c) w) (settle 2 B now inp) =
    map_option (\<lambda>(err, out, s, b). (continue c err, out, w\<lparr>db := s, bus := b\<rparr>))
      (handleMessage B now (hub w) (hello_id c) m (in_sending inp) (db w, bus w))"
proof (cases m)
  case (StatusMessage st)
  obtain r s where ss: "status_store B now (hello_id c) st (db w) = (r, s)" by fastforce
  show ?thesis
  proof (cases r)
    case (Inl err)
    with assms StatusMessage ss show ?thesis
      by (simp add: connect_step_def connect_turn_host_def handleMessage_def quiet_def continue_Some)
  next
    case (Inr i)
    with assms StatusMessage ss settle_status [of 1 B now inp c i "[]" "w\<lparr>db := s\<rparr>"] show ?thesis
      by (cases "status_publish B now (hub w) (hello_id c) i (s, bus w)")
        (auto simp: connect_step_def connect_turn_host_def handleMessage_def quiet_def numeral_2_eq_2 simp del: settle.simps(2))
  qed
next
  case (MetersMessage st)
  obtain r s where ms: "meters_store B now (hello_id c) st (db w) = (r, s)" by fastforce
  show ?thesis
  proof (cases r)
    case (Inl err)
    with assms MetersMessage ms show ?thesis
      by (simp add: connect_step_def connect_turn_host_def handleMessage_def quiet_def continue_Some)
  next
    case (Inr a)
    with assms MetersMessage ms settle_meters [of 0 B now inp c a "[]" "w\<lparr>db := s\<rparr>"] show ?thesis
      by (cases "meters_publish B now (hub w) (hello_id c) a (s, bus w)"; cases "sendWhileConnected (in_sending inp)")
        (auto simp: connect_step_def connect_turn_host_def handleMessage_def quiet_def numeral_2_eq_2 continue_Some simp del: settle.simps(2))
  qed
qed (use assms in \<open>simp_all add: connect_step_def connect_turn_host_def handleMessage_def quiet_def continue_Some\<close>)

definition open_host :: "'db \<Rightarrow> 'db host" where
  "open_host s = \<lparr>hub = example_h2, db = s, bus = New_bus\<rparr>"

theorem message_steps_are_handler_witness:
  "let c = \<lparr>hello_id = ''a'', reservation = 0, snapshot = example_instance ''a''\<rparr>;
       inp = \<lparr>in_first = Inl EOF, in_peer = NoPeer, in_turn = TurnRecv (Some NoInstanceBody), in_sending = PickResult None\<rparr> in
   Option.bind (connect_step map_badger 5 inp (Serving c) (open_host (example_registry 0))) (settle 2 map_badger 5 inp) =
     Some (Leaving c (Some (Status InvalidArgument ''empty instance message'')), [], open_host (example_registry 0))"
proof -
  let ?c = "\<lparr>hello_id = ''a'', reservation = 0, snapshot = example_instance ''a''\<rparr>"
  let ?inp = "\<lparr>in_first = Inl EOF, in_peer = NoPeer, in_turn = TurnRecv (Some NoInstanceBody), in_sending = PickResult None\<rparr>"
  have "\<not> disconnected (open_host (example_registry 0)) ?c"
    by (simp add: disconnected_def open_host_def example_h1_def example_h2_def hub_eval)
  from message_steps_are_handler [OF this, of ?inp NoInstanceBody map_badger 5] show ?thesis
    by (simp add: handleMessage_def open_host_def continue_def)
qed

end
