(* ===== verification/Http.thy ===== *)
theory Http
  imports Json
begin

text \<open>
  The HTTP side of \<open>internal/api/api.go\<close>: requests, responses, and the helpers the handlers share
  (\<open>decodeJSON\<close>, \<open>writeJSON\<close>, \<open>writeError\<close>, the session cookie, \<open>securityHeaders\<close>).

  A request carries what the handlers read of it.  Its body is the sequence of JSON values a decoder
  finds in it, \<open>None\<close> for text that is not JSON (or runs over the limit of \<open>MaxBytesReader\<close>).  The
  member a \<open>json.RawMessage\<close> receives is a \<open>JRaw\<close> of its text; a value that holds a number which is
  not an integer counts as \<open>None\<close>, since no field of a request accepts one.
\<close>

section \<open>Requests and responses\<close>

record request =
  req_method :: string
  escaped_path :: string
  cookie :: "string option"
  tls :: bool
  forwarded_proto :: string
  path :: string
  path_id :: string
  last_event_id :: string
  body :: "json option list"

record set_cookie =
  cookie_value :: string
  cookie_path :: string
  max_age :: int
  http_only :: bool
  same_site_strict :: bool
  secure :: bool

record response =
  http_status :: nat
  headers :: "(string \<times> string) list"
  set_cookies :: "set_cookie list"
  payload :: "json option"

definition writeJSON :: "nat \<Rightarrow> json \<Rightarrow> response" where
  "writeJSON st v = \<lparr>http_status = st, headers = [(''Content-Type'', ''application/json'')], set_cookies = [], payload = Some v\<rparr>"

definition writeError :: "nat \<Rightarrow> string \<Rightarrow> string \<Rightarrow> response" where
  "writeError st c m = writeJSON st (JObj [(''error'', JObj [(''code'', JStr c), (''message'', JStr m)])])"

text \<open>\<open>w.WriteHeader\<close> alone.\<close>

definition writeHeader :: "nat \<Rightarrow> response" where
  "writeHeader st = \<lparr>http_status = st, headers = [], set_cookies = [], payload = None\<rparr>"

definition requestIsSecure :: "request \<Rightarrow> bool" where
  "requestIsSecure r \<longleftrightarrow> tls r \<or> EqualFold (forwarded_proto r) ''https''"

text \<open>The cookie of a session that lasts \<open>ttl\<close>.\<close>

definition setSessionCookie :: "duration \<Rightarrow> request \<Rightarrow> string \<Rightarrow> response \<Rightarrow> response" where
  "setSessionCookie ttl r token w = w\<lparr>set_cookies := set_cookies w @
     [\<lparr>cookie_value = token, cookie_path = ''/'', max_age = ttl div second, http_only = True,
       same_site_strict = True, secure = requestIsSecure r\<rparr>]\<rparr>"

text \<open>\<open>securityHeaders\<close>: the headers are set before the handler runs, so one the handler sets again is the handler's.\<close>

definition set_header :: "string \<Rightarrow> string \<Rightarrow> (string \<times> string) list \<Rightarrow> (string \<times> string) list" where
  "set_header k v hs = (if k \<in> fst ` set hs then hs else (k, v) # hs)"

definition securityHeaders :: "request \<Rightarrow> response \<Rightarrow> response" where
  "securityHeaders r w = w\<lparr>headers :=
     (let hs = set_header ''X-Frame-Options'' ''DENY'' (set_header ''X-Content-Type-Options'' ''nosniff''
            (set_header ''Referrer-Policy'' ''no-referrer''
            (set_header ''Content-Security-Policy'' (''default-src '' @ [CHR 0x27] @ ''none'' @ [CHR 0x27] @
               ''; frame-ancestors '' @ [CHR 0x27] @ ''none'' @ [CHR 0x27]) (headers w))))
      in if take 5 (path r) = ''/api/'' then set_header ''Cache-Control'' ''no-store'' hs else hs)\<rparr>"


section \<open>Decoding a request\<close>

text \<open>
  \<open>encoding/json\<close> with \<open>DisallowUnknownFields\<close>: a member belongs to the field of its name, or else of
  the same name up to case; any other member is an error; so is a value of another type, wherever it
  stands; null leaves a field as it is.
\<close>

datatype field_kind = StringField | IntField | RawField | MapField

fun fits :: "field_kind \<Rightarrow> json \<Rightarrow> bool" where
  "fits kind JNull = True"
| "fits StringField (JStr _) = True"
| "fits IntField (JNum n) = (- (2 ^ 63) \<le> n \<and> n < 2 ^ 63)"
| "fits RawField (JRaw _) = True"
| "fits MapField (JObj fs) = list_all (\<lambda>(k, v). v = JNull \<or> (case v of JStr _ \<Rightarrow> True | _ \<Rightarrow> False)) fs"
| "fits _ _ = False"

definition field_of :: "(string \<times> field_kind) list \<Rightarrow> string \<Rightarrow> (string \<times> field_kind) option" where
  "field_of struct k = (case find (\<lambda>f. fst f = k) struct of
       Some f \<Rightarrow> Some f
     | None \<Rightarrow> find (\<lambda>f. EqualFold (fst f) k) struct)"

fun named :: "(string \<times> field_kind) list \<Rightarrow> (string \<times> json) list \<Rightarrow> json_error + (string \<times> json) list" where
  "named struct [] = Inr []"
| "named struct ((k, v) # ms) = (case field_of struct k of
       None \<Rightarrow> Inl (JsonType k)
     | Some (f, kind) \<Rightarrow>
         if \<not> fits kind v then Inl (JsonType k)
         else bindE (named struct ms) (\<lambda>ms. Inr (if v = JNull then ms else (f, v) # ms)))"

definition string_field :: "(string \<times> json) list \<Rightarrow> string \<Rightarrow> string" where
  "string_field ms k = (case member ms k of Some (JStr s) \<Rightarrow> s | _ \<Rightarrow> [])"

definition int_field :: "(string \<times> json) list \<Rightarrow> string \<Rightarrow> int" where
  "int_field ms k = (case member ms k of Some (JNum n) \<Rightarrow> n | _ \<Rightarrow> 0)"

definition raw_field :: "(string \<times> json) list \<Rightarrow> string \<Rightarrow> string" where
  "raw_field ms k = (case member ms k of Some (JRaw s) \<Rightarrow> s | _ \<Rightarrow> [])"

text \<open>A map of strings collects the entries of every object given for it; the last one of a key counts.\<close>

definition map_entry :: "(string \<times> string) list \<Rightarrow> string \<times> json \<Rightarrow> (string \<times> string) list" where
  "map_entry ls e = (case e of (k, v) \<Rightarrow>
     filter (\<lambda>l. fst l \<noteq> k) ls @ [(k, case v of JStr s \<Rightarrow> s | _ \<Rightarrow> [])])"

definition map_field :: "(string \<times> json) list \<Rightarrow> string \<Rightarrow> (string \<times> string) list" where
  "map_field ms k = foldl map_entry []
     (concat (map (\<lambda>(f, v). case v of JObj fs \<Rightarrow> if f = k then fs else [] | _ \<Rightarrow> []) ms))"

text \<open>\<open>decodeJSON\<close>: the members of the one value of the body, or the response that refuses it.\<close>

definition decodeJSON :: "(string \<times> field_kind) list \<Rightarrow> request \<Rightarrow> response + (string \<times> json) list" where
  "decodeJSON struct r =
     (let malformed = writeError 400 ''invalid_json'' ''request body must be valid JSON'' in
      case body r of
        [] \<Rightarrow> Inl malformed
      | None # _ \<Rightarrow> Inl malformed
      | Some j # rest \<Rightarrow> (case bindE (members j) (named struct) of
            Inl e \<Rightarrow> Inl malformed
          | Inr ms \<Rightarrow>
              if rest \<noteq> [] then Inl (writeError 400 ''invalid_json'' ''request body must contain one JSON value'')
              else Inr ms))"

lemma map_entry_keys: "distinct (map fst ls) \<Longrightarrow> distinct (map fst (map_entry ls e))"
  by (cases e) (auto simp: map_entry_def distinct_map_filter)

text \<open>The keys of a decoded map are distinct.\<close>

lemma map_field_distinct: "distinct (map fst (map_field ms k))"
proof -
  have "distinct (map fst ls) \<Longrightarrow> distinct (map fst (foldl map_entry ls es))" for ls es
    by (induction es arbitrary: ls) (simp_all add: map_entry_keys)
  then show ?thesis by (simp add: map_field_def)
qed

end
