(* ===== verification/Api.thy ===== *)
theory Api
  imports Streams Auth Limiter Control Http
begin

text \<open>
  The handlers of \<open>internal/api/api.go\<close>.  \<open>API\<close> is the state they share: the control plane
  (hub, database and bus), the authentication service, the limiter and the files of the host.
  \<open>platform\<close> holds the code that is not part of the repository: Badger, SHA-256, the TOTP library
  (the code of a secret at a time, a fresh key), the random source, the JSON scanner, a fresh UUID,
  and the certificate bundle issued for an identifier.  A handler takes the instant it runs at and
  the request; \<open>None\<close> is a panic of the hub or the bus.  Where other goroutines can run within a
  handler (\<open>deleteInstance\<close>, \<open>setDesired\<close>) its parts are definitions of their own.
\<close>

section \<open>State\<close>

record 'db API =
  plane :: "'db host"
  svc :: Service
  limiter :: loginLimiter
  files :: fs

record 'db platform =
  badger_ops :: "'db badger"
  sha256 :: "string \<Rightarrow> string"
  totp_code :: "string \<Rightarrow> int \<Rightarrow> string option"
  totp_key :: "(string \<times> string) option"
  entropy :: random
  json_scan :: "string \<Rightarrow> bool"
  new_uuid :: string
  issue :: "string \<Rightarrow> json option"

definition set_db :: "'db \<Rightarrow> 'db API \<Rightarrow> 'db API" where
  "set_db s a = a\<lparr>plane := (plane a)\<lparr>db := s\<rparr>\<rparr>"

definition set_hub :: "Hub \<Rightarrow> 'db API \<Rightarrow> 'db API" where
  "set_hub h a = a\<lparr>plane := (plane a)\<lparr>hub := h\<rparr>\<rparr>"

text \<open>\<open>_, _ = a.events.Publish(...)\<close>\<close>

definition api_publish ::
    "'db platform \<Rightarrow> instant \<Rightarrow> string \<Rightarrow> string \<Rightarrow> (string \<times> json) list \<Rightarrow> 'db API \<Rightarrow> 'db API option" where
  "api_publish P now eventType resourceID data a =
     map_option (\<lambda>(s, b). a\<lparr>plane := (plane a)\<lparr>db := s, bus := b\<rparr>\<rparr>)
       (publish (badger_ops P) now eventType resourceID data (db (plane a), bus (plane a)))"


section \<open>Authentication\<close>

definition authenticated :: "'db platform \<Rightarrow> instant \<Rightarrow> request \<Rightarrow> 'db API \<Rightarrow> bool" where
  "authenticated P now r a = (case cookie r of
       None \<Rightarrow> False
     | Some c \<Rightarrow> (case SessionValid (badger_ops P) (sha256 P) now c (db (plane a)) of
           Inl e \<Rightarrow> False
         | Inr valid \<Rightarrow> valid))"

text \<open>The response that refuses an attempt, if the limiter does not allow one.\<close>

definition allowAuthentication :: "instant \<Rightarrow> 'db API \<Rightarrow> response option" where
  "allowAuthentication now a =
     (if allowed (limiter a) now then None
      else Some (let w = writeError 429 ''rate_limited'' ''too many failed authentication attempts''
        in w\<lparr>headers := (''Retry-After'', ''30'') # headers w\<rparr>))"

text \<open>A handler answers with a response, or begins something that goes on (\<open>'o\<close>: an event stream, an installation).\<close>

definition requireAuth ::
    "'db platform \<Rightarrow> instant \<Rightarrow> (request \<Rightarrow> 'db API \<Rightarrow> ((response + 'o) \<times> 'db API) option) \<Rightarrow>
     request \<Rightarrow> 'db API \<Rightarrow> ((response + 'o) \<times> 'db API) option" where
  "requireAuth P now next_handler r a =
     (if \<not> authenticated P now r a then Some (Inl (writeError 401 ''unauthorized'' ''authentication required''), a)
      else next_handler r a)"

definition bootstrapStatus :: "'db platform \<Rightarrow> instant \<Rightarrow> 'db API \<Rightarrow> response" where
  "bootstrapStatus P now a = (case OperatorReady (badger_ops P) now (db (plane a)) of
       Inl e \<Rightarrow> writeError 500 ''store_error'' ''could not read operator state''
     | Inr b \<Rightarrow> writeJSON 200 (JObj [(''ready'', JBool b)]))"

text \<open>What \<open>bootstrapStart\<close> and \<open>bootstrapComplete\<close> check before they read the body.\<close>

definition bootstrap_open :: "'db platform \<Rightarrow> instant \<Rightarrow> 'db API \<Rightarrow> response option" where
  "bootstrap_open P now a = (case allowAuthentication now a of
       Some w \<Rightarrow> Some w
     | None \<Rightarrow> (case OperatorReady (badger_ops P) now (db (plane a)) of
           Inl e \<Rightarrow> Some (writeError 500 ''store_error'' ''could not read operator state'')
         | Inr True \<Rightarrow> Some (writeError 409 ''already_configured'' ''operator is already configured'')
         | Inr False \<Rightarrow> None))"

definition invalid_setup_token :: "instant \<Rightarrow> 'db API \<Rightarrow> response \<times> 'db API" where
  "invalid_setup_token now a =
     (writeError 401 ''invalid_setup_token'' ''setup token is invalid'', a\<lparr>limiter := failed (limiter a) now\<rparr>)"

definition bootstrapStart :: "'db platform \<Rightarrow> instant \<Rightarrow> request \<Rightarrow> 'db API \<Rightarrow> response \<times> 'db API" where
  "bootstrapStart P now r a = (case bootstrap_open P now a of
       Some w \<Rightarrow> (w, a)
     | None \<Rightarrow> (case decodeJSON [(''token'', StringField)] r of
           Inl w \<Rightarrow> (w, a)
         | Inr ms \<Rightarrow>
             if \<not> CheckSetupToken (svc a) (string_field ms ''token'') then invalid_setup_token now a
             else case BeginSetup (badger_ops P) (totp_key P) (db (plane a)) of
                 (Inl e, s) \<Rightarrow> (writeError 500 ''setup_failed'' ''could not create totp secret'', set_db s a)
               | (Inr (secret, uri), s) \<Rightarrow>
                   (writeJSON 200 (JObj [(''secret'', JStr secret), (''uri'', JStr uri)]),
                    (set_db s a)\<lparr>limiter := succeeded (limiter a)\<rparr>)))"

definition bootstrapComplete ::
    "'db platform \<Rightarrow> instant \<Rightarrow> request \<Rightarrow> 'db API \<Rightarrow> (response \<times> 'db API) option" where
  "bootstrapComplete P now r a = (case bootstrap_open P now a of
       Some w \<Rightarrow> Some (w, a)
     | None \<Rightarrow> (case decodeJSON [(''token'', StringField), (''code'', StringField)] r of
           Inl w \<Rightarrow> Some (w, a)
         | Inr ms \<Rightarrow>
             if \<not> CheckSetupToken (svc a) (string_field ms ''token'') then Some (invalid_setup_token now a)
             else case CompleteSetup (badger_ops P) (sha256 P) (totp_code P) (entropy P) now
                 (string_field ms ''code'') (svc a) (db (plane a)) (files a) of (res, sv, s, f) \<Rightarrow>
               let a = (set_db s a)\<lparr>svc := sv, files := f\<rparr> in
               (case res of
                  Inl (AuthStore ErrAlreadyConfigured) \<Rightarrow>
                    Some (writeError 409 ''already_configured'' ''operator is already configured'', a)
                | Inl ErrInvalidCode \<Rightarrow>
                    Some (writeError 401 ''invalid_totp'' ''totp code is invalid'', a\<lparr>limiter := failed (limiter a) now\<rparr>)
                | Inl e \<Rightarrow> Some (writeError 500 ''setup_failed'' ''could not complete operator setup'', a)
                | Inr (codes, session) \<Rightarrow>
                    map_option (\<lambda>a. (setSessionCookie SessionTTL r session (writeJSON 201 (JObj
                        [(''expires_in'', JNum (SessionTTL div second)), (''recovery_codes'', JArr (map JStr codes))])), a))
                      (api_publish P now ''operator.configured'' [] [] (a\<lparr>limiter := succeeded (limiter a)\<rparr>)))))"

definition login :: "'db platform \<Rightarrow> instant \<Rightarrow> request \<Rightarrow> 'db API \<Rightarrow> response \<times> 'db API" where
  "login P now r a = (case allowAuthentication now a of
       Some w \<Rightarrow> (w, a)
     | None \<Rightarrow> (case decodeJSON [(''code'', StringField)] r of
           Inl w \<Rightarrow> (w, a)
         | Inr ms \<Rightarrow> (case Login (badger_ops P) (sha256 P) (totp_code P) (entropy P) now
               (string_field ms ''code'') (db (plane a)) of
               (Inl ErrInvalidCode, s) \<Rightarrow>
                 (writeError 401 ''invalid_code'' ''authentication code is invalid'',
                  (set_db s a)\<lparr>limiter := failed (limiter a) now\<rparr>)
             | (Inl e, s) \<Rightarrow> (writeError 500 ''auth_failed'' ''could not authenticate operator'', set_db s a)
             | (Inr session, s) \<Rightarrow>
                 (setSessionCookie SessionTTL r session (writeJSON 200 (JObj
                    [(''authenticated'', JBool True), (''expires_in'', JNum (SessionTTL div second))])),
                  (set_db s a)\<lparr>limiter := succeeded (limiter a)\<rparr>))))"

definition logout :: "'db platform \<Rightarrow> request \<Rightarrow> 'db API \<Rightarrow> response \<times> 'db API" where
  "logout P r a =
     ((writeHeader 204)\<lparr>set_cookies := [\<lparr>cookie_value = [], cookie_path = ''/'', max_age = - 1, http_only = True,
         same_site_strict = True, secure = requestIsSecure r\<rparr>]\<rparr>,
      case cookie r of
        None \<Rightarrow> a
      | Some c \<Rightarrow> set_db (snd (DeleteSession (badger_ops P) (sha256 P) c (db (plane a)))) a)"

definition session_status :: "'db platform \<Rightarrow> instant \<Rightarrow> request \<Rightarrow> 'db API \<Rightarrow> response" where
  "session_status P now r a = writeJSON 200 (JObj [(''authenticated'', JBool (authenticated P now r a))])"


section \<open>Instances\<close>

definition health :: response where
  "health = writeJSON 200 (JObj [(''status'', JStr ''ok'')])"

text \<open>\<open>model.Dashboard\<close>, and the loop that counts.\<close>

record Dashboard =
  Total :: int
  Online_count :: int
  Running :: int
  Failed_count :: int
  Traffic :: Usage
  Now :: instant

definition count_instance :: "Hub \<Rightarrow> Dashboard \<Rightarrow> Instance \<Rightarrow> Dashboard" where
  "count_instance h d i =
     (let d = (if Online h (ID i) then d\<lparr>Online_count := Online_count d + 1\<rparr> else d) in
      if Phase i = ''running'' then d\<lparr>Running := Running d + 1\<rparr>
      else if Phase i = ''failed'' then d\<lparr>Failed_count := Failed_count d + 1\<rparr>
      else d)"

definition dashboard_of :: "Hub \<Rightarrow> instant \<Rightarrow> Usage \<Rightarrow> Instance list \<Rightarrow> Dashboard" where
  "dashboard_of h now usage is = foldl (count_instance h)
     \<lparr>Total = int (length is), Online_count = 0, Running = 0, Failed_count = 0, Traffic = usage, Now = now\<rparr> is"

definition marshal_Dashboard :: "Dashboard \<Rightarrow> json" where
  "marshal_Dashboard d = JObj [
     (''instances'', JObj [(''total'', JNum (Total d)), (''online'', JNum (Online_count d)),
        (''running'', JNum (Running d)), (''failed'', JNum (Failed_count d))]),
     (''traffic'', marshal_Usage (Traffic d)), (''now'', JTime (Now d))]"

definition dashboard :: "'db platform \<Rightarrow> instant \<Rightarrow> 'db API \<Rightarrow> response" where
  "dashboard P now a = (case Instances (badger_ops P) now (db (plane a)) of
       Inl e \<Rightarrow> writeError 500 ''store_error'' ''could not list instances''
     | Inr is \<Rightarrow> (case read_usage (badger_ops P) now (db (plane a)) of
           Inl e \<Rightarrow> writeError 500 ''store_error'' ''could not read traffic''
         | Inr usage \<Rightarrow> writeJSON 200 (marshal_Dashboard (dashboard_of (hub (plane a)) now usage is))))"

definition instances_view :: "'db platform \<Rightarrow> instant \<Rightarrow> 'db API \<Rightarrow> response" where
  "instances_view P now a = (case Instances (badger_ops P) now (db (plane a)) of
       Inl e \<Rightarrow> writeError 500 ''store_error'' ''could not list instances''
     | Inr is \<Rightarrow> writeJSON 200 (JObj [(''items'', JArr (map (\<lambda>i.
           JObj (Instance_members i @ [(''online'', JBool (Online (hub (plane a)) (ID i)))])) is))]))"

definition not_found :: response where
  "not_found = writeError 404 ''not_found'' ''instance does not exist''"

definition instance_view :: "'db platform \<Rightarrow> instant \<Rightarrow> request \<Rightarrow> 'db API \<Rightarrow> response" where
  "instance_view P now r a = (case lookup_instance (badger_ops P) now (path_id r) (db (plane a)) of
       Inl ErrNotFound \<Rightarrow> not_found
     | Inl e \<Rightarrow> writeError 500 ''store_error'' ''could not read instance''
     | Inr i \<Rightarrow> writeJSON 200 (JObj [(''instance'', marshal_Instance i),
          (''online'', JBool (Online (hub (plane a)) (ID i)))]))"

text \<open>The instance \<open>createInstance\<close> and the SSH installer enrol.\<close>

definition new_instance :: "instant \<Rightarrow> string \<Rightarrow> string \<Rightarrow> Instance" where
  "new_instance now iid name =
     zero_Instance\<lparr>ID := iid, Name := name, CreatedAt := now, Capabilities := Some [], Phase := ''enrolled''\<rparr>"

definition createInstance :: "'db platform \<Rightarrow> instant \<Rightarrow> request \<Rightarrow> 'db API \<Rightarrow> (response \<times> 'db API) option" where
  "createInstance P now r a = (case decodeJSON [(''name'', StringField)] r of
       Inl w \<Rightarrow> Some (w, a)
     | Inr ms \<Rightarrow>
         let name = string_field ms ''name'' in
         if ValidateInstanceName name \<noteq> None
           then Some (writeError 400 ''invalid_name''
             ''instance name must be a lowercase machine label of 1 to 63 letters, digits, or hyphens'', a)
         else let i = new_instance now (new_uuid P) name in
           case issue P (new_uuid P) of
             None \<Rightarrow> Some (writeError 500 ''certificate_error'' ''could not issue instance certificate'', a)
           | Some bundle \<Rightarrow> (case PutInstance (badger_ops P) i (db (plane a)) of
                 (Inl e, s) \<Rightarrow> Some (writeError 500 ''store_error'' ''could not create instance'', set_db s a)
               | (Inr _, s) \<Rightarrow>
                   map_option (\<lambda>a. (writeJSON 201 (JObj [(''credentials'', bundle), (''instance'', marshal_Instance i)]), a))
                     (api_publish P now ''instance.enrolled'' (new_uuid P) [(''name'', JStr name)] (set_db s a))))"


section \<open>Deleting\<close>

text \<open>
  \<open>deleteInstance\<close>: revoke, delete, announce, release (the deferred call).  \<open>delete_response\<close> is what a
  failed deletion answers.
\<close>

definition delete_response :: "store_error \<Rightarrow> response" where
  "delete_response e = (case e of
       ErrNotFound \<Rightarrow> not_found
     | _ \<Rightarrow> writeError 500 ''store_error'' ''could not delete instance'')"

definition delete_event ::
    "'db platform \<Rightarrow> instant \<Rightarrow> string \<Rightarrow> Instance \<Rightarrow> 'db API \<Rightarrow> 'db API option" where
  "delete_event P now iid i a = api_publish P now ''instance.deleted'' iid [(''name'', JStr (Name i))] a"

definition deleteInstance :: "'db platform \<Rightarrow> instant \<Rightarrow> request \<Rightarrow> 'db API \<Rightarrow> (response \<times> 'db API) option" where
  "deleteInstance P now r a =
     (let iid = path_id r; unlock = (\<lambda>k a. set_hub (release k (hub (plane a))) a) in
      Option.bind (Revoke iid (hub (plane a))) (\<lambda>(k, h).
      let a = set_hub h a in
      case DeleteInstance (badger_ops P) now iid (db (plane a)) of
        (Inl e, s) \<Rightarrow> Some (delete_response e, unlock k (set_db s a))
      | (Inr i, s) \<Rightarrow> map_option (\<lambda>a. (writeHeader 204, unlock k a)) (delete_event P now iid i (set_db s a))))"


section \<open>Desired states\<close>

definition spec_fields :: "(string \<times> field_kind) list" where
  "spec_fields = [(''engine'', StringField), (''artifact'', StringField), (''desired_phase'', StringField),
     (''config'', RawField), (''labels'', MapField)]"

definition decode_spec :: "(string \<times> json) list \<Rightarrow> InstanceSpec" where
  "decode_spec ms = \<lparr>Engine = string_field ms ''engine'', Artifact = string_field ms ''artifact'',
     DesiredPhase = string_field ms ''desired_phase'', Config = raw_field ms ''config'', Labels = map_field ms ''labels''\<rparr>"

text \<open>The checks of \<open>setDesired\<close>: the canonical text and digest of the specification, or the refusal.\<close>

definition desired_validate :: "'db platform \<Rightarrow> request \<Rightarrow> response + string \<times> string" where
  "desired_validate P r = bindE (decodeJSON spec_fields r) (\<lambda>ms.
     let spec = decode_spec ms in
     if Engine spec = [] \<or> Artifact spec = [] \<or> (DesiredPhase spec \<noteq> ''running'' \<and> DesiredPhase spec \<noteq> ''stopped'')
       then Inl (writeError 400 ''invalid_spec'' ''engine, artifact and a running/stopped desired phase are required'')
     else if DesiredPhase spec = ''running''
       then Inl (writeError 422 ''adapter_unavailable'' ''no runtime adapter is enabled in this foundation release'')
     else case CanonicalSpec (json_scan P) (sha256 P) spec of
         Inl e \<Rightarrow> Inl (writeError 400 ''invalid_spec'' ''spec could not be canonicalized'')
       | Inr cd \<Rightarrow> Inr cd)"

definition desired_update :: "string \<Rightarrow> string \<Rightarrow> Instance \<Rightarrow> store_error + Instance" where
  "desired_update canonical digest i =
     (if DesiredDigest i = digest then Inr i
      else Inr (i\<lparr>DesiredGeneration := DesiredGeneration i + 1, DesiredDigest := digest, DesiredSpec := canonical\<rparr>))"

definition desired_store ::
    "'db badger \<Rightarrow> instant \<Rightarrow> string \<Rightarrow> string \<times> string \<Rightarrow> 'db \<Rightarrow> (response + Instance) \<times> 'db" where
  "desired_store B now iid cd s = (case UpdateInstance B now iid (desired_update (fst cd) (snd cd)) s of
       (Inl ErrNotFound, s) \<Rightarrow> (Inl not_found, s)
     | (Inl e, s) \<Rightarrow> (Inl (writeError 500 ''store_error'' ''could not update desired state''), s)
     | (Inr i, s) \<Rightarrow> (Inr i, s))"

text \<open>The guarded event; the code inlines what \<open>publishIfEnrolled\<close> of the control server does.\<close>

definition desired_event ::
    "'db badger \<Rightarrow> instant \<Rightarrow> Hub \<Rightarrow> Instance \<Rightarrow> bool \<Rightarrow> 'db \<times> Bus \<Rightarrow> (bool \<times> 'db \<times> Bus) option" where
  "desired_event B now h i delivered w = publishIfEnrolled B now h ''instance.desired'' (ID i)
     [(''generation'', JNum (uint (DesiredGeneration i))), (''delivered'', JBool delivered)] w"

definition desired_response :: "Instance \<Rightarrow> bool \<Rightarrow> bool \<Rightarrow> response" where
  "desired_response i delivered published =
     (if \<not> published then not_found
      else writeJSON 200 (JObj [(''delivered'', JBool delivered), (''instance'', marshal_Instance i)]))"

definition setDesired :: "'db platform \<Rightarrow> instant \<Rightarrow> request \<Rightarrow> 'db API \<Rightarrow> (response \<times> 'db API) option" where
  "setDesired P now r a = (case desired_validate P r of
       Inl w \<Rightarrow> Some (w, a)
     | Inr cd \<Rightarrow> (case desired_store (badger_ops P) now (path_id r) cd (db (plane a)) of
           (Inl w, s) \<Rightarrow> Some (w, set_db s a)
         | (Inr i, s) \<Rightarrow>
             Option.bind (Send (ID i) (desiredMessage i) (hub (plane a))) (\<lambda>(delivered, h).
             let a = set_hub h (set_db s a) in
             map_option (\<lambda>(published, s, b).
                 (desired_response i delivered published, a\<lparr>plane := (plane a)\<lparr>db := s, bus := b\<rparr>\<rparr>))
               (desired_event (badger_ops P) now h i delivered (db (plane a), bus (plane a))))))"


section \<open>The event stream\<close>

text \<open>
  The beginning of \<open>eventStream\<close>: \<open>flusher\<close> says whether the writer can be flushed.  On success the
  result is the subscription, its channel and the stream after the history; the loop that follows
  writes what the channel delivers (\<open>stream_event\<close>).
\<close>

definition eventStream_open ::
    "'db platform \<Rightarrow> instant \<Rightarrow> bool \<Rightarrow> request \<Rightarrow> 'db API \<Rightarrow> ((response + u64 \<times> nat \<times> stream) \<times> 'db API) option" where
  "eventStream_open P now flusher r a =
     (if \<not> flusher then Some (Inl (writeError 500 ''stream_unsupported'' ''streaming is not supported''), a)
      else case Subscribe (bus (plane a)) of (i, c, b) \<Rightarrow>
        (case EventsAfter (badger_ops P) now (stream_after (last_event_id r)) 500 (db (plane a)) of
           Inl e \<Rightarrow> map_option (\<lambda>b. (Inl (writeError 500 ''store_error'' ''could not read events''),
               a\<lparr>plane := (plane a)\<lparr>bus := b\<rparr>\<rparr>)) (unsubscribe i b)
         | Inr history \<Rightarrow> Some (Inr (i, c,
               foldl write_history \<lparr>last_id = stream_after (last_event_id r), written = []\<rparr> history),
             a\<lparr>plane := (plane a)\<lparr>bus := b\<rparr>\<rparr>)))"


section \<open>Wrong codes\<close>

lemma decodeJSON_status: "decodeJSON fds r = Inl w \<Longrightarrow> http_status w = 400"
  by (auto simp: decodeJSON_def Let_def writeError_def writeJSON_def split: list.splits option.splits sum.splits if_splits)

lemma login_refused: "http_status (fst (login P now r a)) = 429 \<longleftrightarrow> \<not> allowed (limiter a) now"
  by (auto simp: login_def allowAuthentication_def Let_def writeError_def writeJSON_def setSessionCookie_def
      split: sum.splits prod.splits auth_error.splits dest: decodeJSON_status)

lemma bootstrapStart_refused: "http_status (fst (bootstrapStart P now r a)) = 429 \<longleftrightarrow> \<not> allowed (limiter a) now"
  by (auto simp: bootstrapStart_def bootstrap_open_def allowAuthentication_def invalid_setup_token_def Let_def writeError_def writeJSON_def
      split: sum.splits prod.splits bool.splits dest: decodeJSON_status)

text \<open>
  C25.  Repeated failures are refused.  In whatever order concurrent requests have reported failures and
  successes, with fewer than 307445738 failures in a row, a login or a start of the setup is answered 429
  exactly when five or more failures were reported since the last success and the pause after the last of
  them, 30 seconds for five and 30 more for each further one up to five minutes, is not over; such a
  request, and a completion of the setup, changes nothing.
\<close>

theorem repeated_failures_refused:
  assumes "limiter a = foldl limiter_report new_limiter rs"
    and "\<forall>us vs. rs = us @ vs \<longrightarrow> length (recent_failures us) < 307445738" and "zero_time \<le> now"
  shows "let ts = recent_failures rs; blocked = (5 \<le> length ts \<and> now < last ts + pause (length ts)) in
    (http_status (fst (login P now r a)) = 429 \<longleftrightarrow> blocked) \<and>
    (http_status (fst (bootstrapStart P now r a)) = 429 \<longleftrightarrow> blocked) \<and>
    (blocked \<longrightarrow> snd (login P now r a) = a \<and> snd (bootstrapStart P now r a) = a \<and>
       bootstrapComplete P now r a = Some (fst (login P now r a), a))"
proof -
  have "blockedUntil (limiter a) = blocked_until (recent_failures rs)" using limiter_state [of rs] assms(1,2) by auto
  then have "\<not> allowed (limiter a) now \<longleftrightarrow> 5 \<le> length (recent_failures rs) \<and> now < last (recent_failures rs) + pause (length (recent_failures rs))"
    using assms(3) by (auto simp: allowed_def blocked_until_def)
  then show ?thesis unfolding Let_def login_refused bootstrapStart_refused
    by (auto simp: login_def bootstrapStart_def bootstrapComplete_def bootstrap_open_def allowAuthentication_def)
qed

definition limited_api :: "map_db API" where
  "limited_api = \<lparr>plane = \<lparr>hub = NewHub, db = empty_db, bus = New_bus\<rparr>, svc = \<lparr>setupTokenPath = [], setupToken = []\<rparr>,
     limiter = foldl limiter_report new_limiter (Success # map Failure [1, 2, 3, 4, 5]), files = no_files\<rparr>"

theorem repeated_failures_refused_witness:
  "\<forall>P r. http_status (fst (login P (29 * second) r limited_api)) = 429 \<and> http_status (fst (login P (31 * second) r limited_api)) \<noteq> 429"
proof -
  let ?rs = "Success # map Failure [1, 2, 3, 4, 5]"
  have l: "limiter limited_api = foldl limiter_report new_limiter ?rs" by (simp add: limited_api_def)
  have n: "length (recent_failures us) < 307445738" if "?rs = us @ vs" for us vs
  proof -
    have "length (recent_failures us) \<le> length us" by (induction us) (auto split: report.splits)
    moreover have "length us \<le> length ?rs" unfolding that by simp
    ultimately show ?thesis by simp
  qed
  show ?thesis
    using repeated_failures_refused [OF l, of "29 * second"] n repeated_failures_refused [OF l, of "31 * second"]
    by (simp add: Let_def pause_def zero_time_def)
qed

end
