(* ===== verification/Text.thy ===== *)
theory Text
  imports Model "HOL-Library.Sublist"
begin

text \<open>
  The string functions of the Go standard library that the installer and the configuration use:
  \<open>strings.Cut\<close>, \<open>Split\<close>, \<open>ContainsAny\<close>, \<open>TrimPrefix\<close>, \<open>TrimSuffix\<close>, \<open>ToLower\<close>, \<open>strconv.Atoi\<close>,
  \<open>net.SplitHostPort\<close> and \<open>net.JoinHostPort\<close>.
\<close>

section \<open>Searching and splitting\<close>

fun Cut :: "string \<Rightarrow> string \<Rightarrow> string \<times> string \<times> bool" where
  "Cut [] sep = (if sep = [] then ([], [], True) else ([], [], False))"
| "Cut (c # cs) sep =
     (if prefix sep (c # cs) then ([], drop (length sep) (c # cs), True)
      else case Cut cs sep of (a, b, found) \<Rightarrow> (c # a, b, found))"

text \<open>\<open>Split\<close> with a separator of one character.\<close>

fun Split :: "string \<Rightarrow> char \<Rightarrow> string list" where
  "Split [] sep = [[]]"
| "Split (c # cs) sep =
     (if c = sep then [] # Split cs sep
      else case Split cs sep of w # ws \<Rightarrow> (c # w) # ws | [] \<Rightarrow> [[c]])"

definition ContainsAny :: "string \<Rightarrow> string \<Rightarrow> bool" where
  "ContainsAny s chars \<longleftrightarrow> (\<exists>c\<in>set s. c \<in> set chars)"

definition TrimPrefix :: "string \<Rightarrow> string \<Rightarrow> string" where
  "TrimPrefix s p = (if prefix p s then drop (length p) s else s)"

definition TrimSuffix :: "string \<Rightarrow> string \<Rightarrow> string" where
  "TrimSuffix s p = (if suffix p s then take (length s - length p) s else s)"

fun join_with :: "char \<Rightarrow> string list \<Rightarrow> string" where
  "join_with sep [] = []"
| "join_with sep [w] = w"
| "join_with sep (w # ws) = w @ sep # join_with sep ws"

lemma Split_not_Nil [simp]: "Split s sep \<noteq> []"
  by (cases s) (auto split: list.splits)

lemma join_with_Cons: "ws \<noteq> [] \<Longrightarrow> join_with sep (w # ws) = w @ sep # join_with sep ws"
  by (cases ws) simp_all

lemma join_with_Split [simp]: "join_with sep (Split s sep) = s"
proof (induction s)
  case (Cons c cs)
  then show ?case
    by (cases "Split cs sep"; cases "tl (Split cs sep)") (auto simp: join_with_Cons)
qed simp

lemma Split_no_sep: "sep \<notin> set s \<Longrightarrow> Split s sep = [s]"
  by (induction s) auto

lemma Split_append: "sep \<notin> set w \<Longrightarrow> Split (w @ sep # s) sep = w # Split s sep"
  by (induction w) auto

lemma Split_join_with: "ws \<noteq> [] \<Longrightarrow> \<forall>w\<in>set ws. sep \<notin> set w \<Longrightarrow> Split (join_with sep ws) sep = ws"
proof (induction ws)
  case (Cons w ws)
  then show ?case by (cases ws) (auto simp: Split_no_sep Split_append)
qed simp

lemma Split_snoc: "Split (s @ [sep]) sep = Split s sep @ [[]]"
proof (induction s)
  case (Cons c s)
  then show ?case by (cases "Split s sep") auto
qed simp

lemma Split_double: "sublist [sep, sep] s \<Longrightarrow> [] \<in> set (Split s sep)"
proof -
  have "[] \<in> set (tl (Split (a @ sep # sep # b) sep))" for a b
  proof (induction a)
    case (Cons c a)
    then show ?case by (cases "Split (a @ sep # sep # b) sep") auto
  qed simp
  then have "[] \<in> set (Split (a @ sep # sep # b) sep)" for a b
    by (meson list.set_sel(2) Split_not_Nil)
  then show "sublist [sep, sep] s \<Longrightarrow> [] \<in> set (Split s sep)" by (auto simp: sublist_def)
qed

lemma Split_parts: "w \<in> set (Split s sep) \<Longrightarrow> sep \<notin> set w \<and> set w \<subseteq> set s"
proof (induction s arbitrary: w)
  case (Cons c cs)
  then show ?case by (cases "Split cs sep") (force split: if_splits)+
qed simp

text \<open>A cut that finds the separator splits the string at its first occurrence.\<close>

lemma Cut_found: "Cut s sep = (a, b, True) \<Longrightarrow> s = a @ sep @ b"
proof (induction s arbitrary: a)
  case (Cons c cs)
  then show ?case by (auto simp: prefix_def split: if_splits prod.splits)
qed (auto split: if_splits)

lemma Cut_not_found: "Cut s sep = (a, b, False) \<Longrightarrow> a = s \<and> b = [] \<and> \<not> sublist sep s"
proof (induction s arbitrary: a)
  case (Cons c cs)
  then show ?case by (auto simp: sublist_Cons_right split: if_splits prod.splits)
qed (auto split: if_splits)

lemma Cut_char: "c \<notin> set a \<Longrightarrow> Cut (a @ c # b) [c] = (a, b, True)"
  by (induction a) auto


section \<open>Lower case\<close>

text \<open>
  \<open>strings.ToLower\<close> on ASCII characters, and on the two other characters whose lower case is ASCII:
  the Kelvin sign and the capital I with a dot, in UTF-8.  Every other byte is left alone.
\<close>

definition lower_char :: "char \<Rightarrow> char" where
  "lower_char c = (let n = of_char c in if 65 \<le> n \<and> n \<le> (90 :: nat) then char_of (n + 32) else c)"

fun ToLower :: "string \<Rightarrow> string" where
  "ToLower (c # d # e # s) =
     (if [c, d, e] = [CHR 0xE2, CHR 0x84, CHR 0xAA] then CHR ''k'' # ToLower s
      else if [c, d] = [CHR 0xC4, CHR 0xB0] then CHR ''i'' # ToLower (e # s)
      else lower_char c # ToLower (d # e # s))"
| "ToLower [c, d] = (if [c, d] = [CHR 0xC4, CHR 0xB0] then ''i'' else [lower_char c, lower_char d])"
| "ToLower [c] = [lower_char c]"
| "ToLower [] = []"


section \<open>Numbers\<close>

definition is_digit :: "char \<Rightarrow> bool" where
  "is_digit c \<longleftrightarrow> ascii_between 48 c 57"

definition digit_value :: "char \<Rightarrow> nat" where
  "digit_value c = of_char c - 48"

definition decimal :: "string \<Rightarrow> nat" where
  "decimal s = foldl (\<lambda>n c. n * 10 + digit_value c) 0 s"

text \<open>\<open>strconv.Atoi\<close>: an optional sign and decimal digits, within 64 bits.\<close>

definition Atoi :: "string \<Rightarrow> int option" where
  "Atoi s =
     (let negative = (s \<noteq> [] \<and> hd s = CHR ''-'');
          digits = (if s \<noteq> [] \<and> (hd s = CHR ''-'' \<or> hd s = CHR ''+'') then tl s else s);
          n = (if negative then - int (decimal digits) else int (decimal digits))
      in if digits \<noteq> [] \<and> list_all is_digit digits \<and> - (2 ^ 63) \<le> n \<and> n < 2 ^ 63 then Some n else None)"

lemma digit_char_digit: "d < 10 \<Longrightarrow> is_digit (digit_char d) \<and> digit_value (digit_char d) = d"
  by (simp add: is_digit_def digit_value_def digit_char_def ascii_between_def)

lemma show_nat_not_Nil [simp]: "show_nat n \<noteq> []"
  by (subst show_nat.simps) simp

lemma show_nat_digits: "list_all is_digit (show_nat n)"
proof (induction n rule: show_nat.induct)
  case (1 n)
  then show ?case by (subst show_nat.simps) (auto simp: digit_char_digit)
qed

lemma decimal_snoc: "decimal (s @ [c]) = decimal s * 10 + digit_value c"
  by (simp add: decimal_def)

lemma decimal_show_nat [simp]: "decimal (show_nat n) = n"
proof (induction n rule: show_nat.induct)
  case (1 n)
  show ?case
  proof (cases "n < 10")
    case True
    then show ?thesis by (simp add: show_nat.simps [of n] decimal_def digit_char_digit)
  next
    case False
    with 1 show ?thesis by (simp add: show_nat.simps [of n] decimal_snoc digit_char_digit)
  qed
qed

text \<open>A sign is not a digit.\<close>

lemma is_digit_sign [simp]: "\<not> is_digit (CHR ''-'')" "\<not> is_digit (CHR ''+'')" "\<not> is_digit (CHR ''.'')" "\<not> is_digit (CHR '':'')"
  by (simp_all add: is_digit_def ascii_between_def)

lemma hd_show_nat: "is_digit (hd (show_nat n))"
  using show_nat_digits [of n] by (cases "show_nat n") auto

lemma Atoi_show_nat: "n < 2 ^ 63 \<Longrightarrow> Atoi (show_nat n) = Some (int n)"
  using hd_show_nat [of n] show_nat_digits [of n] by (auto simp: Atoi_def Let_def)

text \<open>\<open>strconv.Itoa\<close>\<close>

definition Itoa :: "int \<Rightarrow> string" where
  "Itoa n = (if n < 0 then CHR ''-'' # show_nat (nat (- n)) else show_nat (nat n))"


section \<open>Hosts and ports\<close>

definition JoinHostPort :: "string \<Rightarrow> string \<Rightarrow> string" where
  "JoinHostPort host port =
     (if CHR '':'' \<in> set host then ''['' @ host @ '']:'' @ port else host @ '':'' @ port)"

text \<open>The text before and after the last occurrence of a character.\<close>

definition cut_last :: "string \<Rightarrow> char \<Rightarrow> (string \<times> string) option" where
  "cut_last s c = (if c \<in> set s
     then Some (rev (tl (dropWhile (\<lambda>d. d \<noteq> c) (rev s))), rev (takeWhile (\<lambda>d. d \<noteq> c) (rev s)))
     else None)"

text \<open>
  \<open>net.SplitHostPort\<close>: the host and the port after the last colon.  A host that holds a colon stands
  in brackets, with the first closing bracket right before the last colon.
\<close>

definition SplitHostPort :: "string \<Rightarrow> (string \<times> string) option" where
  "SplitHostPort hostport = (case cut_last hostport (CHR '':'') of
       None \<Rightarrow> None
     | Some (before, port) \<Rightarrow>
         if hd hostport = CHR ''['' then
           (case Cut hostport '']'' of (a, b, found) \<Rightarrow>
              if \<not> found then None
              else if a @ '']'' \<noteq> before then None
              else let host = tl a in
                if CHR ''['' \<in> set (tl hostport) then None
                else if CHR '']'' \<in> set (drop (length a + 1) hostport) then None
                else Some (host, port))
         else if CHR '':'' \<in> set before then None
         else if CHR ''['' \<in> set hostport \<or> CHR '']'' \<in> set hostport then None
         else Some (before, port))"

lemma cut_last_append: "c \<notin> set b \<Longrightarrow> cut_last (a @ c # b) c = Some (a, b)"
  by (auto simp: cut_last_def dropWhile_append takeWhile_append)

lemma SplitHostPort_Join:
  assumes "CHR ''['' \<notin> set host" "CHR '']'' \<notin> set host" "set port \<inter> {CHR '':'', CHR ''['', CHR '']''} = {}"
  shows "SplitHostPort (JoinHostPort host port) = Some (host, port)"
proof (cases "CHR '':'' \<in> set host")
  case True
  have "cut_last (''['' @ host @ '']:'' @ port) (CHR '':'') = Some (''['' @ host @ '']'', port)"
    using cut_last_append [of "CHR '':''" port "''['' @ host @ '']''"] assms(3) by auto
  moreover have "Cut (''['' @ host @ '']:'' @ port) '']'' = (''['' @ host, '':'' @ port, True)"
    using Cut_char [of "CHR '']''" "''['' @ host" "'':'' @ port"] assms(2) by auto
  ultimately show ?thesis using True assms by (auto simp: SplitHostPort_def JoinHostPort_def)
next
  case False
  have "cut_last (host @ '':'' @ port) (CHR '':'') = Some (host, port)"
    using cut_last_append [of "CHR '':''" port host] assms(3) by auto
  moreover have "hd (host @ '':'' @ port) \<noteq> CHR ''[''" using assms(1) by (cases host) auto
  ultimately show ?thesis using False assms by (auto simp: SplitHostPort_def JoinHostPort_def)
qed


lemma cut_last_Some: "cut_last s c = Some (a, b) \<Longrightarrow> s = a @ c # b"
proof -
  assume cut: "cut_last s c = Some (a, b)"
  then have c: "c \<in> set (rev s)" by (auto simp: cut_last_def split: if_splits)
  then obtain u where "dropWhile (\<lambda>d. d \<noteq> c) (rev s) = c # u"
    by (metis (mono_tags, lifting) dropWhile_eq_Nil_conv hd_dropWhile list.collapse)
  with cut c have "a = rev u" "b = rev (takeWhile (\<lambda>d. d \<noteq> c) (rev s))" "rev s = takeWhile (\<lambda>d. d \<noteq> c) (rev s) @ c # u"
    by (auto simp: cut_last_def split: if_splits) (metis takeWhile_dropWhile_id)
  then show ?thesis by (metis append.assoc append_Cons append_Nil rev.simps(2) rev_append rev_rev_ident)
qed

text \<open>What \<open>SplitHostPort\<close> accepts is the host and the port again, with the brackets.\<close>

lemma SplitHostPort_Some:
  assumes "SplitHostPort e = Some (h, p)"
  shows "e = h @ '':'' @ p \<or> e = ''['' @ h @ '']:'' @ p"
proof -
  from assms obtain before where cut: "cut_last e (CHR '':'') = Some (before, p)"
    by (auto simp: SplitHostPort_def split: option.splits if_splits prod.splits)
  have e: "e = before @ '':'' @ p" using cut_last_Some [OF cut] by simp
  show ?thesis
  proof (cases "hd e = CHR ''[''")
    case True
    with assms cut obtain a b where "Cut e '']'' = (a, b, True)" "a @ '']'' = before" "h = tl a"
      by (auto simp: SplitHostPort_def Let_def split: prod.splits if_splits)
    with e True show ?thesis by (cases a) auto
  next
    case False
    with assms cut e show ?thesis by (auto simp: SplitHostPort_def split: if_splits)
  qed
qed

end
