(* ===== verification/Netip.thy ===== *)
theory Netip
  imports Text
begin

text \<open>
  Go's \<open>net/netip\<close>: addresses, \<open>ParseAddr\<close>, \<open>String\<close>, \<open>Unmap\<close> and the predicates the target policy
  uses.  An address is the zero value, four bytes or sixteen bytes; zones are left out, since every
  caller refuses text that holds a percent sign.  Printing an address and parsing the text gives the
  address back.
\<close>

section \<open>Addresses\<close>

type_synonym byte = "8 word"

datatype Addr = ZeroAddr | IP4 "byte list" | IP6 "byte list"

fun well_formed :: "Addr \<Rightarrow> bool" where
  "well_formed ZeroAddr = True"
| "well_formed (IP4 b) = (length b = 4)"
| "well_formed (IP6 b) = (length b = 16)"

definition IsValid :: "Addr \<Rightarrow> bool" where
  "IsValid a \<longleftrightarrow> a \<noteq> ZeroAddr"

definition Is4 :: "Addr \<Rightarrow> bool" where
  "Is4 a = (case a of IP4 _ \<Rightarrow> True | _ \<Rightarrow> False)"

definition Is6 :: "Addr \<Rightarrow> bool" where
  "Is6 a = (case a of IP6 _ \<Rightarrow> True | _ \<Rightarrow> False)"

definition Is4In6 :: "Addr \<Rightarrow> bool" where
  "Is4In6 a = (case a of IP6 b \<Rightarrow> take 12 b = replicate 10 0 @ [0xff, 0xff] | _ \<Rightarrow> False)"

definition Unmap :: "Addr \<Rightarrow> Addr" where
  "Unmap a = (if Is4In6 a then (case a of IP6 b \<Rightarrow> IP4 (drop 12 b) | _ \<Rightarrow> a) else a)"

text \<open>\<open>v6u16\<close>: a group of two bytes.\<close>

definition v6u16 :: "byte list \<Rightarrow> nat \<Rightarrow> nat" where
  "v6u16 b i = unat (b ! (2 * i)) * 256 + unat (b ! (2 * i + 1))"

definition IsUnspecified :: "Addr \<Rightarrow> bool" where
  "IsUnspecified a \<longleftrightarrow> a = IP4 (replicate 4 0) \<or> a = IP6 (replicate 16 0)"

definition IsLoopback :: "Addr \<Rightarrow> bool" where
  "IsLoopback a = (case Unmap a of IP4 b \<Rightarrow> b ! 0 = 127 | IP6 b \<Rightarrow> b = replicate 15 0 @ [1] | ZeroAddr \<Rightarrow> False)"

definition IsMulticast :: "Addr \<Rightarrow> bool" where
  "IsMulticast a = (case Unmap a of
       IP4 b \<Rightarrow> and (b ! 0) 0xf0 = 0xe0
     | IP6 b \<Rightarrow> v6u16 b 0 div 256 = 0xff
     | ZeroAddr \<Rightarrow> False)"

definition IsLinkLocalMulticast :: "Addr \<Rightarrow> bool" where
  "IsLinkLocalMulticast a = (case Unmap a of
       IP4 b \<Rightarrow> b ! 0 = 224 \<and> b ! 1 = 0 \<and> b ! 2 = 0
     | IP6 b \<Rightarrow> and (v6u16 b 0) 0xff0f = 0xff02
     | ZeroAddr \<Rightarrow> False)"

definition IsLinkLocalUnicast :: "Addr \<Rightarrow> bool" where
  "IsLinkLocalUnicast a = (case Unmap a of
       IP4 b \<Rightarrow> b ! 0 = 169 \<and> b ! 1 = 254
     | IP6 b \<Rightarrow> and (v6u16 b 0) 0xffc0 = 0xfe80
     | ZeroAddr \<Rightarrow> False)"


section \<open>Parsing\<close>

text \<open>\<open>parseIPv4Fields\<close>: the fields so far, the value and the number of digits of the current one.\<close>

fun parse_v4 :: "byte list \<Rightarrow> nat \<Rightarrow> nat \<Rightarrow> string \<Rightarrow> byte list option" where
  "parse_v4 fs val dig [] = (if length fs < 3 then None else Some (fs @ [of_nat val]))"
| "parse_v4 fs val dig (c # cs) =
     (if is_digit c then
        (if dig = 1 \<and> val = 0 then None
         else let val = val * 10 + digit_value c in
           if val > 255 then None else parse_v4 fs val (Suc dig) cs)
      else if c = CHR ''.'' then
        (if dig = 0 \<or> cs = [] then None
         else if length fs = 3 then None
         else parse_v4 (fs @ [of_nat val]) 0 0 cs)
      else None)"

definition hex_value :: "char \<Rightarrow> nat option" where
  "hex_value c =
     (if ascii_between 48 c 57 then Some (of_char c - 48)
      else if ascii_between 97 c 102 then Some (of_char c - 87)
      else if ascii_between 65 c 70 then Some (of_char c - 55)
      else None)"

text \<open>The digits of a group: their number, their value and the rest; more than four are an error.\<close>

fun hex_group :: "nat \<Rightarrow> nat \<Rightarrow> string \<Rightarrow> (nat \<times> nat \<times> string) option" where
  "hex_group off acc [] = Some (off, acc, [])"
| "hex_group off acc (c # cs) = (case hex_value c of
       None \<Rightarrow> Some (off, acc, c # cs)
     | Some v \<Rightarrow>
         let acc = acc * 16 + v in
         if off > 3 \<or> acc > 65535 then None else hex_group (Suc off) acc cs)"

definition group_bytes :: "nat \<Rightarrow> byte list" where
  "group_bytes g = [of_nat (g div 256), of_nat (g mod 256)]"

text \<open>The loop of \<open>parseIPv6\<close>: the bytes so far, the position of the ellipsis and the rest of the text.\<close>

function parse_v6_loop :: "byte list \<Rightarrow> nat option \<Rightarrow> string \<Rightarrow> (byte list \<times> nat option \<times> string) option" where
  "parse_v6_loop ip ell s =
     (if length ip \<ge> 16 then Some (ip, ell, s)
      else case hex_group 0 0 s of
          None \<Rightarrow> None
        | Some (off, acc, rest) \<Rightarrow>
            if off = 0 then None
            else if rest \<noteq> [] \<and> hd rest = CHR ''.'' then
              (if ell = None \<and> length ip \<noteq> 12 then None
               else if length ip + 4 > 16 then None
               else map_option (\<lambda>fs. (ip @ fs, ell, [])) (parse_v4 [] 0 0 s))
            else let ip = ip @ group_bytes acc in
              (case rest of
                 [] \<Rightarrow> Some (ip, ell, [])
               | c # cs \<Rightarrow>
                   if c \<noteq> CHR '':'' \<or> cs = [] then None
                   else if hd cs = CHR '':'' then
                     (if ell \<noteq> None then None
                      else if tl cs = [] then Some (ip, Some (length ip), [])
                      else parse_v6_loop ip (Some (length ip)) (tl cs))
                   else parse_v6_loop ip ell cs))"
  by auto
termination
  by (relation "measure (\<lambda>(ip, _, _). 16 - length ip)") (auto simp: group_bytes_def)

declare parse_v6_loop.simps [simp del]

definition parse_v6 :: "string \<Rightarrow> Addr option" where
  "parse_v6 s =
     (let ell = (if prefix ''::'' s then Some 0 else None);
          rest = (if prefix ''::'' s then drop 2 s else s)
      in if ell \<noteq> None \<and> rest = [] then Some (IP6 (replicate 16 0))
         else case parse_v6_loop [] ell rest of
             None \<Rightarrow> None
           | Some (ip, ell, rest) \<Rightarrow>
               if rest \<noteq> [] then None
               else if length ip < 16 then
                 map_option (\<lambda>e. IP6 (take e ip @ replicate (16 - length ip) 0 @ drop e ip)) ell
               else if ell \<noteq> None then None
               else Some (IP6 ip))"

text \<open>The first dot, colon or percent sign decides.\<close>

definition ParseAddr :: "string \<Rightarrow> Addr option" where
  "ParseAddr s = (case find (\<lambda>c. c \<in> set ''.:%'') s of
       None \<Rightarrow> None
     | Some c \<Rightarrow>
         if c = CHR ''.'' then map_option IP4 (parse_v4 [] 0 0 s)
         else if c = CHR '':'' then if CHR ''%'' \<in> set s then None else parse_v6 s
         else None)"


section \<open>Printing\<close>

definition string4 :: "byte list \<Rightarrow> string" where
  "string4 b = join_with (CHR ''.'') (map (\<lambda>x. show_nat (unat x)) b)"

fun show_hex :: "nat \<Rightarrow> string" where
  "show_hex n = (if n < 16 then [hex_digit n] else show_hex (n div 16) @ [hex_digit (n mod 16)])"

declare show_hex.simps [simp del]

definition groups :: "byte list \<Rightarrow> nat list" where
  "groups b = map (v6u16 b) [0..<8]"

text \<open>The longest run of at least two zero groups, the first of its length: where it begins and ends.\<close>

definition zero_run :: "nat list \<Rightarrow> nat \<times> nat" where
  "zero_run gs = foldl (\<lambda>(st, en) i.
       let l = length (takeWhile (\<lambda>g. g = 0) (drop i gs)) in
       if l \<ge> 2 \<and> l > en - st then (i, i + l) else (st, en)) (255, 255) [0..<8]"

definition string6 :: "byte list \<Rightarrow> string" where
  "string6 b =
     (let gs = groups b; hex = (\<lambda>gs. join_with (CHR '':'') (map show_hex gs)) in
      case zero_run gs of (st, en) \<Rightarrow>
        if st \<ge> 8 then hex gs else hex (take st gs) @ ''::'' @ hex (drop en gs))"

definition String :: "Addr \<Rightarrow> string" where
  "String a = (case a of
       ZeroAddr \<Rightarrow> ''invalid IP''
     | IP4 b \<Rightarrow> string4 b
     | IP6 b \<Rightarrow> if Is4In6 a then ''::ffff:'' @ string4 (drop 12 b) else string6 b)"


section \<open>Parsing what was printed\<close>

lemma show_nat_small:
  "n < 10 \<Longrightarrow> show_nat n = [digit_char n]"
  "10 \<le> n \<Longrightarrow> n < 100 \<Longrightarrow> show_nat n = [digit_char (n div 10), digit_char (n mod 10)]"
  "100 \<le> n \<Longrightarrow> n < 1000 \<Longrightarrow> show_nat n = [digit_char (n div 100), digit_char (n div 10 mod 10), digit_char (n mod 10)]"
  by (simp_all add: show_nat.simps [of n] show_nat.simps [of "n div 10"] show_nat.simps [of "n div 100"] div_mult2_eq [symmetric],
      linarith)

lemma parse_v4_digit:
  assumes "d < 10" and "dig = 1 \<longrightarrow> val \<noteq> 0" and "val * 10 + d \<le> 255"
  shows "parse_v4 fs val dig (digit_char d # rest) = parse_v4 fs (val * 10 + d) (Suc dig) rest"
  using assms by (auto simp: digit_char_digit Let_def)

lemma parse_v4_octet:
  assumes "n \<le> 255"
  shows "parse_v4 fs 0 0 (show_nat n @ rest) = parse_v4 fs n (length (show_nat n)) rest"
proof -
  consider "n < 10" | "10 \<le> n" "n < 100" | "100 \<le> n" "n < 1000" using assms by linarith
  then show ?thesis
  proof cases
    case 1
    with assms show ?thesis by (simp add: show_nat_small parse_v4_digit del: parse_v4.simps)
  next
    case 2
    then have "n div 10 < 10" "n div 10 \<noteq> 0" by simp_all
    with 2 assms show ?thesis by (simp add: show_nat_small parse_v4_digit del: parse_v4.simps)
  next
    case 3
    have "n div 100 * 10 + n div 10 mod 10 = n div 10"
      using div_mult_mod_eq [of "n div 10" 10] by (simp add: div_mult2_eq [symmetric])
    moreover have "n div 100 < 10" "n div 100 \<noteq> 0" "n div 10 \<le> 255" "n div 10 \<noteq> 0" using 3 assms by simp_all
    ultimately show ?thesis using 3 assms by (simp add: show_nat_small parse_v4_digit del: parse_v4.simps)
  qed
qed

lemma unat_byte: "unat (x :: byte) \<le> 255"
proof -
  have "unat x < 2 ^ LENGTH(8)" by (rule unsigned_less)
  then show ?thesis by simp
qed

lemma parse_v4_dot:
  "length fs < 3 \<Longrightarrow> rest \<noteq> [] \<Longrightarrow>
   parse_v4 fs 0 0 (show_nat (unat x) @ CHR ''.'' # rest) = parse_v4 (fs @ [x]) 0 0 rest"
  by (simp add: parse_v4_octet unat_byte)

lemma length_4: "length b = 4 \<longleftrightarrow> (\<exists>w x y z. b = [w, x, y, z])"
  by (auto simp: numeral_eq_Suc length_Suc_conv)

lemma parse_string4: "length b = 4 \<Longrightarrow> parse_v4 [] 0 0 (string4 b) = Some b"
  using parse_v4_octet [OF unat_byte, of _ _ "[]"]
  by (auto simp: length_4 string4_def parse_v4_dot)

lemma hex_value_digit: "d < 16 \<Longrightarrow> hex_value (hex_digit d) = Some d"
  by (auto simp: hex_value_def hex_digit_def ascii_between_def)

lemma show_hex_small:
  "n < 16 \<Longrightarrow> show_hex n = [hex_digit n]"
  "16 \<le> n \<Longrightarrow> n < 256 \<Longrightarrow> show_hex n = [hex_digit (n div 16), hex_digit (n mod 16)]"
  "256 \<le> n \<Longrightarrow> n < 4096 \<Longrightarrow> show_hex n = [hex_digit (n div 256), hex_digit (n div 16 mod 16), hex_digit (n mod 16)]"
  "4096 \<le> n \<Longrightarrow> n < 65536 \<Longrightarrow>
     show_hex n = [hex_digit (n div 4096), hex_digit (n div 256 mod 16), hex_digit (n div 16 mod 16), hex_digit (n mod 16)]"
  by (simp_all add: show_hex.simps [of n] show_hex.simps [of "n div 16"] show_hex.simps [of "n div 256"]
      show_hex.simps [of "n div 4096"] div_mult2_eq [symmetric], linarith+)

lemma hex_group_stop: "rest = [] \<or> hex_value (hd rest) = None \<Longrightarrow> hex_group off acc rest = Some (off, acc, rest)"
  by (cases rest) auto

lemma hex_group_digit:
  "d < 16 \<Longrightarrow> off \<le> 3 \<Longrightarrow> acc * 16 + d \<le> 65535 \<Longrightarrow>
   hex_group off acc (hex_digit d # rest) = hex_group (Suc off) (acc * 16 + d) rest"
  by (simp add: hex_value_digit Let_def)

lemma hex_group_show:
  assumes "g < 65536" and "rest = [] \<or> hex_value (hd rest) = None"
  shows "hex_group 0 0 (show_hex g @ rest) = Some (length (show_hex g), g, rest)"
proof -
  have parts: "g div 256 * 16 + g div 16 mod 16 = g div 16" "g div 4096 * 16 + g div 256 mod 16 = g div 256"
    using div_mult_mod_eq [of "g div 16" 16] div_mult_mod_eq [of "g div 256" 16] by (simp_all add: div_mult2_eq [symmetric])
  have le: "g div 16 \<le> 65535" "g div 256 \<le> 65535" "g div 4096 \<le> 65535" using assms(1) by linarith+
  consider "g < 16" | "16 \<le> g" "g < 256" | "256 \<le> g" "g < 4096" | "4096 \<le> g" "g < 65536" using assms by linarith
  then show ?thesis
  proof cases
    case 2
    then have "g div 16 < 16" by linarith
    with 2 assms le show ?thesis by (simp add: show_hex_small hex_group_digit hex_group_stop del: hex_group.simps)
  next
    case 3
    then have "g div 256 < 16" by linarith
    with 3 assms le parts show ?thesis by (simp add: show_hex_small hex_group_digit hex_group_stop del: hex_group.simps)
  next
    case 4
    then have "g div 4096 < 16" by linarith
    with 4 assms le parts show ?thesis by (simp add: show_hex_small hex_group_digit hex_group_stop del: hex_group.simps)
  qed (use assms in \<open>simp add: show_hex_small hex_group_digit hex_group_stop del: hex_group.simps\<close>)
qed

lemma show_hex_not_Nil [simp]: "show_hex n \<noteq> []"
  by (subst show_hex.simps) simp


lemma hex_value_colon [simp]: "hex_value (CHR '':'') = None" "hex_value (CHR ''.'') = None"
  by (simp_all add: hex_value_def ascii_between_def)

abbreviation hex_text :: "nat list \<Rightarrow> string" where
  "hex_text gs \<equiv> join_with (CHR '':'') (map show_hex gs)"

abbreviation groups_bytes :: "nat list \<Rightarrow> byte list" where
  "groups_bytes gs \<equiv> concat (map group_bytes gs)"

lemma length_group_bytes [simp]: "length (group_bytes g) = 2"
  by (simp add: group_bytes_def)

lemma length_groups_bytes [simp]: "length (groups_bytes gs) = 2 * length gs"
  by (induction gs) simp_all

lemma show_hex_hd: "hex_value (hd (show_hex g)) \<noteq> None"
proof (induction g rule: show_hex.induct)
  case (1 n)
  then show ?case by (subst show_hex.simps) (auto simp: hex_value_digit hd_append)
qed

lemma hex_text_hd: "gs \<noteq> [] \<Longrightarrow> hex_text gs \<noteq> [] \<and> hd (hex_text gs) \<noteq> CHR '':''"
proof -
  assume "gs \<noteq> []"
  then obtain g hs where "gs = g # hs" by (cases gs) auto
  moreover have "hd (show_hex g) \<noteq> CHR '':''" using show_hex_hd [of g] by (metis hex_value_colon(1))
  ultimately show ?thesis by (cases hs) (simp_all add: hd_append)
qed

text \<open>One group of the loop, by what follows it.\<close>

lemma v6_loop_last:
  "g < 65536 \<Longrightarrow> length ip < 16 \<Longrightarrow> parse_v6_loop ip ell (show_hex g) = Some (ip @ group_bytes g, ell, [])"
  using hex_group_show [of g "[]"] by (subst parse_v6_loop.simps) simp

lemma v6_loop_colon:
  assumes "g < 65536" and "length ip < 16" and "s \<noteq> []" and "hd s \<noteq> CHR '':''"
  shows "parse_v6_loop ip ell (show_hex g @ '':'' @ s) = parse_v6_loop (ip @ group_bytes g) ell s"
  using assms hex_group_show [of g "'':'' @ s"] by (subst parse_v6_loop.simps) simp

lemma v6_loop_ellipsis:
  assumes "g < 65536" and "length ip < 16"
  shows "parse_v6_loop ip None (show_hex g @ ''::'' @ s) =
    (if s = [] then Some (ip @ group_bytes g, Some (length ip + 2), [])
     else parse_v6_loop (ip @ group_bytes g) (Some (length ip + 2)) s)"
  using assms hex_group_show [of g "''::'' @ s"] by (subst parse_v6_loop.simps) simp

lemma v6_loop_groups:
  assumes "gs \<noteq> []" and "\<forall>g\<in>set gs. g < 65536" and "length ip + 2 * length gs \<le> 16"
  shows "parse_v6_loop ip ell (hex_text gs) = Some (ip @ groups_bytes gs, ell, [])"
  using assms
proof (induction gs arbitrary: ip)
  case (Cons g gs)
  show ?case
  proof (cases "gs = []")
    case True
    with Cons.prems show ?thesis by (simp add: v6_loop_last)
  next
    case False
    with Cons.prems hex_text_hd [OF False] Cons.IH [OF False, of "ip @ group_bytes g"] show ?thesis
      by (simp add: join_with_Cons v6_loop_colon [simplified])
  qed
qed simp

lemma v6_loop_groups_ellipsis:
  assumes "gs \<noteq> []" and "\<forall>g\<in>set gs. g < 65536" and "length ip + 2 * length gs \<le> 16"
  shows "parse_v6_loop ip None (hex_text gs @ ''::'' @ s) =
    (if s = [] then Some (ip @ groups_bytes gs, Some (length ip + 2 * length gs), [])
     else parse_v6_loop (ip @ groups_bytes gs) (Some (length ip + 2 * length gs)) s)"
  using assms
proof (induction gs arbitrary: ip)
  case (Cons g gs)
  show ?case
  proof (cases "gs = []")
    case True
    with Cons.prems v6_loop_ellipsis [of g ip s] show ?thesis by simp
  next
    case False
    have "parse_v6_loop ip None (show_hex g @ '':'' @ (hex_text gs @ ''::'' @ s)) =
        parse_v6_loop (ip @ group_bytes g) None (hex_text gs @ ''::'' @ s)"
      using Cons.prems hex_text_hd [OF False] by (intro v6_loop_colon) (auto simp: hd_append)
    with Cons.prems Cons.IH [OF False, of "ip @ group_bytes g"] False show ?thesis
      by (simp add: join_with_Cons)
  qed
qed simp


text \<open>The groups of sixteen bytes.\<close>

lemma group_bound: "v6u16 b i < 65536"
  using unat_byte [of "b ! (2 * i)"] unat_byte [of "b ! (2 * i + 1)"] by (simp add: v6u16_def)

lemma groups_bounded: "\<forall>g\<in>set (groups b). g < 65536"
  by (auto simp: groups_def group_bound)

lemma length_groups [simp]: "length (groups b) = 8"
  by (simp add: groups_def)

lemma group_bytes_v6u16: "group_bytes (v6u16 b i) = [b ! (2 * i), b ! (2 * i + 1)]"
  using unat_byte [of "b ! (2 * i + 1)"] by (simp add: group_bytes_def v6u16_def)

lemma length_16: "length b = 16 \<longleftrightarrow> (\<exists>b0 b1 b2 b3 b4 b5 b6 b7 b8 b9 b10 b11 b12 b13 b14 b15.
    b = [b0, b1, b2, b3, b4, b5, b6, b7, b8, b9, b10, b11, b12, b13, b14, b15])"
  by (auto simp: numeral_eq_Suc length_Suc_conv)

lemma groups_bytes_groups: "length b = 16 \<Longrightarrow> groups_bytes (groups b) = b"
  by (auto simp: length_16 groups_def group_bytes_v6u16 o_def upt_rec)

lemma groups_bytes_zero: "concat (replicate n (group_bytes 0)) = replicate (2 * n) 0"
  by (induction n) (simp_all add: group_bytes_def)

lemma zero_run_cases:
  assumes "length gs = 8" and "zero_run gs = (st, en)"
  shows "st = 255 \<or> st + 2 \<le> en \<and> en \<le> 8 \<and> gs = take st gs @ replicate (en - st) 0 @ drop en gs"
proof -
  define ok where "ok p \<longleftrightarrow> fst p = 255 \<or>
      fst p + 2 \<le> snd p \<and> snd p \<le> 8 \<and> gs = take (fst p) gs @ replicate (snd p - fst p) 0 @ drop (snd p) gs" for p :: "nat \<times> nat"
  have run: "ok (i, i + length (takeWhile (\<lambda>g. g = 0) (drop i gs)))"
    if "2 \<le> length (takeWhile (\<lambda>g. g = 0) (drop i gs))" for i
  proof -
    let ?z = "takeWhile (\<lambda>g. g = 0) (drop i gs)"
    have z: "?z = replicate (length ?z) 0" by (rule replicate_length_same [symmetric]) (auto dest: set_takeWhileD)
    have "drop i gs = ?z @ drop (length ?z) (drop i gs)"
      by (metis dropWhile_eq_drop takeWhile_dropWhile_id)
    then have "gs = take i gs @ ?z @ drop (length ?z) (drop i gs)" by (metis append_take_drop_id)
    moreover have "i + length ?z \<le> 8"
      using length_takeWhile_le [of "\<lambda>g. g = 0" "drop i gs"] assms(1) that by (cases "i \<le> 8") auto
    ultimately show ?thesis using that z by (simp add: ok_def drop_drop add.commute)
  qed
  have "ok p \<Longrightarrow> ok (foldl (\<lambda>(st, en) i. let l = length (takeWhile (\<lambda>g. g = 0) (drop i gs)) in
      if l \<ge> 2 \<and> l > en - st then (i, i + l) else (st, en)) p is)" for p "is"
    by (induction "is" arbitrary: p) (auto simp: Let_def run split: prod.splits)
  then have "ok (zero_run gs)" by (simp add: zero_run_def ok_def)
  with assms(2) show ?thesis by (simp add: ok_def)
qed

lemma show_hex_chars: "c \<in> set (show_hex g) \<Longrightarrow> hex_value c \<noteq> None"
proof (induction g rule: show_hex.induct)
  case (1 n)
  from "1.prems" have "c \<in> set (if n < 16 then [hex_digit n] else show_hex (n div 16) @ [hex_digit (n mod 16)])"
    by (subst (asm) show_hex.simps)
  with "1.IH" show ?case by (auto simp: hex_value_digit split: if_splits)
qed

lemma hex_text_chars: "c \<in> set (hex_text gs) \<Longrightarrow> c = CHR '':'' \<or> hex_value c \<noteq> None"
proof (induction gs)
  case (Cons g gs)
  then have "c \<in> set (show_hex g) \<or> c = CHR '':'' \<or> c \<in> set (hex_text gs)" by (cases gs) auto
  with Cons.IH show_hex_chars show ?case by blast
qed simp

lemma hex_value_marks [simp]: "hex_value (CHR ''%'') = None"
  by (simp add: hex_value_def ascii_between_def)

lemma find_only: "c \<in> set xs \<Longrightarrow> P c \<Longrightarrow> \<forall>x\<in>set xs. P x \<longrightarrow> x = c \<Longrightarrow> find P xs = Some c"
proof (induction xs)
  case (Cons x xs)
  show ?case
  proof (cases "P x")
    case True
    with Cons.prems(3) show ?thesis by simp
  next
    case False
    with Cons.prems(1,2) have "c \<in> set xs" by auto
    moreover have "\<forall>x\<in>set xs. P x \<longrightarrow> x = c" using Cons.prems(3) by (meson list.set_intros(2))
    ultimately have "find P xs = Some c" by (intro Cons.IH Cons.prems(2))
    with False show ?thesis by simp
  qed
qed simp

text \<open>Text of hexadecimal digits and colons is parsed as an IPv6 address.\<close>

lemma ParseAddr_v6:
  assumes "\<forall>c\<in>set s. c = CHR '':'' \<or> hex_value c \<noteq> None" and "CHR '':'' \<in> set s"
  shows "ParseAddr s = parse_v6 s"
proof -
  have no: "CHR ''.'' \<notin> set s" "CHR ''%'' \<notin> set s"
    using bspec [OF assms(1), of "CHR ''.''"] bspec [OF assms(1), of "CHR ''%''"] by auto
  then have "find (\<lambda>c. c \<in> set ''.:%'') s = Some (CHR '':'')"
    using assms(2) by (intro find_only) auto
  with no show ?thesis by (simp add: ParseAddr_def)
qed


lemma parse_v6_plain:
  assumes "s \<noteq> []" and "hd s \<noteq> CHR '':''" and "parse_v6_loop [] None s = Some (ip, ell, [])"
  shows "parse_v6 s = (if length ip < 16 then map_option (\<lambda>e. IP6 (take e ip @ replicate (16 - length ip) 0 @ drop e ip)) ell
     else if ell \<noteq> None then None else Some (IP6 ip))"
proof -
  have "\<not> prefix ''::'' s" using assms(1,2) by (cases s) auto
  with assms(3) show ?thesis by (simp add: parse_v6_def)
qed

lemma parse_v6_leading:
  assumes "s \<noteq> []" and "parse_v6_loop [] (Some 0) s = Some (ip, Some 0, [])" and "length ip < 16"
  shows "parse_v6 (''::'' @ s) = Some (IP6 (replicate (16 - length ip) 0 @ ip))"
  using assms by (simp add: parse_v6_def)

lemma parse_string6:
  assumes b: "length b = 16"
  shows "ParseAddr (string6 b) = Some (IP6 b)"
proof -
  let ?gs = "groups b"
  obtain st en where run: "zero_run ?gs = (st, en)" by fastforce
  have bytes: "groups_bytes ?gs = b" using b by (rule groups_bytes_groups)
  have bound: "\<forall>g\<in>set (take k ?gs). g < 65536" "\<forall>g\<in>set (drop k ?gs). g < 65536" for k
    using groups_bounded [of b] by (auto dest: in_set_takeD in_set_dropD)
  have ne: "?gs \<noteq> []" using length_groups [of b] by (metis length_0_conv zero_neq_numeral)
  show ?thesis
  proof (cases "st < 8")
    case False
    have printed: "string6 b = hex_text ?gs" using False run by (simp add: string6_def Let_def)
    have "CHR '':'' \<in> set (hex_text ?gs)"
      using length_groups [of b] ne by (cases ?gs; cases "tl ?gs") auto
    then have "ParseAddr (string6 b) = parse_v6 (hex_text ?gs)"
      using hex_text_chars unfolding printed by (intro ParseAddr_v6) blast
    also have "\<dots> = Some (IP6 b)"
      using parse_v6_plain [of "hex_text ?gs" b None] v6_loop_groups [OF ne groups_bounded, of "[]" None] hex_text_hd [OF ne] b bytes
      by simp
    finally show ?thesis .
  next
    case True
    with zero_run_cases [OF length_groups run] have se: "st + 2 \<le> en" "en \<le> 8"
      and split: "?gs = take st ?gs @ replicate (en - st) 0 @ drop en ?gs" by auto
    let ?h = "hex_text (take st ?gs)" and ?t = "hex_text (drop en ?gs)"
    have printed: "string6 b = ?h @ ''::'' @ ?t" using True run by (simp add: string6_def Let_def)
    have "ParseAddr (string6 b) = parse_v6 (?h @ ''::'' @ ?t)"
      using hex_text_chars unfolding printed by (intro ParseAddr_v6) auto
    moreover have "b = groups_bytes (take st ?gs @ replicate (en - st) 0 @ drop en ?gs)"
      using bytes split by metis
    then have whole: "b = groups_bytes (take st ?gs) @ replicate (2 * (en - st)) 0 @ groups_bytes (drop en ?gs)"
      by (simp add: groups_bytes_zero)
    have tail: "parse_v6_loop ip ell ?t = Some (ip @ groups_bytes (drop en ?gs), ell, [])"
      if "en < 8" "length ip \<le> 2 * en" for ip ell
      using that v6_loop_groups [of "drop en ?gs" ip ell] bound(2) by simp
    have tne: "?t \<noteq> [] \<longleftrightarrow> en < 8" using hex_text_hd [of "drop en ?gs"] se by (cases "en < 8") auto
    consider (both) "st = 0" "en = 8" | (front) "st = 0" "en < 8" | (mid) "0 < st"
      using se by linarith
    then have "parse_v6 (?h @ ''::'' @ ?t) = Some (IP6 b)"
    proof cases
      case both
      then show ?thesis using whole by (simp add: parse_v6_def)
    next
      case front
      with tail [of "[]" "Some 0"] tne whole parse_v6_leading [of ?t "groups_bytes (drop en ?gs)"] se show ?thesis
        by (simp add: algebra_simps)
    next
      case mid
      let ?i = "groups_bytes (take st ?gs)"
      have "take st ?gs \<noteq> []" using mid ne by simp
      note head = hex_text_hd [OF this] v6_loop_groups_ellipsis [OF this bound(1), of "[]" ?t]
      have len: "length (take st ?gs) = st" using True by simp
      have "parse_v6_loop [] None (?h @ ''::'' @ ?t) =
          Some (?i @ groups_bytes (drop en ?gs), Some (2 * st), [])"
        using head(2) tail [of ?i "Some (2 * st)"] tne len se by (cases "en < 8") auto
      with parse_v6_plain [of "?h @ ''::'' @ ?t"] head(1) whole len se show ?thesis
        by (simp add: hd_append algebra_simps)
    qed
    ultimately show ?thesis by simp
  qed
qed


lemma string4_chars: "c \<in> set (string4 b) \<Longrightarrow> c = CHR ''.'' \<or> is_digit c"
  unfolding string4_def
proof (induction b)
  case (Cons x b)
  then have "c \<in> set (show_nat (unat x)) \<or> c = CHR ''.'' \<or>
      c \<in> set (join_with (CHR ''.'') (map (\<lambda>x. show_nat (unat x)) b))" by (cases b) auto
  moreover have "c \<in> set (show_nat (unat x)) \<Longrightarrow> is_digit c"
    using show_nat_digits [of "unat x"] by (simp add: list_all_iff)
  ultimately show ?case using Cons.IH by blast
qed simp

lemma parse_IP4: "length b = 4 \<Longrightarrow> ParseAddr (string4 b) = Some (IP4 b)"
proof -
  assume b: "length b = 4"
  have chars: "c = CHR ''.'' \<or> is_digit c" if "c \<in> set (string4 b)" for c
    using that by (rule string4_chars)
  have marks: "\<not> is_digit (CHR ''%'')" by (simp add: is_digit_def ascii_between_def)
  have "CHR ''.'' \<in> set (string4 b)" using b by (auto simp: length_4 string4_def)
  moreover have "\<forall>c\<in>set (string4 b). c \<in> set ''.:%'' \<longrightarrow> c = CHR ''.''"
    using chars marks by fastforce
  ultimately have "find (\<lambda>c. c \<in> set ''.:%'') (string4 b) = Some (CHR ''.'')"
    by (intro find_only) simp_all
  then show ?thesis using b by (simp add: ParseAddr_def parse_string4)
qed

lemma hex_value_bound: "hex_value c = Some v \<Longrightarrow> v < 16"
  by (auto simp: hex_value_def ascii_between_def split: if_splits)

lemma hex_group_digits:
  assumes "list_all (\<lambda>c. hex_value c \<noteq> None) ds" and "off + length ds \<le> 4" and "acc < 16 ^ off"
    and "rest = [] \<or> hex_value (hd rest) = None"
  shows "\<exists>acc'. hex_group off acc (ds @ rest) = Some (off + length ds, acc', rest)"
  using assms(1-3)
proof (induction ds arbitrary: off acc)
  case Nil
  with assms(4) show ?case by (simp add: hex_group_stop)
next
  case (Cons c ds)
  then obtain v where v: "hex_value c = Some v" by auto
  have acc: "acc * 16 + v < 16 ^ Suc off" using hex_value_bound [OF v] Cons.prems(3) by simp
  also have "(16 :: nat) ^ Suc off \<le> 16 ^ 4" using Cons.prems(2) by (intro power_increasing) auto
  finally have "acc * 16 + v \<le> 65535" by simp
  with Cons.IH [of "Suc off" "acc * 16 + v"] Cons.prems acc v show ?case by (simp add: Let_def)
qed

lemma hex_value_is_digit: "is_digit c \<Longrightarrow> hex_value c \<noteq> None"
  by (simp add: hex_value_def is_digit_def)

lemma length_show_octet: "length (show_nat (unat (x :: byte))) \<le> 3 \<and> 0 < length (show_nat (unat x))"
proof -
  consider "unat x < 10" | "10 \<le> unat x" "unat x < 100" | "100 \<le> unat x" "unat x < 1000"
    using unat_byte [of x] by linarith
  then show ?thesis by cases (simp_all add: show_nat_small)
qed

lemma string4_starts:
  assumes "length b = 4"
  obtains x :: byte and y where "string4 b = show_nat (unat x) @ CHR ''.'' # y"
proof -
  obtain p q r s where "b = [p, q, r, s]" using assms by (auto simp: length_4)
  then show ?thesis using that [of p "string4 [q, r, s]"] by (simp add: string4_def)
qed

lemma v6_loop_embedded:
  assumes "length b = 4" and "length ip \<le> 12"
  shows "parse_v6_loop ip (Some e) (string4 b) = Some (ip @ b, Some e, [])"
proof -
  obtain x :: byte and y where first: "string4 b = show_nat (unat x) @ CHR ''.'' # y"
    using assms(1) by (rule string4_starts)
  have "list_all (\<lambda>c. hex_value c \<noteq> None) (show_nat (unat x))"
    using show_nat_digits [of "unat x"] by (auto simp: list_all_iff dest: hex_value_is_digit)
  from hex_group_digits [OF this, of 0 0 "CHR ''.'' # y"] length_show_octet [of x] obtain acc where
    "hex_group 0 0 (string4 b) = Some (length (show_nat (unat x)), acc, CHR ''.'' # y)" by (auto simp: first)
  then show ?thesis using assms parse_string4 [OF assms(1)]
    by (subst parse_v6_loop.simps) simp
qed

lemma parse_4in6:
  assumes "length b = 16" and "Is4In6 (IP6 b)"
  shows "ParseAddr (''::ffff:'' @ string4 (drop 12 b)) = Some (IP6 b)"
proof -
  let ?d = "drop 12 b"
  have d: "length ?d = 4" and b: "b = replicate 10 0 @ [0xff, 0xff] @ ?d"
    using assms append_take_drop_id [of 12 b] by (auto simp: Is4In6_def)
  obtain x :: byte and y where "string4 ?d = show_nat (unat x) @ CHR ''.'' # y" using d by (rule string4_starts)
  then have ne: "string4 ?d \<noteq> []" "hd (string4 ?d) \<noteq> CHR '':''"
    using hd_show_nat [of "unat x"] by (auto simp: hd_append)
  have "hex_digit 15 = CHR ''f''" by (simp add: hex_digit_def char_of_def) code_simp
  then have "show_hex 0xffff = ''ffff''" by (simp add: show_hex_small)
  then have "parse_v6_loop [] (Some 0) (''ffff:'' @ string4 ?d) = Some ([0xff, 0xff] @ ?d, Some 0, [])"
    using v6_loop_colon [where g = "0xffff" and ip = "[]" and s = "string4 ?d" and ell = "Some 0"] ne
      v6_loop_embedded [OF d, where ip = "[0xff, 0xff]" and e = 0]
    by (simp add: group_bytes_def)
  from parse_v6_leading [OF _ this] d b have "parse_v6 (''::ffff:'' @ string4 ?d) = Some (IP6 b)"
    by simp
  moreover have "CHR ''%'' \<notin> set (string4 ?d)"
    using string4_chars [of "CHR ''%''" ?d] by (auto simp: is_digit_def ascii_between_def)
  ultimately show ?thesis by (simp add: ParseAddr_def)
qed

text \<open>Printing a valid address and parsing the text gives the address back.\<close>

lemma ParseAddr_String:
  assumes "well_formed a" and "IsValid a"
  shows "ParseAddr (String a) = Some a"
  using assms by (cases a) (auto simp: String_def IsValid_def parse_IP4 parse_string6 parse_4in6 [simplified])

lemma parse_v4_length: "parse_v4 fs val dig s = Some b \<Longrightarrow> length fs \<le> 3 \<Longrightarrow> length b = 4"
  by (induction fs val dig s rule: parse_v4.induct) (auto simp: Let_def split: if_splits)


text \<open>What is parsed is a valid address.\<close>

lemma v6_loop_step:
  assumes "parse_v6_loop ip ell s = Some (ip', ell', rest)" and "length ip < 16"
  shows "(\<exists>fs. length fs = 4 \<and> length ip \<le> 12 \<and> ip' = ip @ fs) \<or> (\<exists>k. length k = 2 \<and> ip' = ip @ k) \<or>
    (\<exists>k ell1 s1. length k = 2 \<and> parse_v6_loop (ip @ k) ell1 s1 = Some (ip', ell', rest))"
proof -
  have v4: "length fs = 4" if "parse_v4 [] 0 0 s = Some fs" for fs using parse_v4_length [OF that] by simp
  from assms show ?thesis
    by (subst (asm) parse_v6_loop.simps)
      (auto simp: Let_def split: option.splits if_splits list.splits intro: length_group_bytes, (use v4 in metis)+)
qed

lemma v6_loop_length:
  assumes "parse_v6_loop ip ell s = Some (ip', ell', rest)" and "even (length ip)" and "length ip \<le> 16"
  shows "length ip' \<le> 16"
  using assms
proof (induction "16 - length ip" arbitrary: ip ell s rule: less_induct)
  case less
  show ?case
  proof (cases "length ip = 16")
    case True
    with less.prems show ?thesis by (subst (asm) parse_v6_loop.simps) simp
  next
    case False
    with less.prems have short: "length ip + 2 \<le> 16" by presburger
    then have "length ip < 16" by simp
    from v6_loop_step [OF less.prems(1) this] short show ?thesis
    proof (elim disjE exE conjE)
      fix k ell1 s1 assume "length k = 2" "parse_v6_loop (ip @ k) ell1 s1 = Some (ip', ell', rest)"
      with less.hyps [of "ip @ k"] less.prems(2) short show ?thesis by simp
    qed auto
  qed
qed

lemma ParseAddr_valid: "ParseAddr s = Some a \<Longrightarrow> well_formed a \<and> IsValid a"
proof -
  assume parsed: "ParseAddr s = Some a"
  then consider (four) b where "parse_v4 [] 0 0 s = Some b" "a = IP4 b" | (six) "parse_v6 s = Some a"
    by (auto simp: ParseAddr_def split: option.splits if_splits)
  then show ?thesis
  proof cases
    case four
    then show ?thesis using parse_v4_length by (fastforce simp: IsValid_def)
  next
    case six
    have len: "length ip \<le> 16" if "parse_v6_loop [] ell t = Some (ip, ell', rest)" for ell t ip ell' rest
      using v6_loop_length [OF that] by simp
    from six len show ?thesis
      by (auto simp: parse_v6_def IsValid_def Let_def min_def le_less dest!: len split: option.splits if_splits)
  qed
qed

end
