(* ===== verification/Base64.thy ===== *)
theory Base64
  imports Text
begin

text \<open>
  \<open>base64.RawStdEncoding\<close>: three bytes are four characters, without padding.  Decoding skips line
  breaks, refuses every other character that is not of the alphabet and a single left-over character,
  and ignores left-over bits.
\<close>

definition base64_alphabet :: string where
  "base64_alphabet = ''ABCDEFGHIJKLMNOPQRSTUVWXYZabcdefghijklmnopqrstuvwxyz0123456789+/''"

definition base64_char :: "nat \<Rightarrow> char" where
  "base64_char n = base64_alphabet ! n"

definition base64_value :: "char \<Rightarrow> nat option" where
  "base64_value c = find (\<lambda>n. base64_char n = c) [0..<64]"

fun sextets :: "nat list \<Rightarrow> nat list" where
  "sextets [] = []"
| "sextets [a] = [a div 4, a mod 4 * 16]"
| "sextets [a, b] = [a div 4, a mod 4 * 16 + b div 16, b mod 16 * 4]"
| "sextets (a # b # c # s) =
     [a div 4, a mod 4 * 16 + b div 16, b mod 16 * 4 + c div 64, c mod 64] @ sextets s"

fun octets :: "nat list \<Rightarrow> nat list" where
  "octets (w # x # y # z # s) = [w * 4 + x div 16, x mod 16 * 16 + y div 4, y mod 4 * 64 + z] @ octets s"
| "octets [w, x, y] = [w * 4 + x div 16, x mod 16 * 16 + y div 4]"
| "octets [w, x] = [w * 4 + x div 16]"
| "octets _ = []"

definition EncodeBase64 :: "string \<Rightarrow> string" where
  "EncodeBase64 d = map base64_char (sextets (map of_char d))"

definition DecodeBase64 :: "string \<Rightarrow> string option" where
  "DecodeBase64 s =
     (let cs = filter (\<lambda>c. of_char c \<noteq> (10 :: nat) \<and> of_char c \<noteq> (13 :: nat)) s;
          vs = map base64_value cs
      in if None \<in> set vs \<or> length vs mod 4 = 1 then None
         else Some (map char_of (octets (map the vs))))"

lemma base64_value_char: "n < 64 \<Longrightarrow> base64_value (base64_char n) = Some n"
proof -
  assume "n < 64"
  then have "n \<in> set [0..<64]" by simp
  moreover have "\<forall>n\<in>set [0..<64]. base64_value (base64_char n) = Some n" by code_simp
  ultimately show ?thesis by blast
qed

lemma base64_char_break: "n < 64 \<Longrightarrow> of_char (base64_char n) \<noteq> (10 :: nat) \<and> of_char (base64_char n) \<noteq> (13 :: nat)"
proof -
  assume "n < 64"
  then have "n \<in> set [0..<64]" by simp
  moreover have "\<forall>n\<in>set [0..<64]. of_char (base64_char n) \<noteq> (10 :: nat) \<and> of_char (base64_char n) \<noteq> (13 :: nat)"
    by code_simp
  ultimately show ?thesis by blast
qed

lemma sextets_bound: "\<forall>a\<in>set s. a < 256 \<Longrightarrow> \<forall>n\<in>set (sextets s). n < 64"
  by (induction s rule: sextets.induct) auto

lemma sextets_length: "length (sextets s) mod 4 \<noteq> 1"
  by (induction s rule: sextets.induct) auto

lemma octets_sextets: "\<forall>a\<in>set s. a < 256 \<Longrightarrow> octets (sextets s) = s"
  by (induction s rule: sextets.induct) auto

lemma Decode_Encode [simp]: "DecodeBase64 (EncodeBase64 d) = Some d"
proof -
  let ?s = "map of_char d :: nat list"
  have bytes: "\<forall>a\<in>set ?s. a < 256" by auto
  note six = sextets_bound [OF bytes]
  have vals: "map base64_value (map base64_char (sextets ?s)) = map Some (sextets ?s)"
    using six by (simp add: base64_value_char)
  have "filter (\<lambda>c. of_char c \<noteq> (10 :: nat) \<and> of_char c \<noteq> (13 :: nat)) (map base64_char (sextets ?s)) = map base64_char (sextets ?s)"
    using six by (auto simp: filter_id_conv dest!: base64_char_break)
  moreover have "map char_of (octets (sextets ?s)) = d" using octets_sextets [OF bytes] by (simp add: o_def)
  ultimately show ?thesis using vals sextets_length [of ?s]
    by (simp add: DecodeBase64_def EncodeBase64_def Let_def o_def del: map_map) auto
qed

lemma Encode_inject [simp]: "EncodeBase64 d = EncodeBase64 e \<longleftrightarrow> d = e"
  by (metis Decode_Encode option.inject)

end
