(* ===== verification/Target.thy ===== *)
theory Target
  imports Netip Base64
begin

text \<open>
  \<open>internal/sshinstall/target.go\<close>: which hosts an SSH installation may connect to, and how the host
  key is confirmed.  The name service is the parameter \<open>lookup\<close> (\<open>LookupNetIP\<close>); what the SSH library
  computes from a public key is the parameter \<open>fingerprint_of\<close> (\<open>ssh.FingerprintSHA256\<close>).
\<close>

section \<open>Definitions\<close>

text \<open>The errors of the package; an invalid target carries what the message adds.\<close>

datatype install_error =
    ErrInvalidTarget string
  | ErrTargetBlocked
  | ErrHostKeyMismatch
  | ErrInvalidHostKey
  | ErrHandshake
  | ErrUnavailable
  | ErrBusy
  | ErrInvalidAuth
  | ErrInvalidUser
  | ErrConnect
  | ErrPreflight
  | ErrInstall
  | ErrOnline
  | ErrName

record resolvedTarget =
  target_host :: string
  target_address :: string

record HostKey =
  Algorithm :: string
  Fingerprint :: string

definition allNumericHost :: "string \<Rightarrow> bool" where
  "allNumericHost host \<longleftrightarrow> list_all (\<lambda>c. is_digit c \<or> c = CHR ''.'') host"

definition valid_label :: "string \<Rightarrow> bool" where
  "valid_label label \<longleftrightarrow> length label \<noteq> 0 \<and> length label \<le> 63 \<and> hd label \<noteq> CHR ''-'' \<and> last label \<noteq> CHR ''-'' \<and>
     list_all label_or_hyphen label"

definition normalizeHost :: "string \<Rightarrow> install_error + string \<times> Addr" where
  "normalizeHost host =
     (if host = [] \<or> TrimSpace host \<noteq> host \<or> length host > 253 \<or> ContainsAny host [CHR ''/'', CHR 0x5C, CHR ''%'', CHR ''@'']
        then Inl (ErrInvalidTarget [])
      else if (prefix ''['' host \<or> suffix '']'' host) \<and> \<not> (prefix ''['' host \<and> suffix '']'' host)
        then Inl (ErrInvalidTarget [])
      else let host = (if prefix ''['' host \<or> suffix '']'' host then TrimSuffix (TrimPrefix host ''['') '']'' else host) in
        case ParseAddr host of
          Some address \<Rightarrow> Inr (String address, Unmap address)
        | None \<Rightarrow>
            if CHR '':'' \<in> set host \<or> allNumericHost host then Inl (ErrInvalidTarget [])
            else let name = TrimSuffix (ToLower host) ''.'' in
              if name = [] then Inl (ErrInvalidTarget [])
              else if list_all valid_label (Split name (CHR ''.'')) then Inr (name, ZeroAddr)
              else Inl (ErrInvalidTarget []))"

definition allowedTargetAddress :: "Addr \<Rightarrow> bool" where
  "allowedTargetAddress address =
     (if \<not> IsValid address \<or> IsUnspecified address \<or> IsLoopback address \<or>
         IsLinkLocalUnicast address \<or> IsLinkLocalMulticast address \<or> IsMulticast address then False
      else if Is6 address \<and> Is4In6 address then False
      else case address of
          IP4 bytes \<Rightarrow> bytes ! 0 \<noteq> 0 \<and> address \<noteq> IP4 [255, 255, 255, 255]
        | _ \<Rightarrow> True)"

definition resolveTarget :: "(string \<Rightarrow> Addr list option) \<Rightarrow> string \<Rightarrow> int \<Rightarrow> install_error + resolvedTarget" where
  "resolveTarget lookup host port =
     bindE (normalizeHost host) (\<lambda>(host, literal).
     if port < 1 \<or> port > 65535 then Inl (ErrInvalidTarget '': port must be between 1 and 65535'')
     else case (if \<not> IsValid literal then lookup host else Some [literal]) of
         None \<Rightarrow> Inl (ErrInvalidTarget '': host could not be resolved'')
       | Some [] \<Rightarrow> Inl (ErrInvalidTarget '': host could not be resolved'')
       | Some (a # as) \<Rightarrow>
           if \<not> list_all (\<lambda>x. allowedTargetAddress (Unmap x)) (a # as) then Inl ErrTargetBlocked
           else Inr \<lparr>target_host = JoinHostPort host (Itoa port), target_address = JoinHostPort (String (Unmap a)) (Itoa port)\<rparr>)"

text \<open>
  \<open>ProbeHostKey\<close>: \<open>probe\<close> is the host key the SSH library hands to the callback when it connects to the
  address, with its algorithm; \<open>None\<close> when the connection or the handshake fails before.
\<close>

definition ProbeHostKey ::
    "(string \<Rightarrow> Addr list option) \<Rightarrow> (resolvedTarget \<Rightarrow> (string \<times> 'key) option) \<Rightarrow> ('key \<Rightarrow> string) \<Rightarrow>
     string \<Rightarrow> int \<Rightarrow> install_error + HostKey" where
  "ProbeHostKey lookup probe fingerprint_of host port =
     bindE (resolveTarget lookup host port) (\<lambda>target.
     case probe target of
       None \<Rightarrow> Inl ErrHandshake
     | Some (algorithm, key) \<Rightarrow> Inr \<lparr>Algorithm = algorithm, Fingerprint = fingerprint_of key\<rparr>)"

definition fingerprintCallback ::
    "('key \<Rightarrow> string) \<Rightarrow> string \<Rightarrow> install_error + ('key \<Rightarrow> install_error option)" where
  "fingerprintCallback fingerprint_of fingerprint =
     (if \<not> prefix ''SHA256:'' fingerprint then Inl ErrInvalidHostKey
      else let encoded = drop 7 fingerprint in
        case DecodeBase64 encoded of
          None \<Rightarrow> Inl ErrInvalidHostKey
        | Some digest \<Rightarrow>
            if length digest \<noteq> 32 \<or> EncodeBase64 digest \<noteq> encoded then Inl ErrInvalidHostKey
            else Inr (\<lambda>key. if fingerprint_of key \<noteq> fingerprint then Some ErrHostKeyMismatch else None))"

text \<open>The text of an error, as \<open>err.Error()\<close> gives it.\<close>

fun install_error_text :: "install_error \<Rightarrow> string" where
  "install_error_text (ErrInvalidTarget detail) = ''invalid SSH target'' @ detail"
| "install_error_text ErrTargetBlocked = ''SSH target address is not allowed''"
| "install_error_text ErrHostKeyMismatch = ''SSH host key does not match the confirmed fingerprint''"
| "install_error_text ErrInvalidHostKey = ''invalid SSH host key fingerprint''"
| "install_error_text ErrHandshake = ''SSH handshake failed''"
| "install_error_text ErrUnavailable = ''SSH installation is unavailable''"
| "install_error_text ErrBusy = ''too many SSH installations are in progress''"
| "install_error_text ErrInvalidAuth = ''exactly one valid SSH authentication method is required''"
| "install_error_text ErrInvalidUser = ''SSH installation currently requires the root user''"
| "install_error_text ErrConnect = ''SSH connection or authentication failed''"
| "install_error_text ErrPreflight = ''remote SSH preflight failed''"
| "install_error_text ErrInstall = ''remote SSH installation failed''"
| "install_error_text ErrOnline = ''instance did not connect before the deadline''"
| "install_error_text ErrName =
     ''instance name must be a lowercase machine label of 1 to 63 letters, digits, or hyphens''"


section \<open>The policy as address blocks\<close>

text \<open>
  \<open>reserved\<close>: the blocks no installation may go to.  IPv4: 0.0.0.0/8, 127.0.0.0/8, 169.254.0.0/16,
  224.0.0.0/4 and the broadcast address.  IPv6: the unspecified and the loopback address, the mapped
  IPv4 addresses, fe80::/10 and ff00::/8.
\<close>

definition reserved :: "Addr \<Rightarrow> bool" where
  "reserved a = (case a of
       ZeroAddr \<Rightarrow> True
     | IP4 b \<Rightarrow> unat (b ! 0) \<in> {0, 127} \<or> take 2 b = [169, 254] \<or> unat (b ! 0) \<in> {224..239} \<or> b = [255, 255, 255, 255]
     | IP6 b \<Rightarrow> b = replicate 16 0 \<or> b = replicate 15 0 @ [1] \<or> take 12 b = replicate 10 0 @ [255, 255] \<or>
         v6u16 b 0 \<in> {0xfe80..0xfebf} \<or> unat (b ! 0) = 255)"

lemma multicast_byte: "and (x :: byte) 0xf0 = 0xe0 \<longleftrightarrow> unat x \<in> {224..239}"
proof -
  have "\<forall>n\<in>set [0..<256]. and (of_nat n :: byte) 0xf0 = 0xe0 \<longleftrightarrow> n \<in> {224..239}" by code_simp
  moreover have "unat x \<in> set [0..<256]" using unat_byte [of x] by simp
  ultimately have "and (of_nat (unat x) :: byte) 0xf0 = 0xe0 \<longleftrightarrow> unat x \<in> {224..239}" by blast
  then show ?thesis by simp
qed

lemma and_push_bit: "and g (push_bit k m) = push_bit k (and (drop_bit k g) m)" for g m :: nat
  by (rule bit_eqI) (auto simp: bit_simps)

lemma link_local_group: "g < 65536 \<Longrightarrow> and g 0xffc0 = 0xfe80 \<longleftrightarrow> g \<in> {0xfe80..0xfebf}" for g :: nat
proof -
  assume g: "g < 65536"
  have "(0xffc0 :: nat) = push_bit 6 (mask 10)" by (simp add: push_bit_eq_mult mask_eq_exp_minus_1)
  then have "and g 0xffc0 = push_bit 6 (take_bit 10 (drop_bit 6 g))" by (simp only: and_push_bit take_bit_eq_mask)
  also have "\<dots> = g div 64 * 64" using g by (simp add: push_bit_eq_mult take_bit_eq_mod drop_bit_eq_div)
  finally show ?thesis by auto
qed


lemma link_local_multicast: "and (v6u16 b 0) 0xff0f = 0xff02 \<Longrightarrow> v6u16 b 0 div 256 = 0xff"
proof -
  assume "and (v6u16 b 0) 0xff0f = 0xff02"
  moreover have "and (v6u16 b 0) 0xff0f \<le> v6u16 b 0"
    using AND_upper1 [of "int (v6u16 b 0)" "0xff0f"] by (simp add: and_nat_def nat_le_iff)
  ultimately have "0xff02 \<le> v6u16 b 0" by simp
  with group_bound [of b 0] show ?thesis by linarith
qed

lemma high_byte: "v6u16 b 0 div 256 = unat (b ! 0)"
  using unat_byte [of "b ! 1"] by (simp add: v6u16_def)

lemma allowed_IP4:
  assumes "length b = 4"
  shows "allowedTargetAddress (IP4 b) \<longleftrightarrow> \<not> reserved (IP4 b)"
proof -
  obtain w x y z where b: "b = [w, x, y, z]" using assms by (auto simp: length_4)
  have byte: "(w = 0) = (unat w = 0)" "(w = 127) = (unat w = 127)" "unat w = 224 \<Longrightarrow> unat w \<in> {224..239}"
    by (simp_all add: word_unat_eq_iff)
  have "w = 224 \<Longrightarrow> unat w = 224" by simp
  with b byte multicast_byte [of w] show ?thesis
    by (auto simp: allowedTargetAddress_def reserved_def IsValid_def IsUnspecified_def IsLoopback_def IsLinkLocalUnicast_def
        IsLinkLocalMulticast_def IsMulticast_def Is6_def Unmap_def Is4In6_def numeral_eq_Suc)
qed

lemma allowed_IP6:
  assumes "length b = 16"
  shows "allowedTargetAddress (IP6 b) \<longleftrightarrow> \<not> reserved (IP6 b)"
proof (cases "Is4In6 (IP6 b)")
  case True
  then show ?thesis by (auto simp: allowedTargetAddress_def reserved_def Is6_def Is4In6_def)
next
  case False
  with link_local_group [OF group_bound, of b 0] high_byte [of b] link_local_multicast [of b] show ?thesis
    by (auto simp: allowedTargetAddress_def reserved_def IsValid_def IsUnspecified_def IsLoopback_def IsLinkLocalUnicast_def
        IsLinkLocalMulticast_def IsMulticast_def Is6_def Unmap_def Is4In6_def)
qed


lemma allowed_reserved: "well_formed a \<Longrightarrow> allowedTargetAddress a \<longleftrightarrow> \<not> reserved a"
  by (cases a) (auto simp: allowed_IP4 allowed_IP6, simp_all add: allowedTargetAddress_def reserved_def IsValid_def)


section \<open>Text of addresses and names\<close>

text \<open>The characters of a host that has passed \<open>normalizeHost\<close>: hexadecimal digits, colons and dots, or those of labels.\<close>

definition host_char :: "char \<Rightarrow> bool" where
  "host_char c \<longleftrightarrow> label_or_hyphen c \<or> c = CHR ''.'' \<or> c = CHR '':''"

lemma is_digit_label: "is_digit c \<Longrightarrow> label_char c"
  by (simp add: is_digit_def label_char_def)

lemma hex_digit_label: "d < 16 \<Longrightarrow> label_char (hex_digit d)"
  by (auto simp: hex_digit_def label_char_def ascii_between_def)

lemma show_hex_label: "c \<in> set (show_hex g) \<Longrightarrow> label_char c"
proof (induction g rule: show_hex.induct)
  case (1 n)
  from "1.prems" have "c \<in> set (if n < 16 then [hex_digit n] else show_hex (n div 16) @ [hex_digit (n mod 16)])"
    by (subst (asm) show_hex.simps)
  with "1.IH" show ?case by (auto simp: hex_digit_label split: if_splits)
qed

lemma set_join_with: "set (join_with sep ws) \<subseteq> insert sep (\<Union> (set ` set ws))"
proof (induction ws)
  case (Cons w ws)
  then show ?case by (cases ws) auto
qed simp

lemma String_chars: "IsValid a \<Longrightarrow> c \<in> set (String a) \<Longrightarrow> host_char c"
proof -
  assume a: "IsValid a" "c \<in> set (String a)"
  have four: "c \<in> set (string4 b) \<Longrightarrow> host_char c" for b
    using string4_chars [of c b] by (auto simp: host_char_def label_or_hyphen_def dest: is_digit_label)
  have hex: "c \<in> set (hex_text gs) \<Longrightarrow> host_char c" for gs
    using set_join_with [of "CHR '':''" "map show_hex gs"] by (auto simp: host_char_def label_or_hyphen_def dest: show_hex_label)
  have "c \<in> set (string6 b) \<Longrightarrow> host_char c" for b
    using hex by (auto simp: string6_def Let_def host_char_def split: prod.splits if_splits)
  with a four show "host_char c"
    by (auto simp: String_def IsValid_def host_char_def label_or_hyphen_def label_char_def ascii_between_def split: Addr.splits if_splits)
qed

lemma host_char_plain:
  "\<not> host_char (CHR ''['')" "\<not> host_char (CHR '']'')" "\<not> host_char (CHR ''/'')" "\<not> host_char (CHR 0x5C)" "\<not> host_char (CHR ''%'')"
  "\<not> host_char (CHR ''@'')" "host_char c \<Longrightarrow> \<not> is_space c"
  by (auto simp: host_char_def label_or_hyphen_def label_char_def ascii_between_def is_space_def Let_def)

lemma length_show_hex: "g < 65536 \<Longrightarrow> length (show_hex g) \<le> 4"
proof -
  assume "g < 65536"
  then consider "g < 16" | "16 \<le> g" "g < 256" | "256 \<le> g" "g < 4096" | "4096 \<le> g" "g < 65536" by linarith
  then show ?thesis by cases (simp_all add: show_hex_small)
qed

lemma length_hex_text: "\<forall>g\<in>set gs. g < 65536 \<Longrightarrow> length (hex_text gs) \<le> 5 * length gs"
proof (induction gs)
  case (Cons g gs)
  then show ?case using length_show_hex [of g] by (cases gs) auto
qed simp

lemma length_string4: "length b = 4 \<Longrightarrow> length (string4 b) \<le> 15"
proof -
  assume "length b = 4"
  then obtain w x y z where "b = [w, x, y, z]" by (auto simp: length_4)
  then show ?thesis
    using length_show_octet [of w] length_show_octet [of x] length_show_octet [of y] length_show_octet [of z] by (simp add: string4_def)
qed

lemma String_length: "well_formed a \<Longrightarrow> length (String a) \<le> 253 \<and> String a \<noteq> []"
proof (cases a)
  case (IP4 b)
  assume "well_formed a"
  with IP4 length_string4 [of b] string4_starts [of b] show ?thesis by (fastforce simp: String_def)
next
  case (IP6 b)
  assume wf: "well_formed a"
  have "length (string6 b) \<le> 82"
  proof -
    have bound: "\<forall>g\<in>set (take k (groups b)). g < 65536" "\<forall>g\<in>set (drop k (groups b)). g < 65536" for k
      using groups_bounded [of b] by (auto dest: in_set_takeD in_set_dropD)
    obtain st en where run: "zero_run (groups b) = (st, en)" by fastforce
    have "length (hex_text (take st (groups b))) \<le> 40" "length (hex_text (drop en (groups b))) \<le> 40"
      using length_hex_text [OF bound(1), of st] length_hex_text [OF bound(2), of en] by simp_all
    then show ?thesis using run length_hex_text [OF groups_bounded [of b]] by (simp add: string6_def Let_def)
  qed
  moreover have "string6 b \<noteq> []"
    using parse_string6 [of b] wf IP6 by (auto simp: ParseAddr_def)
  ultimately show ?thesis using IP6 wf length_string4 [of "drop 12 b"] by (auto simp: String_def)
qed (simp add: String_def)


lemma normalized_checks:
  assumes "\<forall>c\<in>set n. host_char c" and "n \<noteq> []" and "length n \<le> 253"
  shows "normalizeHost n = (case ParseAddr n of
       Some address \<Rightarrow> Inr (String address, Unmap address)
     | None \<Rightarrow>
         if CHR '':'' \<in> set n \<or> allNumericHost n then Inl (ErrInvalidTarget [])
         else let name = TrimSuffix (ToLower n) ''.'' in
           if name = [] then Inl (ErrInvalidTarget [])
           else if list_all valid_label (Split name (CHR ''.'')) then Inr (name, ZeroAddr)
           else Inl (ErrInvalidTarget []))"
proof -
  have no: "c \<notin> set n" if "\<not> host_char c" for c using assms(1) that by blast
  have "TrimSpace n = n" using assms(1) host_char_plain(7) by (intro TrimSpace_no_space) blast
  moreover have "\<not> prefix ''['' n" using no [OF host_char_plain(1)] by (cases n) auto
  moreover have "\<not> suffix '']'' n" using no [OF host_char_plain(2)] by (auto simp: suffix_def)
  moreover have "\<not> ContainsAny n [CHR ''/'', CHR 0x5C, CHR ''%'', CHR ''@'']"
    using no host_char_plain(3-6) by (auto simp: ContainsAny_def)
  ultimately show ?thesis using assms(2,3) unfolding normalizeHost_def by simp
qed

lemma lower_char_label: "label_or_hyphen c \<or> c = CHR ''.'' \<Longrightarrow> lower_char c = c"
  by (auto simp: label_or_hyphen_def label_char_def ascii_between_def lower_char_def Let_def)

lemma ToLower_id: "\<forall>c\<in>set s. lower_char c = c \<and> of_char c < (128 :: nat) \<Longrightarrow> ToLower s = s"
  by (induction s rule: ToLower.induct) auto

lemma length_ToLower: "length (ToLower s) \<le> length s"
  by (induction s rule: ToLower.induct) auto

lemma Split_chars: "c \<in> set s \<Longrightarrow> c = sep \<or> (\<exists>w\<in>set (Split s sep). c \<in> set w)"
  using set_join_with [of sep "Split s sep"] by auto

text \<open>What is left of a name after \<open>ToLower\<close> and \<open>TrimSuffix\<close>.\<close>

lemma name_fixed:
  assumes "list_all valid_label (Split name (CHR ''.''))" and "name \<noteq> []"
  shows "\<forall>c\<in>set name. label_or_hyphen c \<or> c = CHR ''.''" and "TrimSuffix (ToLower name) ''.'' = name"
proof -
  show chars: "\<forall>c\<in>set name. label_or_hyphen c \<or> c = CHR ''.''"
    using assms(1) by (fastforce simp: list_all_iff valid_label_def dest: Split_chars [where sep = "CHR ''.''"])
  have "of_char c < (128 :: nat)" if "label_or_hyphen c \<or> c = CHR ''.''" for c
    using that by (auto simp: label_or_hyphen_def label_char_def ascii_between_def)
  with chars lower_char_label have "ToLower name = name" by (intro ToLower_id) blast
  moreover have "\<not> suffix ''.'' name"
  proof
    assume "suffix ''.'' name"
    then obtain s where "name = s @ ''.''" by (auto simp: suffix_def)
    then have "[] \<in> set (Split name (CHR ''.''))" by (simp add: Split_snoc)
    with assms(1) show False by (auto simp: list_all_iff valid_label_def)
  qed
  ultimately show "TrimSuffix (ToLower name) ''.'' = name" by (simp add: TrimSuffix_def)
qed


lemma normalizeHost_cases:
  assumes "normalizeHost host = Inr (n, a)"
  obtains (literal) x where "ParseAddr (if prefix ''['' host then TrimSuffix (TrimPrefix host ''['') '']'' else host) = Some x"
      and "n = String x" and "a = Unmap x"
    | (name) h where "h = (if prefix ''['' host then TrimSuffix (TrimPrefix host ''['') '']'' else host)"
      and "n = TrimSuffix (ToLower h) ''.''" and "a = ZeroAddr" and "n \<noteq> []" and "list_all valid_label (Split n (CHR ''.''))"
      and "\<not> allNumericHost h" and "CHR '':'' \<notin> set h" and "length n \<le> 253"
proof -
  let ?h = "if prefix ''['' host then TrimSuffix (TrimPrefix host ''['') '']'' else host"
  have h: "(if prefix ''['' host \<or> suffix '']'' host then TrimSuffix (TrimPrefix host ''['') '']'' else host) = ?h"
    and len: "length host \<le> 253" using assms by (auto simp: normalizeHost_def split: if_splits)
  have shorter: "length (TrimSuffix (ToLower ?h) ''.'') \<le> 253"
    using len length_ToLower [of ?h] by (auto simp: TrimSuffix_def TrimPrefix_def)
  show ?thesis
  proof (cases "ParseAddr ?h")
    case (Some x)
    with assms h show ?thesis by (intro literal [of x]) (auto simp: normalizeHost_def Let_def split: if_splits)
  next
    case None
    with assms h shorter show ?thesis
      by (intro name [of ?h]) (auto simp: normalizeHost_def Let_def split: if_splits)
  qed
qed


lemma parse_v4_numeric: "parse_v4 fs val dig s = Some b \<Longrightarrow> allNumericHost s"
  by (induction fs val dig s rule: parse_v4.induct) (auto simp: allNumericHost_def Let_def split: if_splits)

lemma lower_numeric: "is_digit (lower_char c) \<or> lower_char c = CHR ''.'' \<Longrightarrow> is_digit c \<or> c = CHR ''.''"
  by (auto simp: lower_char_def is_digit_def ascii_between_def Let_def split: if_splits dest!: arg_cong [where f = "of_char :: char \<Rightarrow> nat"])

lemma not_numeric [simp]: "\<not> is_digit (CHR ''k'')" "\<not> is_digit (CHR ''i'')"
  by (simp_all add: is_digit_def ascii_between_def)

lemma ToLower_numeric: "allNumericHost (ToLower h) \<Longrightarrow> allNumericHost h"
  by (induction h rule: ToLower.induct) (auto simp: allNumericHost_def dest!: lower_numeric split: if_splits)

lemma TrimSuffix_numeric: "allNumericHost (TrimSuffix s ''.'') \<Longrightarrow> allNumericHost s"
  by (auto simp: TrimSuffix_def allNumericHost_def suffix_def split: if_splits)

lemma label_host_char: "label_or_hyphen c \<or> c = CHR ''.'' \<Longrightarrow> host_char c"
  by (auto simp: host_char_def)

lemma ParseAddr_name:
  assumes "\<forall>c\<in>set n. label_or_hyphen c \<or> c = CHR ''.''" and "\<not> allNumericHost n"
  shows "ParseAddr n = None"
proof -
  have "CHR '':'' \<notin> set n" "CHR ''%'' \<notin> set n"
    using assms(1) by (auto simp: label_or_hyphen_def label_char_def ascii_between_def)
  then have "c = CHR ''.''" if "find (\<lambda>c. c \<in> set ''.:%'') n = Some c" for c
    using that by (auto simp: find_Some_iff in_set_conv_nth)
  with assms(2) parse_v4_numeric show ?thesis by (fastforce simp: ParseAddr_def split: option.splits)
qed

text \<open>
  C36.  Normalizing a host is final: what \<open>normalizeHost\<close> returns for a host, a lower-case name without
  the trailing dot or the canonical text of an address, it returns again for its own result.
\<close>

theorem normalize_host_idempotent:
  assumes "normalizeHost host = Inr (n, a)"
  shows "normalizeHost n = Inr (n, a)"
  using assms
proof (cases rule: normalizeHost_cases)
  case (literal x)
  then have x: "well_formed x" "IsValid x" using ParseAddr_valid by blast+
  have "\<forall>c\<in>set n. host_char c" using String_chars [OF x(2)] literal by blast
  with String_length [OF x(1)] literal ParseAddr_String [OF x] show ?thesis by (simp add: normalized_checks)
next
  case (name h)
  note fixed = name_fixed [OF name(5,4)]
  have "\<not> allNumericHost n" using name ToLower_numeric TrimSuffix_numeric by blast
  moreover have "CHR '':'' \<notin> set n" using fixed(1) by (auto simp: label_or_hyphen_def label_char_def ascii_between_def)
  moreover have "\<forall>c\<in>set n. host_char c" using fixed(1) label_host_char by blast
  ultimately show ?thesis using name fixed ParseAddr_name [OF fixed(1)] by (simp add: normalized_checks)
qed

theorem normalize_host_idempotent_witness:
  "normalizeHost ''Edge.Example.COM.'' = Inr (''edge.example.com'', ZeroAddr) \<and>
   normalizeHost ''edge.example.com'' = Inr (''edge.example.com'', ZeroAddr)"
proof -
  have "normalizeHost ''Edge.Example.COM.'' = Inr (''edge.example.com'', ZeroAddr)" by code_simp
  with normalize_host_idempotent [OF this] show ?thesis by blast
qed

text \<open>
  The addresses an installation may go to are exactly those outside the blocks that are never a
  remote machine: 0.0.0.0/8, 127.0.0.0/8, 169.254.0.0/16, 224.0.0.0/4, the broadcast address, and of
  IPv6 the unspecified and the loopback address, mapped IPv4 addresses, fe80::/10 and ff00::/8.
\<close>

theorem target_policy_is_blocks:
  assumes "well_formed a"
  shows "allowedTargetAddress a \<longleftrightarrow> \<not> reserved a"
  using assms by (rule allowed_reserved)

theorem target_policy_is_blocks_witness:
  "\<not> allowedTargetAddress (IP4 [169, 254, 169, 254]) \<and> allowedTargetAddress (IP4 [203, 0, 113, 10])"
  using target_policy_is_blocks [of "IP4 [169, 254, 169, 254]"] target_policy_is_blocks [of "IP4 [203, 0, 113, 10]"]
  by (simp add: reserved_def)


section \<open>What is dialled\<close>

lemma Unmap_well_formed: "well_formed a \<Longrightarrow> well_formed (Unmap a)"
  by (auto simp: Unmap_def Is4In6_def split: Addr.splits)

lemma Itoa_chars: "0 \<le> n \<Longrightarrow> set (Itoa n) \<inter> {CHR '':'', CHR ''['', CHR '']''} = {}"
  using show_nat_digits [of "nat n"] by (auto simp: Itoa_def list_all_iff is_digit_def ascii_between_def)

lemma dial_text:
  assumes "well_formed a" and "IsValid a" and "0 \<le> port"
  shows "SplitHostPort (JoinHostPort (String a) (Itoa port)) = Some (String a, Itoa port)" and "ParseAddr (String a) = Some a"
proof -
  have "CHR ''['' \<notin> set (String a)" "CHR '']'' \<notin> set (String a)"
    using String_chars [OF assms(2)] host_char_plain(1,2) by blast+
  then show "SplitHostPort (JoinHostPort (String a) (Itoa port)) = Some (String a, Itoa port)"
    using Itoa_chars [OF assms(3)] by (rule SplitHostPort_Join)
  show "ParseAddr (String a) = Some a" using assms by (intro ParseAddr_String)
qed

text \<open>The name service returns addresses.\<close>

definition gives_addresses :: "(string \<Rightarrow> Addr list option) \<Rightarrow> bool" where
  "gives_addresses lookup \<longleftrightarrow> (\<forall>host as. lookup host = Some as \<longrightarrow> list_all well_formed as)"

lemma resolveTarget_cases:
  assumes "gives_addresses lookup" and "resolveTarget lookup host port = Inr t"
  obtains n l a as where "normalizeHost host = Inr (n, l)" and "1 \<le> port" and "port \<le> 65535"
    and "(if \<not> IsValid l then lookup n else Some [l]) = Some (a # as)"
    and "\<forall>x\<in>set (a # as). well_formed (Unmap x) \<and> allowedTargetAddress (Unmap x)"
    and "target_address t = JoinHostPort (String (Unmap a)) (Itoa port)" and "target_host t = JoinHostPort n (Itoa port)"
proof -
  from assms(2) obtain n l a as where res: "normalizeHost host = Inr (n, l)" "1 \<le> port" "port \<le> 65535"
    "(if \<not> IsValid l then lookup n else Some [l]) = Some (a # as)"
    "list_all (\<lambda>x. allowedTargetAddress (Unmap x)) (a # as)"
    "t = \<lparr>target_host = JoinHostPort n (Itoa port), target_address = JoinHostPort (String (Unmap a)) (Itoa port)\<rparr>"
    by (auto simp: resolveTarget_def bind_simps split: if_splits option.splits list.splits)
  have "well_formed l"
    using res(1) by (cases rule: normalizeHost_cases) (auto dest: ParseAddr_valid intro: Unmap_well_formed)
  then have "\<forall>x\<in>set (a # as). well_formed x"
    using res(4) assms(1) by (auto simp: gives_addresses_def list_all_iff split: if_splits)
  with res that [of n l a as] show ?thesis by (auto simp: list_all_iff intro: Unmap_well_formed)
qed

lemma resolved_checked:
  assumes "gives_addresses lookup" and "resolveTarget lookup host port = Inr t"
  obtains a where "SplitHostPort (target_address t) = Some (String a, Itoa port)" and "ParseAddr (String a) = Some a" and "\<not> reserved a"
    and "\<And>n as. normalizeHost host = Inr (n, ZeroAddr) \<Longrightarrow> lookup n = Some as \<Longrightarrow>
      a \<in> Unmap ` set as \<and> (\<forall>x\<in>set as. \<not> reserved (Unmap x))"
  using assms
proof (cases rule: resolveTarget_cases)
  case (1 n l a as)
  have ok: "\<not> reserved (Unmap x)" if "x \<in> set (a # as)" for x
    using 1(5) that allowed_reserved by blast
  have "IsValid (Unmap a)" using ok [of a] by (auto simp: IsValid_def reserved_def)
  with dial_text [of "Unmap a" port] 1 ok show ?thesis
    by (intro that [of "Unmap a"]) (auto simp: IsValid_def)
qed

text \<open>
  C28.  An installation dials only what was checked: when a target resolves, the text it dials splits
  into the text of an address and the port, the text is parsed to that very address, and neither it
  nor any other address the name has lies in a reserved block.
\<close>

theorem dialled_address_checked:
  assumes "gives_addresses lookup" and "resolveTarget lookup host port = Inr t"
  shows "\<exists>a. SplitHostPort (target_address t) = Some (String a, Itoa port) \<and> ParseAddr (String a) = Some a \<and> \<not> reserved a \<and>
    (\<forall>n as. normalizeHost host = Inr (n, ZeroAddr) \<longrightarrow> lookup n = Some as \<longrightarrow>
       a \<in> Unmap ` set as \<and> (\<forall>x\<in>set as. \<not> reserved (Unmap x)))"
proof -
  from assms obtain a where "SplitHostPort (target_address t) = Some (String a, Itoa port)" "ParseAddr (String a) = Some a" "\<not> reserved a"
    "\<And>n as. normalizeHost host = Inr (n, ZeroAddr) \<Longrightarrow> lookup n = Some as \<Longrightarrow> a \<in> Unmap ` set as \<and> (\<forall>x\<in>set as. \<not> reserved (Unmap x))"
    by (rule resolved_checked) (rule that)
  then show ?thesis by blast
qed

text \<open>A name service that knows one name.\<close>

definition example_lookup :: "string \<Rightarrow> Addr list option" where
  "example_lookup host = (if host = ''edge.example.com'' then Some [IP4 [203, 0, 113, 10]] else None)"

lemma example_resolves:
  "resolveTarget example_lookup ''edge.example.com'' 22 =
     Inr \<lparr>target_host = ''edge.example.com:22'', target_address = ''203.0.113.10:22''\<rparr>"
  by code_simp

theorem dialled_address_checked_witness:
  "gives_addresses example_lookup \<and> resolveTarget example_lookup ''edge.example.com'' 22 =
     Inr \<lparr>target_host = ''edge.example.com:22'', target_address = ''203.0.113.10:22''\<rparr> \<and>
   (\<exists>a. SplitHostPort ''203.0.113.10:22'' = Some (String a, Itoa 22) \<and> \<not> reserved a)"
proof -
  have look: "gives_addresses example_lookup" by (simp add: gives_addresses_def example_lookup_def)
  from dialled_address_checked [OF look example_resolves] look example_resolves show ?thesis by auto
qed

text \<open>
  C29.  Host keys are confirmed by their whole digest: a fingerprint is accepted as confirmation exactly
  when it is \<open>SHA256:\<close> and the base64 text of 32 bytes, and then a connection passes exactly when the
  SHA-256 digest of the server's public key is those 32 bytes.
\<close>

theorem host_key_pinned:
  assumes "\<And>key. fingerprint_of key = ''SHA256:'' @ EncodeBase64 (digest_of key)"
  shows "(\<not> isl (fingerprintCallback fingerprint_of f) \<longleftrightarrow> (\<exists>d. length d = 32 \<and> f = ''SHA256:'' @ EncodeBase64 d)) \<and>
    (\<forall>d. length d = 32 \<longrightarrow> f = ''SHA256:'' @ EncodeBase64 d \<longrightarrow>
       (\<exists>callback. fingerprintCallback fingerprint_of f = Inr callback \<and>
          (\<forall>key. callback key = (if digest_of key = d then None else Some ErrHostKeyMismatch))))"
proof -
  have ok: "\<exists>callback. fingerprintCallback fingerprint_of f = Inr callback \<and>
      (\<forall>key. callback key = (if digest_of key = d then None else Some ErrHostKeyMismatch))"
    if "length d = 32" "f = ''SHA256:'' @ EncodeBase64 d" for d
    using that assms by (simp add: fingerprintCallback_def)
  moreover have "\<exists>d. length d = 32 \<and> f = ''SHA256:'' @ EncodeBase64 d" if "\<not> isl (fingerprintCallback fingerprint_of f)"
    using that by (auto simp: fingerprintCallback_def Let_def prefix_def split: if_splits option.splits)
  ultimately show ?thesis by force
qed

theorem host_key_pinned_witness:
  "\<exists>callback. fingerprintCallback (\<lambda>key. ''SHA256:'' @ EncodeBase64 key) (''SHA256:'' @ EncodeBase64 (replicate 32 (CHR ''a''))) = Inr callback \<and>
     callback (replicate 32 (CHR ''a'')) = None \<and> callback (replicate 32 (CHR ''b'')) = Some ErrHostKeyMismatch"
  using host_key_pinned [of "\<lambda>key. ''SHA256:'' @ EncodeBase64 key" "\<lambda>key. key" "''SHA256:'' @ EncodeBase64 (replicate 32 (CHR ''a''))"]
  by auto

end
