(* ===== verification/Config.thy ===== *)
theory Config
  imports Os Target
begin

text \<open>
  \<open>internal/config/config.go\<close>: the configuration of the host and of an instance from the environment.
  The environment is the function \<open>env\<close> that \<open>os.Getenv\<close> is: the value of a variable, empty when it is
  not set.
\<close>

record config_Host =
  HTTPAddr :: string
  GRPCAddr :: string
  HostDataDir :: string
  PublicName :: string
  PublicGRPC :: string
  InstanceImage :: string
  ConfigSetupToken :: string

record config_Instance =
  ConfigID :: string
  ConfigName :: string
  ConfigHost :: string
  ConfigServerName :: string
  ConfigDataDir :: string
  CertFile :: string
  KeyFile :: string
  CAFile :: string

definition envOr :: "(string \<Rightarrow> string) \<Rightarrow> string \<Rightarrow> string \<Rightarrow> string" where
  "envOr env key fallback = (if env key \<noteq> [] then env key else fallback)"

definition publicHost :: "string \<Rightarrow> string" where
  "publicHost v =
     (let host = TrimSpace v in
      if prefix ''['' host \<and> suffix '']'' host then TrimSuffix (TrimPrefix host ''['') '']'' else host)"

definition publicGRPCDefault :: "string \<Rightarrow> string" where
  "publicGRPCDefault publicName =
     (let host = publicHost publicName; host = (if host = [] then ''localhost'' else host) in JoinHostPort host ''8443'')"

definition HostFromEnv :: "(string \<Rightarrow> string) \<Rightarrow> config_Host" where
  "HostFromEnv env =
     (let publicName = publicHost (envOr env ''ULCER_PUBLIC_NAME'' ''localhost'') in
      \<lparr>HTTPAddr = envOr env ''ULCER_HTTP_ADDR'' ''127.0.0.1:8080'',
       GRPCAddr = envOr env ''ULCER_GRPC_ADDR'' ''127.0.0.1:8443'',
       HostDataDir = envOr env ''ULCER_DATA_DIR'' ''./data/host'',
       PublicName = publicName,
       PublicGRPC = envOr env ''ULCER_PUBLIC_GRPC'' (publicGRPCDefault publicName),
       InstanceImage = env ''ULCER_INSTANCE_IMAGE'',
       ConfigSetupToken = env ''ULCER_SETUP_TOKEN''\<rparr>)"

text \<open>\<open>None\<close> is the error \<open>ULCER_INSTANCE_ID is required\<close>.\<close>

definition InstanceFromEnv :: "(string \<Rightarrow> string) \<Rightarrow> config_Instance option" where
  "InstanceFromEnv env =
     (let dataDir = envOr env ''ULCER_INSTANCE_DATA_DIR'' ''./data/instance'';
          config = \<lparr>ConfigID = env ''ULCER_INSTANCE_ID'',
            ConfigName = envOr env ''ULCER_INSTANCE_NAME'' ''local-instance'',
            ConfigHost = envOr env ''ULCER_HOST_GRPC'' ''localhost:8443'',
            ConfigServerName = envOr env ''ULCER_HOST_SERVER_NAME'' ''localhost'',
            ConfigDataDir = dataDir,
            CertFile = envOr env ''ULCER_INSTANCE_CERT'' (Join [dataDir, ''instance.crt'']),
            KeyFile = envOr env ''ULCER_INSTANCE_KEY'' (Join [dataDir, ''instance.key'']),
            CAFile = envOr env ''ULCER_INSTANCE_CA'' (Join [dataDir, ''ca.crt''])\<rparr>
      in if ConfigID config = [] then None else Some config)"

end
