(* ===== verification/Regex.thy ===== *)
theory Regex
  imports Text
begin

text \<open>
  Go's \<open>regexp\<close> as far as the sources use it: character classes, concatenation, alternatives,
  repetition, anchored at both ends.  \<open>lang\<close> is what a pattern means, \<open>MatchString\<close> a matcher by
  derivatives, and the two agree.  The pattern of instance names is compared with the
  hand-written check of the model.
\<close>

datatype rexp =
    Never
  | Empty
  | Class "char \<Rightarrow> bool"
  | Alt rexp rexp
  | Seq rexp rexp
  | Star rexp

inductive_set star :: "string set \<Rightarrow> string set" for A where
  star_Nil: "[] \<in> star A"
| star_append: "u \<in> A \<Longrightarrow> v \<in> star A \<Longrightarrow> u @ v \<in> star A"

primrec lang :: "rexp \<Rightarrow> string set" where
  "lang Never = {}"
| "lang Empty = {[]}"
| "lang (Class p) = {[c] | c. p c}"
| "lang (Alt r s) = lang r \<union> lang s"
| "lang (Seq r s) = {u @ v | u v. u \<in> lang r \<and> v \<in> lang s}"
| "lang (Star r) = star (lang r)"

primrec nullable :: "rexp \<Rightarrow> bool" where
  "nullable Never = False"
| "nullable Empty = True"
| "nullable (Class p) = False"
| "nullable (Alt r s) = (nullable r \<or> nullable s)"
| "nullable (Seq r s) = (nullable r \<and> nullable s)"
| "nullable (Star r) = True"

text \<open>Constructors that drop what cannot match, so that derivatives stay small.\<close>

fun alt :: "rexp \<Rightarrow> rexp \<Rightarrow> rexp" where
  "alt Never s = s"
| "alt r Never = r"
| "alt r s = Alt r s"

fun seq :: "rexp \<Rightarrow> rexp \<Rightarrow> rexp" where
  "seq Never s = Never"
| "seq Empty s = s"
| "seq r s = Seq r s"

primrec deriv :: "char \<Rightarrow> rexp \<Rightarrow> rexp" where
  "deriv c Never = Never"
| "deriv c Empty = Never"
| "deriv c (Class p) = (if p c then Empty else Never)"
| "deriv c (Alt r s) = alt (deriv c r) (deriv c s)"
| "deriv c (Seq r s) =
     (if nullable r then alt (seq (deriv c r) s) (deriv c s) else seq (deriv c r) s)"
| "deriv c (Star r) = seq (deriv c r) (Star r)"

definition MatchString :: "rexp \<Rightarrow> string \<Rightarrow> bool" where
  "MatchString r s \<longleftrightarrow> nullable (foldl (\<lambda>r c. deriv c r) r s)"

lemma lang_alt [simp]: "lang (alt r s) = lang r \<union> lang s"
  by (cases "(r, s)" rule: alt.cases) auto

lemma lang_seq [simp]: "lang (seq r s) = lang (Seq r s)"
  by (cases "(r, s)" rule: seq.cases) auto

lemma nullable_lang: "nullable r \<longleftrightarrow> [] \<in> lang r"
  by (induction r) (auto intro: star_Nil)

lemma star_Cons: "c # w \<in> star A \<longleftrightarrow> (\<exists>u v. w = u @ v \<and> c # u \<in> A \<and> v \<in> star A)"
proof
  assume "c # w \<in> star A"
  then show "\<exists>u v. w = u @ v \<and> c # u \<in> A \<and> v \<in> star A"
  proof (induction "c # w" arbitrary: c w)
    case (star_append u v)
    then show ?case by (cases u) auto
  qed
next
  assume "\<exists>u v. w = u @ v \<and> c # u \<in> A \<and> v \<in> star A"
  then obtain u v where "w = u @ v" "c # u \<in> A" "v \<in> star A" by blast
  then show "c # w \<in> star A" using star_append [of "c # u" A v] by simp
qed

lemma deriv_lang: "w \<in> lang (deriv c r) \<longleftrightarrow> c # w \<in> lang r"
proof (induction r arbitrary: w)
  case (Seq r s)
  have "c # w \<in> lang (Seq r s) \<longleftrightarrow>
      (\<exists>u v. w = u @ v \<and> c # u \<in> lang r \<and> v \<in> lang s) \<or> [] \<in> lang r \<and> c # w \<in> lang s"
    by (auto simp: Cons_eq_append_conv)
  then show ?case by (auto simp: Seq nullable_lang)
next
  case (Star r)
  then show ?case by (simp add: star_Cons)
qed auto

theorem MatchString_lang: "MatchString r s \<longleftrightarrow> s \<in> lang r"
  unfolding MatchString_def
proof (induction s arbitrary: r)
  case Nil
  then show ?case by (simp add: nullable_lang)
next
  case (Cons c s)
  then show ?case by (simp add: deriv_lang)
qed


section \<open>Repetition\<close>

declare lang.simps(5) [simp del]

lemma lang_Seq_iff: "s \<in> lang (Seq r t) \<longleftrightarrow> (\<exists>u v. s = u @ v \<and> u \<in> lang r \<and> v \<in> lang t)"
  by (auto simp: lang.simps(5))

lemma lang_Class_Seq: "s \<in> lang (Seq (Class p) r) \<longleftrightarrow> (\<exists>c v. s = c # v \<and> p c \<and> v \<in> lang r)"
  by (simp add: lang_Seq_iff) (metis append_Cons append_Nil)

lemma lang_Seq_Class: "s \<in> lang (Seq r (Class p)) \<longleftrightarrow> (\<exists>u c. s = u @ [c] \<and> u \<in> lang r \<and> p c)"
  by (auto simp: lang_Seq_iff)

definition Opt :: "rexp \<Rightarrow> rexp" where
  "Opt r = Alt Empty r"

definition Plus :: "rexp \<Rightarrow> rexp" where
  "Plus r = Seq r (Star r)"

primrec Times :: "nat \<Rightarrow> rexp \<Rightarrow> rexp" where
  "Times 0 r = Empty"
| "Times (Suc n) r = Seq r (Times n r)"

primrec Upto :: "nat \<Rightarrow> rexp \<Rightarrow> rexp" where
  "Upto 0 r = Empty"
| "Upto (Suc n) r = Opt (Seq r (Upto n r))"

primrec Literal :: "string \<Rightarrow> rexp" where
  "Literal [] = Empty"
| "Literal (c # cs) = Seq (Class (\<lambda>d. d = c)) (Literal cs)"

lemma lang_Opt [simp]: "lang (Opt r) = insert [] (lang r)"
  by (auto simp: Opt_def)

lemma star_Class: "star {[c] | c. p c} = {s. list_all p s}"
proof -
  have "s \<in> star {[c] | c. p c} \<longleftrightarrow> list_all p s" for s
    by (induction s) (auto simp: star_Cons intro: star_Nil)
  then show ?thesis by blast
qed

lemma lang_Star_Class [simp]: "lang (Star (Class p)) = {s. list_all p s}"
  by (simp add: star_Class)

lemma lang_Plus_Class [simp]: "lang (Plus (Class p)) = {s. s \<noteq> [] \<and> list_all p s}"
  by (auto simp: Plus_def lang_Class_Seq neq_Nil_conv simp del: lang.simps(6))

lemma lang_Times_Class [simp]: "lang (Times n (Class p)) = {s. length s = n \<and> list_all p s}"
proof (induction n)
  case (Suc n)
  have "s \<in> lang (Times (Suc n) (Class p)) \<longleftrightarrow> length s = Suc n \<and> list_all p s" for s
    by (cases s) (auto simp: Suc lang_Class_Seq)
  then show ?case by blast
qed auto

lemma lang_Upto_Class [simp]: "lang (Upto n (Class p)) = {s. length s \<le> n \<and> list_all p s}"
proof (induction n)
  case (Suc n)
  have "s \<in> lang (Upto (Suc n) (Class p)) \<longleftrightarrow> length s \<le> Suc n \<and> list_all p s" for s
    by (cases s) (auto simp: Suc lang_Class_Seq)
  then show ?case by blast
qed auto

lemma lang_Literal [simp]: "lang (Literal w) = {w}"
proof (induction w)
  case (Cons c w)
  have "s \<in> lang (Literal (c # w)) \<longleftrightarrow> s = c # w" for s
    by (cases s) (auto simp: Cons lang_Class_Seq)
  then show ?case by blast
qed simp


section \<open>The pattern of instance names\<close>

text \<open>\<open>^[a-z0-9](?:[a-z0-9-]{0,61}[a-z0-9])?$\<close>\<close>

definition instance_name_regexp :: rexp where
  "instance_name_regexp = Seq (Class label_char) (Opt (Seq (Upto 61 (Class label_or_hyphen)) (Class label_char)))"

lemma instanceNamePattern_regexp: "instanceNamePattern name \<longleftrightarrow> MatchString instance_name_regexp name"
proof -
  have "instanceNamePattern (c # rest) \<longleftrightarrow> c # rest \<in> lang instance_name_regexp" for c rest
    by (cases rest rule: rev_cases)
      (auto simp: instanceNamePattern_def instance_name_regexp_def lang_Class_Seq lang_Seq_Class simp del: Upto.simps)
  then show ?thesis
    by (cases name) (auto simp: MatchString_lang instanceNamePattern_def instance_name_regexp_def lang_Class_Seq)
qed

end
