(* ===== verification/Render.thy ===== *)
theory Render
  imports Config Regex
begin

text \<open>
  \<open>internal/sshinstall/render.go\<close>: what the installer writes on a remote machine, an environment file
  and a systemd unit, and the checks that keep configured text from being read as anything else.
\<close>

section \<open>Definitions\<close>

text \<open>\<open>[a-z0-9._:/-]\<close>, \<open>[0-9a-f]\<close>\<close>

definition image_char :: "char \<Rightarrow> bool" where
  "image_char c \<longleftrightarrow> label_char c \<or> c \<in> {CHR ''.'', CHR ''_'', CHR '':'', CHR ''/'', CHR ''-''}"

definition hex_char :: "char \<Rightarrow> bool" where
  "hex_char c \<longleftrightarrow> ascii_between 48 c 57 \<or> ascii_between 97 c 102"

definition imagePattern :: rexp where
  "imagePattern = Seq (Class label_char) (Seq (Opt (Seq (Star (Class image_char)) (Class label_char)))
     (Seq (Literal ''@sha256:'') (Times 64 (Class hex_char))))"

definition repositoryComponentPattern :: rexp where
  "repositoryComponentPattern = Seq (Plus (Class label_char)) (Star (Seq
     (Alt (Class (\<lambda>c. c = CHR ''.'' \<or> c = CHR ''_'')) (Alt (Literal ''__'') (Plus (Class (\<lambda>c. c = CHR ''-'')))))
     (Plus (Class label_char))))"

definition ValidImage :: "string \<Rightarrow> bool" where
  "ValidImage img =
     (case Cut img ''@sha256:'' of (name, _, hasDigest) \<Rightarrow>
      case Cut name ''/'' of (registry, repository, fullyQualified) \<Rightarrow>
        if \<not> hasDigest \<or> \<not> fullyQualified \<or> (registry \<noteq> ''localhost'' \<and> \<not> ContainsAny registry ''.:'') \<or>
           \<not> MatchString imagePattern img \<or> count_list img (CHR ''@'') \<noteq> 1 \<or>
           sublist ''://'' img \<or> sublist ''//'' img then False
        else list_all (MatchString repositoryComponentPattern) (Split repository (CHR ''/'')))"

definition safeUUID :: "string \<Rightarrow> bool" where
  "safeUUID iid \<longleftrightarrow> length iid = 36 \<and>
     list_all (\<lambda>(index, character).
       if index \<in> {8, 13, 18, 23} then character = CHR ''-'' else hex_char character) (enumerate 0 iid)"

definition safeEnvironmentValue :: "string \<Rightarrow> bool" where
  "safeEnvironmentValue v \<longleftrightarrow> v \<noteq> [] \<and> length v \<le> 255 \<and>
     list_all (\<lambda>c. ascii_between 0x21 c 0x7e \<and> c \<noteq> CHR ''#'' \<and> c \<noteq> CHR ''='') v"

definition validServerName :: "string \<Rightarrow> bool" where
  "validServerName name \<longleftrightarrow> safeEnvironmentValue name \<and> \<not> ContainsAny name ''[]/'' \<and> \<not> isl (normalizeHost name)"

definition validEndpoint :: "string \<Rightarrow> bool" where
  "validEndpoint endpoint = (case SplitHostPort endpoint of
       None \<Rightarrow> False
     | Some (host, port) \<Rightarrow> validServerName host \<and>
         (case Atoi port of None \<Rightarrow> False | Some number \<Rightarrow> number > 0 \<and> number \<le> 65535))"

definition Available :: "config_Host \<Rightarrow> bool" where
  "Available configuration \<longleftrightarrow> ValidImage (InstanceImage configuration) \<and> validEndpoint (PublicGRPC configuration) \<and>
     validServerName (PublicName configuration)"

abbreviation newline :: char where
  "newline \<equiv> CHR 0x0A"

text \<open>The variables of an instance, in the order of the file.\<close>

definition instance_variables :: "string \<Rightarrow> string \<Rightarrow> string \<Rightarrow> string \<Rightarrow> (string \<times> string) list" where
  "instance_variables iid name endpoint serverName =
     [(''ULCER_INSTANCE_ID'', iid), (''ULCER_INSTANCE_NAME'', name), (''ULCER_HOST_GRPC'', endpoint),
      (''ULCER_HOST_SERVER_NAME'', serverName), (''ULCER_INSTANCE_DATA_DIR'', ''/var/lib/ulcer-instance''),
      (''ULCER_INSTANCE_CERT'', ''/run/ulcer-identity/instance.crt''),
      (''ULCER_INSTANCE_KEY'', ''/run/ulcer-identity/instance.key''),
      (''ULCER_INSTANCE_CA'', ''/run/ulcer-identity/ca.crt'')]"

definition env_text :: "(string \<times> string) list \<Rightarrow> string" where
  "env_text kvs = concat (map (\<lambda>(k, v). k @ ''='' @ v @ [newline]) kvs)"

definition renderInstanceEnv :: "string \<Rightarrow> string \<Rightarrow> string \<Rightarrow> string \<Rightarrow> string option" where
  "renderInstanceEnv iid name endpoint serverName =
     (if \<not> safeUUID iid \<or> ValidateInstanceName name \<noteq> None \<or> \<not> validEndpoint endpoint \<or> \<not> validServerName serverName then None
      else Some (env_text (instance_variables iid name endpoint serverName)))"

definition exec_start :: "string \<Rightarrow> string \<Rightarrow> string \<Rightarrow> string list" where
  "exec_start container directory img =
     [''ExecStart=/usr/bin/podman'', ''run'', ''--rm'', ''--name='' @ container, ''--pull=never'', ''--network=bridge'', ''--read-only'',
      ''--user=65532:65532'', ''--security-opt=no-new-privileges'', ''--cap-drop=all'', ''--pids-limit=128'', ''--memory=256m'', ''--cpus=1'',
      ''--tmpfs=/tmp:rw,noexec,nosuid,nodev,size=16m'',
      ''--tmpfs=/var/lib/ulcer-instance:rw,noexec,nosuid,nodev,size=32m,uid=65532,gid=65532,mode=0700'',
      ''--env-file='' @ directory @ ''/instance.env'', ''--volume='' @ directory @ '':/run/ulcer-identity:ro'', img]"

definition unit_lines :: "string \<Rightarrow> string \<Rightarrow> string list" where
  "unit_lines iid img =
     (let directory = ''/etc/ulcer/instances/'' @ iid; container = ''ulcer-instance-'' @ iid in
      [''[Unit]'',
       ''Description=Ulcer INSTANCE agent '' @ iid,
       ''After=network-online.target'',
       ''Wants=network-online.target'',
       [],
       ''[Service]'',
       ''Type=simple'',
       join_with (CHR '' '') (exec_start container directory img),
       ''ExecStop=-/usr/bin/podman stop --time=10 '' @ container,
       ''ExecStopPost=-/usr/bin/podman rm --force '' @ container,
       ''Restart=on-failure'',
       ''RestartSec=5s'',
       ''TimeoutStartSec=300s'',
       ''TimeoutStopSec=30s'',
       ''TasksMax=160'',
       ''MemoryMax=384M'',
       ''CPUQuota=100%'',
       ''NoNewPrivileges=yes'',
       [],
       ''[Install]'',
       ''WantedBy=multi-user.target'',
       []])"

definition renderUnit :: "string \<Rightarrow> string \<Rightarrow> string option" where
  "renderUnit iid img =
     (if \<not> safeUUID iid \<or> \<not> ValidImage img then None else Some (join_with newline (unit_lines iid img)))"



section \<open>Pinned images\<close>

text \<open>A reference as it is meant: a registry, the components of a repository and a digest.\<close>

definition registry_char :: "char \<Rightarrow> bool" where
  "registry_char c \<longleftrightarrow> image_char c \<and> c \<noteq> CHR ''/''"

definition image_reference :: "string \<Rightarrow> string list \<Rightarrow> string \<Rightarrow> string" where
  "image_reference registry components digest =
     registry @ ''/'' @ join_with (CHR ''/'') components @ ''@sha256:'' @ digest"

lemma label_registry: "label_char c \<Longrightarrow> registry_char c"
  by (auto simp: registry_char_def image_char_def label_char_def ascii_between_def)

lemma registry_marks: "\<not> image_char (CHR ''@'')"
  by (simp add: image_char_def label_char_def ascii_between_def)

lemma hex_char_marks: "\<not> hex_char (CHR ''@'')" "\<not> hex_char (CHR ''/'')"
  by (simp_all add: hex_char_def ascii_between_def)

text \<open>A component begins and ends with a letter or digit and holds no slash.\<close>

lemma separated_star:
  assumes "v \<in> star (lang (Seq (Alt (Class (\<lambda>c. c = CHR ''.'' \<or> c = CHR ''_''))
     (Alt (Literal ''__'') (Plus (Class (\<lambda>c. c = CHR ''-''))))) (Plus (Class label_char))))"
  shows "list_all registry_char v \<and> (v \<noteq> [] \<longrightarrow> label_char (last v))"
  using assms
proof (induction rule: star.induct)
  case (star_append u v)
  from star_append(1) obtain s l where u: "u = s @ l" "l \<noteq> []" "list_all label_char l"
    and s: "s \<in> lang (Alt (Class (\<lambda>c. c = CHR ''.'' \<or> c = CHR ''_'')) (Alt (Literal ''__'') (Plus (Class (\<lambda>c. c = CHR ''-'')))))"
    unfolding lang_Seq_iff by auto
  from s have "list_all registry_char s"
    by (auto simp: registry_char_def image_char_def list_all_iff simp del: Literal.simps)
  with u star_append.IH show ?case by (cases v) (auto simp: list_all_iff label_registry)
qed simp

lemma component_shape:
  assumes "s \<in> lang repositoryComponentPattern"
  shows "s \<noteq> [] \<and> label_char (last s) \<and> list_all registry_char s"
proof -
  from assms obtain u v where "s = u @ v" "u \<noteq> []" "list_all label_char u"
    "v \<in> star (lang (Seq (Alt (Class (\<lambda>c. c = CHR ''.'' \<or> c = CHR ''_''))
       (Alt (Literal ''__'') (Plus (Class (\<lambda>c. c = CHR ''-''))))) (Plus (Class label_char))))"
    unfolding repositoryComponentPattern_def lang_Seq_iff by auto
  with separated_star [of v] show ?thesis by (cases v) (auto simp: list_all_iff label_registry)
qed

lemma Cut_at: "CHR ''@'' \<notin> set a \<Longrightarrow> Cut (a @ ''@sha256:'' @ b) ''@sha256:'' = (a, b, True)"
  by (induction a) auto

text \<open>The pattern of the whole reference: a name of its characters, ending in a letter or digit, and the digest.\<close>

lemma imagePattern_lang:
  "s \<in> lang imagePattern \<longleftrightarrow> (\<exists>name digest. s = name @ ''@sha256:'' @ digest \<and> name \<noteq> [] \<and> label_char (hd name) \<and>
     label_char (last name) \<and> list_all image_char name \<and> length digest = 64 \<and> list_all hex_char digest)"
proof -
  have name: "(\<exists>c v. name = c # v \<and> label_char c \<and> (v = [] \<or> (\<exists>m d. v = m @ [d] \<and> list_all image_char m \<and> label_char d))) \<longleftrightarrow>
      name \<noteq> [] \<and> label_char (hd name) \<and> label_char (last name) \<and> list_all image_char name" for name
  proof (cases name)
    case (Cons c v)
    then show ?thesis
      by (cases v rule: rev_cases) (auto simp: image_char_def)
  qed simp
  have "s \<in> lang imagePattern \<longleftrightarrow> (\<exists>c v. s = c # v \<and> label_char c \<and> (\<exists>u w. v = u @ w \<and>
      (u = [] \<or> (\<exists>m d. u = m @ [d] \<and> list_all image_char m \<and> label_char d)) \<and>
      (\<exists>digest. w = ''@sha256:'' @ digest \<and> length digest = 64 \<and> list_all hex_char digest)))"
    unfolding imagePattern_def lang_Class_Seq lang_Seq_iff [of _ "Opt _"] lang_Seq_iff [of _ "Literal _"] lang_Opt
    by (simp add: lang_Seq_Class star_Class del: Literal.simps Times.simps append_Cons)
  also have "\<dots> \<longleftrightarrow> (\<exists>name digest. s = name @ ''@sha256:'' @ digest \<and>
      (\<exists>c v. name = c # v \<and> label_char c \<and> (v = [] \<or> (\<exists>m d. v = m @ [d] \<and> list_all image_char m \<and> label_char d))) \<and>
      length digest = 64 \<and> list_all hex_char digest)"
  proof (intro iffI; elim exE conjE)
    fix c v u w digest assume "s = c # v" "label_char c" "v = u @ w" "w = ''@sha256:'' @ digest" "length digest = 64" "list_all hex_char digest"
      and "u = [] \<or> (\<exists>m d. u = m @ [d] \<and> list_all image_char m \<and> label_char d)"
    then show "\<exists>name digest. s = name @ ''@sha256:'' @ digest \<and>
      (\<exists>c v. name = c # v \<and> label_char c \<and> (v = [] \<or> (\<exists>m d. v = m @ [d] \<and> list_all image_char m \<and> label_char d))) \<and>
      length digest = 64 \<and> list_all hex_char digest"
      by (intro exI [of _ "c # u"] exI [of _ digest]) simp
  next
    fix name digest c v assume "s = name @ ''@sha256:'' @ digest" "name = c # v" "label_char c" "length digest = 64" "list_all hex_char digest"
      and "v = [] \<or> (\<exists>m d. v = m @ [d] \<and> list_all image_char m \<and> label_char d)"
    then show "\<exists>c v. s = c # v \<and> label_char c \<and> (\<exists>u w. v = u @ w \<and>
      (u = [] \<or> (\<exists>m d. u = m @ [d] \<and> list_all image_char m \<and> label_char d)) \<and>
      (\<exists>digest. w = ''@sha256:'' @ digest \<and> length digest = 64 \<and> list_all hex_char digest))"
      by (intro exI [of _ c] exI [of _ "v @ ''@sha256:'' @ digest"] conjI exI [of _ v] exI [of _ "''@sha256:'' @ digest"] exI [of _ digest])
        simp_all
  qed
  finally show ?thesis unfolding name by blast
qed


lemma Cut_slash: "Cut name ''/'' = (a, b, True) \<Longrightarrow> CHR ''/'' \<notin> set a"
  by (induction name arbitrary: a) (auto split: prod.splits if_splits)

lemma ValidImage_reference:
  assumes "ValidImage img"
  obtains registry components digest where "img = image_reference registry components digest"
    and "registry \<noteq> []" and "label_char (hd registry)" and "list_all registry_char registry"
    and "registry = ''localhost'' \<or> ContainsAny registry ''.:''"
    and "components \<noteq> []" and "\<forall>c\<in>set components. c \<in> lang repositoryComponentPattern"
    and "length digest = 64" and "list_all hex_char digest"
proof -
  from assms have "img \<in> lang imagePattern"
    by (simp add: ValidImage_def MatchString_lang split: prod.splits if_splits)
  then obtain name digest where img: "img = name @ ''@sha256:'' @ digest" "name \<noteq> []" "label_char (hd name)"
    "list_all image_char name" "length digest = 64" "list_all hex_char digest" unfolding imagePattern_lang by blast
  have "CHR ''@'' \<notin> set name" using img(4) registry_marks by (auto simp: list_all_iff)
  then have cut: "Cut img ''@sha256:'' = (name, digest, True)" using img(1) by (simp add: Cut_at del: append_Cons append.append_Cons)
  obtain registry repository where slash: "Cut name ''/'' = (registry, repository, True)"
    and reg: "registry = ''localhost'' \<or> ContainsAny registry ''.:''"
    and comps: "list_all (MatchString repositoryComponentPattern) (Split repository (CHR ''/''))"
    using assms cut by (auto simp: ValidImage_def split: prod.splits if_splits)
  have name: "name = registry @ ''/'' @ repository" using Cut_found [OF slash] by simp
  have "registry \<noteq> []"
  proof
    assume "registry = []"
    with name img(3) show False by (simp add: label_char_def ascii_between_def)
  qed
  moreover have "list_all registry_char registry"
    using img(4) name Cut_slash [OF slash] by (auto simp: list_all_iff registry_char_def)
  ultimately show ?thesis
    using that [of registry "Split repository (CHR ''/'')" digest] img name reg comps
    by (auto simp: image_reference_def list_all_iff MatchString_lang)
qed


lemma join_with_last: "ws \<noteq> [] \<Longrightarrow> last ws \<noteq> [] \<Longrightarrow> join_with sep ws \<noteq> [] \<and> last (join_with sep ws) = last (last ws)"
proof (induction ws)
  case (Cons w ws)
  then show ?case by (cases ws) auto
qed simp

text \<open>The parts between the slashes of a reference: none is empty.\<close>

lemma Split_reference:
  assumes "CHR ''/'' \<notin> set registry" and "components \<noteq> []" and "\<forall>c\<in>set components. CHR ''/'' \<notin> set c"
    and "CHR ''/'' \<notin> set rest"
  shows "Split (registry @ ''/'' @ join_with (CHR ''/'') components @ rest) (CHR ''/'') =
    registry # butlast components @ [last components @ rest]"
proof -
  have "Split (join_with (CHR ''/'') cs @ rest) (CHR ''/'') = butlast cs @ [last cs @ rest]"
    if "cs \<noteq> []" "\<forall>c\<in>set cs. CHR ''/'' \<notin> set c" for cs
    using that
  proof (induction cs)
    case (Cons c cs)
    then show ?case using assms(4)
      by (cases cs) (auto simp: Split_no_sep Split_append)
  qed simp
  with assms show ?thesis by (simp add: Split_append)
qed

lemma reference_ValidImage:
  assumes reg: "registry \<noteq> []" "label_char (hd registry)" "list_all registry_char registry"
    "registry = ''localhost'' \<or> ContainsAny registry ''.:''"
    and comps: "components \<noteq> []" "\<forall>c\<in>set components. c \<in> lang repositoryComponentPattern"
    and digest: "length digest = 64" "list_all hex_char digest"
  shows "ValidImage (image_reference registry components digest)"
proof -
  let ?img = "image_reference registry components digest" and ?rep = "join_with (CHR ''/'') components"
  let ?name = "registry @ ''/'' @ ?rep" and ?tail = "''@sha256:'' @ digest"
  have shape: "c \<noteq> []" "label_char (last c)" "list_all registry_char c" if "c \<in> set components" for c
    using component_shape [of c] comps(2) that by blast+
  have last: "?rep \<noteq> []" "label_char (last ?rep)"
    using join_with_last [OF comps(1)] shape [of "last components"] comps(1) by auto
  have "image_char c" if "c \<in> set ?rep" for c
  proof -
    from that consider "c = CHR ''/''" | w where "w \<in> set components" "c \<in> set w"
      using set_join_with [of "CHR ''/''" components] by blast
    then show ?thesis by cases (use shape(3) in \<open>auto simp: list_all_iff registry_char_def image_char_def\<close>)
  qed
  then have chars: "list_all image_char ?name" using reg(3) by (auto simp: list_all_iff registry_char_def image_char_def)
  have at: "CHR ''@'' \<notin> set ?name" using chars registry_marks by (auto simp: list_all_iff)
  have noslash: "CHR ''/'' \<notin> set registry" "\<forall>c\<in>set components. CHR ''/'' \<notin> set c"
    using reg(3) shape(3) by (auto simp: list_all_iff registry_char_def)
  have tail: "CHR ''/'' \<notin> set ?tail" "CHR ''@'' \<notin> set digest"
    using digest(2) hex_char_marks by (auto simp: list_all_iff)
  have "?img \<in> lang imagePattern"
    unfolding imagePattern_lang
    by (intro exI [of _ ?name] exI [of _ digest]) (use reg(1,2) last chars digest in \<open>simp add: image_reference_def\<close>)
  moreover have "Cut ?img ''@sha256:'' = (?name, digest, True)"
    using Cut_at [OF at, of digest] by (simp add: image_reference_def)
  moreover have "Cut ?name ''/'' = (registry, ?rep, True)"
    using Cut_char [OF noslash(1), of ?rep] by simp
  moreover have "Split ?rep (CHR ''/'') = components" using comps(1) noslash(2) by (rule Split_join_with)
  moreover have "count_list ?img (CHR ''@'') = 1"
    using at tail(2) by (simp add: image_reference_def count_list_append count_notin)
  moreover have "[] \<notin> set (Split ?img (CHR ''/''))"
    using Split_reference [OF noslash(1) comps(1) noslash(2) tail(1)] reg(1) shape(1) comps(1)
    by (auto simp: image_reference_def dest: in_set_butlastD)
  then have slashes: "\<not> sublist ''//'' ?img" using Split_double by blast
  moreover have "sublist ''//'' ''://''" by code_simp
  then have "\<not> sublist ''://'' ?img" using slashes sublist_order.order.trans by blast
  ultimately show ?thesis using reg(4) comps(2)
    by (simp add: ValidImage_def MatchString_lang list_all_iff)
qed


text \<open>
  C32.  An image is accepted exactly when it is a fully qualified reference pinned by its digest: a
  registry that names a host, at least one repository component, and 64 hexadecimal digits.
\<close>

theorem valid_image_grammar:
  "ValidImage img \<longleftrightarrow> (\<exists>registry components digest. img = image_reference registry components digest \<and>
     registry \<noteq> [] \<and> label_char (hd registry) \<and> list_all registry_char registry \<and>
     (registry = ''localhost'' \<or> ContainsAny registry ''.:'') \<and>
     components \<noteq> [] \<and> list_all (\<lambda>c. c \<in> lang repositoryComponentPattern) components \<and>
     length digest = 64 \<and> list_all hex_char digest)"
  by (auto simp: list_all_iff [of "\<lambda>c. c \<in> lang repositoryComponentPattern"] intro: reference_ValidImage elim!: ValidImage_reference)


section \<open>The unit\<close>

text \<open>The characters of identifiers and images: none that systemd or a shell reads as more than itself.\<close>

definition plain_char :: "char \<Rightarrow> bool" where
  "plain_char c \<longleftrightarrow> image_char c \<or> c = CHR ''@''"

lemma plain_char_marks:
  "\<not> plain_char newline" "\<not> plain_char (CHR '' '')" "\<not> plain_char (CHR ''%'')" "\<not> plain_char (CHR ''$'')" "\<not> plain_char (CHR 0x22)"
  by (simp_all add: plain_char_def image_char_def label_char_def ascii_between_def)

lemma hex_plain: "hex_char c \<Longrightarrow> plain_char c"
  by (auto simp: hex_char_def plain_char_def image_char_def label_char_def ascii_between_def)

lemma ValidImage_plain: "ValidImage img \<Longrightarrow> list_all plain_char img"
proof (elim ValidImage_reference)
  fix registry components digest
  assume img: "img = image_reference registry components digest" and reg: "list_all registry_char registry"
    and comps: "\<forall>c\<in>set components. c \<in> lang repositoryComponentPattern" and digest: "list_all hex_char digest"
  have "plain_char c" if "c \<in> set (join_with (CHR ''/'') components)" for c
  proof -
    from that consider "c = CHR ''/''" | w where "w \<in> set components" "c \<in> set w"
      using set_join_with [of "CHR ''/''" components] by blast
    then show ?thesis
      by cases (use comps component_shape in \<open>auto simp: list_all_iff registry_char_def image_char_def plain_char_def\<close>)
  qed
  moreover have "list_all plain_char ''/@sha256:''"
    by (simp add: plain_char_def image_char_def label_char_def ascii_between_def)
  ultimately show ?thesis using reg digest hex_plain
    by (auto simp: img image_reference_def list_all_iff registry_char_def plain_char_def)
qed

lemma safeUUID_chars: "safeUUID iid \<Longrightarrow> list_all (\<lambda>c. hex_char c \<or> c = CHR ''-'') iid \<and> iid \<noteq> []"
proof -
  assume u: "safeUUID iid"
  have "hex_char c \<or> c = CHR ''-''" if c: "c \<in> set iid" for c
  proof -
    obtain i where "i < length iid" "iid ! i = c" using c by (auto simp: in_set_conv_nth)
    then have "(i, c) \<in> set (enumerate 0 iid)" by (auto simp: in_set_enumerate_eq)
    with u have "if i \<in> {8, 13, 18, 23} then c = CHR ''-'' else hex_char c" unfolding safeUUID_def list_all_iff by blast
    then show ?thesis by (cases "i \<in> {8, 13, 18, 23}") simp_all
  qed
  moreover have "iid \<noteq> []" using u by (auto simp: safeUUID_def)
  ultimately show ?thesis by (simp add: list_all_iff)
qed

lemma safeUUID_plain: "safeUUID iid \<Longrightarrow> list_all plain_char iid"
  using safeUUID_chars [of iid] hex_plain by (auto simp: list_all_iff plain_char_def image_char_def)


text \<open>
  C31.  The unit holds what the template says and nothing else: its lines are those of the template, the
  command line splits at spaces into the arguments of the template with the image as the last one, and
  neither the identifier nor the image holds a character with a meaning in a unit file or a shell.
\<close>

theorem unit_is_template:
  assumes "renderUnit iid img = Some u"
  shows "Split u newline = unit_lines iid img \<and>
    Split (unit_lines iid img ! 7) (CHR '' '') = exec_start (''ulcer-instance-'' @ iid) (''/etc/ulcer/instances/'' @ iid) img \<and>
    list_all plain_char (iid @ img)"
proof -
  from assms have safe: "safeUUID iid" "ValidImage img" and u: "u = join_with newline (unit_lines iid img)"
    by (auto simp: renderUnit_def split: if_splits)
  note plain = safeUUID_plain [OF safe(1)] ValidImage_plain [OF safe(2)]
  have no: "c \<notin> set iid" "c \<notin> set img" if "\<not> plain_char c" for c
    using plain that by (auto simp: list_all_iff)
  let ?x = "exec_start (''ulcer-instance-'' @ iid) (''/etc/ulcer/instances/'' @ iid) img"
  have words: "\<forall>w\<in>set ?x. CHR '' '' \<notin> set w \<and> newline \<notin> set w" "?x \<noteq> []"
    using no plain_char_marks by (simp_all add: exec_start_def)
  then have line: "newline \<notin> set (join_with (CHR '' '') ?x)" using set_join_with [of "CHR '' ''" ?x] by auto
  have "Split u newline = unit_lines iid img"
    unfolding u
  proof (rule Split_join_with)
    show "\<forall>w\<in>set (unit_lines iid img). newline \<notin> set w"
      using line no plain_char_marks by (simp add: unit_lines_def Let_def)
  qed (simp add: unit_lines_def Let_def)
  moreover have "unit_lines iid img ! 7 = join_with (CHR '' '') ?x" by (simp add: unit_lines_def Let_def)
  ultimately show ?thesis using plain words by (simp add: Split_join_with)
qed

definition example_uuid :: string where
  "example_uuid = ''01234567-89ab-cdef-0123-456789abcdef''"

definition example_image :: string where
  "example_image = ''ghcr.io/ulcer/instance@sha256:'' @ replicate 64 (CHR ''a'')"

lemma example_uuid_safe: "safeUUID example_uuid"
  by code_simp

lemma example_image_valid: "ValidImage example_image"
proof -
  have comp: "s \<in> lang repositoryComponentPattern" if "s \<noteq> []" "list_all label_char s" for s
    unfolding repositoryComponentPattern_def lang_Seq_iff
    by (intro exI [of _ s] exI [of _ "[]"]) (use that in \<open>simp add: star_Nil\<close>)
  have "list_all label_char ''ulcer''" "list_all label_char ''instance''" "list_all registry_char ''ghcr.io''" "label_char (CHR ''g'')"
    "hex_char (CHR ''a'')"
    by (simp_all add: label_char_def registry_char_def image_char_def ascii_between_def hex_char_def)
  with reference_ValidImage [of "''ghcr.io''" "[''ulcer'', ''instance'']" "replicate 64 (CHR ''a'')"] comp
  show ?thesis by (simp add: example_image_def image_reference_def ContainsAny_def list_all_iff)
qed

theorem unit_is_template_witness:
  "\<exists>u. renderUnit example_uuid example_image = Some u \<and> Split u newline = unit_lines example_uuid example_image"
proof -
  have u: "renderUnit example_uuid example_image = Some (join_with newline (unit_lines example_uuid example_image))"
    by (simp add: renderUnit_def example_uuid_safe example_image_valid)
  from unit_is_template [OF u] u show ?thesis by blast
qed


section \<open>The environment file\<close>

text \<open>
  What the container engine makes of an environment file: a text of lines \<open>NAME=value\<close> sets those
  variables, where names are letters and underscores and values printable characters without a space.
\<close>

definition env_name :: "string \<Rightarrow> bool" where
  "env_name k \<longleftrightarrow> k \<noteq> [] \<and> list_all (\<lambda>c. ascii_between 65 c 90 \<or> c = CHR ''_'') k"

definition env_value :: "string \<Rightarrow> bool" where
  "env_value v \<longleftrightarrow> v \<noteq> [] \<and> list_all (\<lambda>c. ascii_between 0x21 c 0x7e) v"

locale env_file =
  fixes read_env :: "string \<Rightarrow> string \<Rightarrow> string"
  assumes read_env_text: "list_all (\<lambda>(k, v). env_name k \<and> env_value v) kvs \<Longrightarrow> distinct (map fst kvs) \<Longrightarrow>
      read_env (env_text kvs) k = (case map_of kvs k of Some v \<Rightarrow> v | None \<Rightarrow> [])"
begin

text \<open>A variable of the file has its value whatever the default.\<close>

lemma envOr_text:
  assumes "list_all (\<lambda>(k, v). env_name k \<and> env_value v) kvs" and "distinct (map fst kvs)" and "map_of kvs k = Some v"
  shows "envOr (read_env (env_text kvs)) k d = v" and "read_env (env_text kvs) k = v"
proof -
  have "v \<noteq> []" using assms(1) map_of_SomeD [OF assms(3)] by (auto simp: list_all_iff env_value_def)
  then show "envOr (read_env (env_text kvs)) k d = v" "read_env (env_text kvs) k = v"
    using read_env_text [OF assms(1,2), of k] assms(3) by (simp_all add: envOr_def)
qed

end

text \<open>A reader that splits at line ends and the first equals sign.\<close>

definition split_env :: "string \<Rightarrow> string \<Rightarrow> string" where
  "split_env text k = (case map_of (map (\<lambda>l. case Cut l ''='' of (a, b, _) \<Rightarrow> (a, b)) (Split text newline)) k of
       Some v \<Rightarrow> v
     | None \<Rightarrow> [])"

lemma env_plain:
  "env_name k \<Longrightarrow> newline \<notin> set k \<and> CHR ''='' \<notin> set k \<and> k \<noteq> []" "env_value v \<Longrightarrow> newline \<notin> set v"
  by (auto simp: env_name_def env_value_def ascii_between_def list_all_iff)

interpretation split_env: env_file split_env
proof
  fix kvs :: "(string \<times> string) list" and k
  assume ok: "list_all (\<lambda>(k, v). env_name k \<and> env_value v) kvs"
  then have "Split (env_text kvs) newline = map (\<lambda>(k, v). k @ ''='' @ v) kvs @ [[]]"
  proof (induction kvs)
    case (Cons kv kvs)
    then show ?case
      using Split_append [of newline "fst kv @ ''='' @ snd kv" "env_text kvs"] env_plain
      by (cases kv) (auto simp: env_text_def)
  qed (simp add: env_text_def)
  moreover have "Cut (k @ ''='' @ v) ''='' = (k, v, True)" if "(k, v) \<in> set kvs" for k v
    using Cut_char [of "CHR ''=''" k v] env_plain(1) [of k] ok that by (auto simp: list_all_iff)
  then have "map (\<lambda>l. case Cut l ''='' of (a, b, _) \<Rightarrow> (a, b)) (map (\<lambda>(k, v). k @ ''='' @ v) kvs) = kvs"
    by (auto simp: o_def intro!: map_idI)
  ultimately show "split_env (env_text kvs) k = (case map_of kvs k of Some v \<Rightarrow> v | None \<Rightarrow> [])"
    by (auto simp: split_env_def map_add_def split: option.splits)
qed


lemma label_env: "label_or_hyphen c \<Longrightarrow> ascii_between 0x21 c 0x7e"
  by (auto simp: label_or_hyphen_def label_char_def ascii_between_def)

lemma safe_env_value: "validServerName v \<Longrightarrow> env_value v"
  by (auto simp: validServerName_def safeEnvironmentValue_def env_value_def list_all_iff)

lemma endpoint_env_value: "validEndpoint e \<Longrightarrow> env_value e"
proof -
  assume "validEndpoint e"
  then obtain h p n where e: "SplitHostPort e = Some (h, p)" "validServerName h" "Atoi p = Some n"
    by (auto simp: validEndpoint_def split: option.splits)
  have "list_all (\<lambda>c. ascii_between 0x21 c 0x7e) p"
  proof (cases p)
    case (Cons c cs)
    have "ascii_between 0x21 d 0x7e" if "is_digit d \<or> d = CHR ''-'' \<or> d = CHR ''+''" for d
      using that by (auto simp: is_digit_def ascii_between_def)
    then show ?thesis using e(3) Cons by (auto simp: Atoi_def Let_def list_all_iff split: if_splits)
  qed simp
  moreover have "env_value h" using e(2) by (rule safe_env_value)
  moreover have "list_all (\<lambda>c. ascii_between 0x21 c 0x7e) '':[]''" by (simp add: ascii_between_def)
  ultimately show ?thesis using SplitHostPort_Some [OF e(1)] by (auto simp: env_value_def)
qed

lemma name_env_value: "ValidateInstanceName name = None \<Longrightarrow> env_value name"
proof -
  assume "ValidateInstanceName name = None"
  then obtain c rest where name: "name = c # rest" "label_char c"
    "rest = [] \<or> list_all label_or_hyphen (butlast rest) \<and> label_char (last rest)"
    by (auto simp: ValidateInstanceName_def instanceNamePattern_def split: if_splits list.splits)
  have "label_or_hyphen d" if "d \<in> set name" for d
    using that name by (cases rest rule: rev_cases) (auto simp: list_all_iff label_or_hyphen_def)
  with name label_env show ?thesis by (auto simp: env_value_def list_all_iff)
qed

lemma uuid_env_value: "safeUUID iid \<Longrightarrow> env_value iid"
  using safeUUID_chars [of iid] by (auto simp: env_value_def list_all_iff hex_char_def ascii_between_def)

lemma instance_variables_ok:
  assumes "env_value iid" "env_value name" "env_value endpoint" "env_value serverName"
  shows "list_all (\<lambda>(k, v). env_name k \<and> env_value v) (instance_variables iid name endpoint serverName)"
    and "distinct (map fst (instance_variables iid name endpoint serverName))"
  using assms by (simp_all add: instance_variables_def) (simp_all add: env_name_def env_value_def ascii_between_def)

text \<open>
  C30.  An installed agent reads back what the host configured: with any container engine that reads
  environment files as documented, the agent that starts with the rendered file has the identifier, the
  name, the endpoint and the server name it was rendered from, and the paths of the image.
\<close>

theorem instance_env_roundtrip:
  assumes "env_file read_env" and "renderInstanceEnv iid name endpoint serverName = Some text"
  shows "InstanceFromEnv (read_env text) = Some \<lparr>ConfigID = iid, ConfigName = name, ConfigHost = endpoint,
    ConfigServerName = serverName, ConfigDataDir = ''/var/lib/ulcer-instance'',
    CertFile = ''/run/ulcer-identity/instance.crt'', KeyFile = ''/run/ulcer-identity/instance.key'',
    CAFile = ''/run/ulcer-identity/ca.crt''\<rparr>"
proof -
  let ?kvs = "instance_variables iid name endpoint serverName"
  from assms(2) have ok: "env_value iid" "env_value name" "env_value endpoint" "env_value serverName"
    and t: "text = env_text ?kvs"
    by (auto simp: renderInstanceEnv_def intro: safe_env_value endpoint_env_value name_env_value uuid_env_value split: if_splits)
  note var = env_file.envOr_text [OF assms(1) instance_variables_ok [OF ok]]
  have ids: "iid \<noteq> []" using ok(1) by (simp add: env_value_def)
  have "map_of ?kvs ''ULCER_INSTANCE_ID'' = Some iid" "map_of ?kvs ''ULCER_INSTANCE_NAME'' = Some name"
    "map_of ?kvs ''ULCER_HOST_GRPC'' = Some endpoint" "map_of ?kvs ''ULCER_HOST_SERVER_NAME'' = Some serverName"
    "map_of ?kvs ''ULCER_INSTANCE_DATA_DIR'' = Some ''/var/lib/ulcer-instance''"
    "map_of ?kvs ''ULCER_INSTANCE_CERT'' = Some ''/run/ulcer-identity/instance.crt''"
    "map_of ?kvs ''ULCER_INSTANCE_KEY'' = Some ''/run/ulcer-identity/instance.key''"
    "map_of ?kvs ''ULCER_INSTANCE_CA'' = Some ''/run/ulcer-identity/ca.crt''"
    by (simp_all add: instance_variables_def)
  note vals = this [THEN var(1)] this(1) [THEN var(2)]
  show ?thesis unfolding t InstanceFromEnv_def by (simp add: vals ids Let_def)
qed

lemma example_env: "\<exists>text. renderInstanceEnv example_uuid ''edge'' ''ulcer.example:22'' ''ulcer.example'' = Some text"
proof -
  have "ValidateInstanceName ''edge'' = None" "validEndpoint ''ulcer.example:22''" "validServerName ''ulcer.example''"
    by code_simp+
  then show ?thesis by (simp add: renderInstanceEnv_def example_uuid_safe)
qed

theorem instance_env_roundtrip_witness:
  "\<exists>text c. renderInstanceEnv example_uuid ''edge'' ''ulcer.example:22'' ''ulcer.example'' = Some text \<and>
     InstanceFromEnv (split_env text) = Some c \<and> ConfigID c = example_uuid \<and> ConfigHost c = ''ulcer.example:22''"
proof -
  obtain f where t: "renderInstanceEnv example_uuid ''edge'' ''ulcer.example:22'' ''ulcer.example'' = Some f"
    using example_env by blast
  from instance_env_roundtrip [OF split_env.env_file_axioms t] t show ?thesis by simp
qed

text \<open>
  The endpoint the host advertises by default is one the installer accepts, for every public name it
  accepts, IPv6 addresses included.
\<close>

theorem default_endpoint_valid:
  assumes "validServerName name"
  shows "validEndpoint (publicGRPCDefault name)"
proof -
  have ok: "name \<noteq> []" "list_all (\<lambda>c. ascii_between 0x21 c 0x7e) name" "CHR ''['' \<notin> set name" "CHR '']'' \<notin> set name"
    using assms by (auto simp: validServerName_def safeEnvironmentValue_def ContainsAny_def list_all_iff)
  have "\<forall>c\<in>set name. \<not> is_space c" using ok(2) by (auto simp: list_all_iff ascii_between_def is_space_def Let_def)
  then have "TrimSpace name = name" by (rule TrimSpace_no_space)
  moreover have "\<not> prefix ''['' name" using ok(3) by (cases name) auto
  ultimately have "publicHost name = name" by (simp add: publicHost_def)
  then have "publicGRPCDefault name = JoinHostPort name ''8443''" using ok(1) by (simp add: publicGRPCDefault_def)
  moreover have "SplitHostPort (JoinHostPort name ''8443'') = Some (name, ''8443'')"
    using ok(3,4) by (intro SplitHostPort_Join) auto
  moreover have "Atoi ''8443'' = Some 8443"
    by (simp add: Atoi_def decimal_def digit_value_def is_digit_def ascii_between_def)
  ultimately show ?thesis using assms by (simp add: validEndpoint_def)
qed

theorem default_endpoint_valid_witness: "validServerName ''ulcer.example'' \<and> validEndpoint (publicGRPCDefault ''ulcer.example'')"
proof -
  have "validServerName ''ulcer.example''" by code_simp
  with default_endpoint_valid [OF this] show ?thesis by blast
qed

end
