(* ===== verification/Installer.thy ===== *)
theory Installer
  imports Api Render
begin

text \<open>
  \<open>internal/sshinstall/install.go\<close>: installing an instance over SSH.  The part before the instance is
  enrolled (checks, authentication, connection, preflight, rendering, credentials) is \<open>install_check\<close> and
  \<open>install_plan\<close>; from then on the goroutine is a state machine, \<open>install_step\<close>, cut where it touches what
  it shares with other goroutines.  The SSH library and the remote machine are the record \<open>ssh\<close>.
\<close>

section \<open>Requests and commands\<close>

record Request =
  ReqName :: string
  ReqHost :: string
  ReqPort :: int
  ReqUser :: string
  HostKeySHA256 :: string
  Password :: string
  PrivateKeyPEM :: string
  PrivateKeyPassword :: string

datatype 'signer auth_method = PasswordAuth string | PublicKeyAuth 'signer

text \<open>
  \<open>parse_key\<close> is \<open>ssh.ParsePrivateKey\<close>, or with a passphrase \<open>ssh.ParsePrivateKeyWithPassphrase\<close>.
  \<open>connect\<close> dials a target and does the handshake with a user, a host key callback and an
  authentication method; it fails with the callback's error or another one (\<open>None\<close>).  \<open>run\<close> runs a
  command and says whether it succeeded; \<open>issue_files\<close> issues the certificate, key and CA of an instance.
\<close>

record ('key, 'signer, 'client) ssh =
  lookup :: "string \<Rightarrow> Addr list option"
  fingerprint_of :: "'key \<Rightarrow> string"
  parse_key :: "string \<Rightarrow> string option \<Rightarrow> 'signer option"
  dial_client :: "resolvedTarget \<Rightarrow> string \<Rightarrow> ('key \<Rightarrow> install_error option) \<Rightarrow> 'signer auth_method \<Rightarrow> install_error option + 'client"
  run_on :: "'client \<Rightarrow> string \<Rightarrow> bool"
  issue_files :: "string \<Rightarrow> (string \<times> string \<times> string) option"

definition authenticationMethod ::
    "('key, 'signer, 'client) ssh \<Rightarrow> Request \<Rightarrow> install_error + 'signer auth_method" where
  "authenticationMethod S r =
     (let password = (length (Password r) > 0); privateKey = (length (PrivateKeyPEM r) > 0) in
      if password = privateKey \<or> (length (PrivateKeyPassword r) > 0 \<and> \<not> privateKey) then Inl ErrInvalidAuth
      else if password then Inr (PasswordAuth (Password r))
      else case parse_key S (PrivateKeyPEM r) (if length (PrivateKeyPassword r) > 0 then Some (PrivateKeyPassword r) else None) of
          None \<Rightarrow> Inl ErrInvalidAuth
        | Some signer \<Rightarrow> Inr (PublicKeyAuth signer))"

definition preflightCommand :: string where
  "preflightCommand = ''test '' @ [CHR 0x22] @ ''$(id -u)'' @ [CHR 0x22] @ '' = 0 && test -r /etc/os-release && . /etc/os-release && case '' @
     [CHR 0x22] @ ''${ID:-}'' @ [CHR 0x22] @ '' in debian|ubuntu) ;; *) exit 20 ;; esac && case '' @
     [CHR 0x22] @ ''$(uname -m)'' @ [CHR 0x22] @ '' in x86_64|amd64) ;; *) exit 21 ;; esac && test -d /run/systemd/system && command -v systemctl >/dev/null && test -r /sys/fs/cgroup/cgroup.controllers''"

definition packagesCommand :: string where
  "packagesCommand = ''export DEBIAN_FRONTEND=noninteractive; apt-get update && apt-get install --yes --no-install-recommends aardvark-dns ca-certificates containernetworking-plugins fuse-overlayfs iproute2 nftables podman procps slirp4netns uidmap''"

definition prepareRemote :: "string \<Rightarrow> string option" where
  "prepareRemote iid = (if \<not> safeUUID iid then None else Some (''install -d -m 0750 -o root -g 65532 /etc/ulcer/instances/'' @ iid))"

definition cleanupRemote :: "string \<Rightarrow> string option" where
  "cleanupRemote iid =
     (if \<not> safeUUID iid then None
      else let unit = ''ulcer-instance-'' @ iid @ ''.service'' in
        Some (''systemctl disable --now '' @ unit @ '' >/dev/null 2>&1 || true; '' @
          ''podman rm --force ulcer-instance-'' @ iid @ '' >/dev/null 2>&1 || true; '' @
          ''rm -f /etc/systemd/system/'' @ unit @ ''; rm -rf /etc/ulcer/instances/'' @ iid @ ''; systemctl daemon-reload''))"

text \<open>The command \<open>uploadFile\<close> runs; the content is its standard input.\<close>

definition uploadFile :: "string \<Rightarrow> string \<Rightarrow> string \<Rightarrow> string" where
  "uploadFile dest mode owner =
     ''umask 077; cat > '' @ dest @ '' && chown '' @ owner @ '' '' @ dest @ '' && chmod '' @ mode @ '' '' @ dest"

definition install_files ::
    "string \<Rightarrow> string \<Rightarrow> string \<times> string \<times> string \<Rightarrow> string \<Rightarrow> (string \<times> string \<times> string \<times> string) list" where
  "install_files iid environment credentials unit =
     (case credentials of (certificate, key, ca) \<Rightarrow>
      let directory = ''/etc/ulcer/instances/'' @ iid in
      [(directory @ ''/instance.env'', ''0600'', ''root:root'', environment),
       (directory @ ''/instance.crt'', ''0640'', ''root:65532'', certificate),
       (directory @ ''/instance.key'', ''0640'', ''root:65532'', key),
       (directory @ ''/ca.crt'', ''0640'', ''root:65532'', ca),
       (''/etc/systemd/system/ulcer-instance-'' @ iid @ ''.service'', ''0644'', ''root:root'', unit)])"

text \<open>The commands after the packages, with their standard input, in order; \<open>None\<close> is one the code refuses to run.\<close>

definition remote_commands ::
    "string \<Rightarrow> string \<Rightarrow> (string \<times> string \<times> string \<times> string) list \<Rightarrow> (string \<times> string) option list" where
  "remote_commands iid img uploads =
     map_option (\<lambda>c. (c, [])) (prepareRemote iid) #
     map (\<lambda>(dest, mode, owner, content). Some (uploadFile dest mode owner, content)) uploads @
     [Some (''podman pull --quiet '' @ img, []),
      Some (''systemctl daemon-reload && systemctl enable --now ulcer-instance-'' @ iid @ ''.service'', [])]"


section \<open>Before the enrolment\<close>

definition installSlots :: nat where
  "installSlots = 2"

text \<open>The checks and the slot: the first part of \<open>Install\<close>, with the channel of slots.\<close>

definition install_check ::
    "('key \<Rightarrow> string) \<Rightarrow> config_Host \<Rightarrow> Request \<Rightarrow> unit chan \<Rightarrow> (install_error + ('key \<Rightarrow> install_error option)) \<times> unit chan" where
  "install_check fp cfg r slots =
     (if \<not> Available cfg then (Inl ErrUnavailable, slots)
      else if ValidateInstanceName (ReqName r) \<noteq> None then (Inl ErrName, slots)
      else if ReqUser r \<noteq> ''root'' then (Inl ErrInvalidUser, slots)
      else case fingerprintCallback fp (HostKeySHA256 r) of
          Inl e \<Rightarrow> (Inl e, slots)
        | Inr callback \<Rightarrow> (case try_send slots () of
              Sent slots \<Rightarrow> (Inr callback, slots)
            | _ \<Rightarrow> (Inl ErrBusy, slots)))"

record plan =
  plan_instance :: Instance
  plan_commands :: "(string \<times> string) option list"

text \<open>
  From the slot to the enrolment.  \<open>cancelled\<close> says whether the context has ended when the connection
  fails; \<open>iid\<close> is the fresh UUID.
\<close>

definition install_plan ::
    "('key, 'signer, 'client) ssh \<Rightarrow> config_Host \<Rightarrow> bool \<Rightarrow> instant \<Rightarrow> string \<Rightarrow> ('key \<Rightarrow> install_error option) \<Rightarrow> Request \<Rightarrow>
     install_error + plan" where
  "install_plan S cfg cancelled now iid callback r =
     bindE (authenticationMethod S r) (\<lambda>authMethod.
     bindE (resolveTarget (lookup S) (ReqHost r) (ReqPort r)) (\<lambda>target.
     case dial_client S target (ReqUser r) callback authMethod of
       Inl err \<Rightarrow> Inl (if err = Some ErrHostKeyMismatch then ErrHostKeyMismatch else if cancelled then ErrInstall else ErrConnect)
     | Inr client \<Rightarrow>
         if \<not> run_on S client preflightCommand then Inl ErrPreflight
         else case renderInstanceEnv iid (ReqName r) (PublicGRPC cfg) (PublicName cfg) of
             None \<Rightarrow> Inl ErrUnavailable
           | Some environment \<Rightarrow> (case renderUnit iid (InstanceImage cfg) of
                 None \<Rightarrow> Inl ErrUnavailable
               | Some unit \<Rightarrow> (case issue_files S iid of
                     None \<Rightarrow> Inl ErrInstall
                   | Some credentials \<Rightarrow> Inr
                       \<lparr>plan_instance = new_instance now iid (ReqName r),
                        plan_commands = remote_commands iid (InstanceImage cfg) (install_files iid environment credentials unit)\<rparr>))))"


section \<open>From the enrolment on\<close>

text \<open>
  The states of the goroutine.  From \<open>InstallFailing\<close> on it is in the deferred function that rolls back:
  \<open>touched\<close> says whether the remote machine has to be cleaned up.
\<close>

datatype installing =
    InstallReady plan
  | InstallEnrolled plan
  | InstallStarting plan
  | InstallPackages plan
  | InstallRemote plan "(string \<times> string) option list"
  | InstallWaiting plan
  | InstallOnline plan
  | InstallFailing plan install_error bool
  | InstallRevoked plan install_error nat bool
  | InstallCleaningAgain plan install_error nat
  | InstallCleaned plan install_error nat
  | InstallDeleting plan install_error nat
  | InstallDeleted plan install_error nat
  | InstallReleasing install_error nat
  | InstallFinished "install_error + Instance"

text \<open>What the remote machine, the context and the timer do to a step; \<open>in_reconnected\<close>: the second connection for the cleanup.\<close>

record remote_input =
  in_ran :: bool
  in_cancelled :: bool
  in_timeout :: bool
  in_reconnected :: bool

definition plan_id :: "plan \<Rightarrow> string" where
  "plan_id p = ID (plan_instance p)"

definition plan_name :: "plan \<Rightarrow> string" where
  "plan_name p = Name (plan_instance p)"

definition install_publish ::
    "'db badger \<Rightarrow> instant \<Rightarrow> string \<Rightarrow> plan \<Rightarrow> (string \<times> json) list \<Rightarrow> installing \<Rightarrow> 'db host \<Rightarrow> (installing \<times> 'db host) option" where
  "install_publish B now eventType p extra st w =
     map_option (\<lambda>(s, b). (st, w\<lparr>db := s, bus := b\<rparr>))
       (publish B now eventType (plan_id p) ((''name'', JStr (plan_name p)) # extra) (db w, bus w))"

text \<open>One round of \<open>waitOnline\<close>.\<close>

definition waitOnline :: "remote_input \<Rightarrow> plan \<Rightarrow> Hub \<Rightarrow> installing" where
  "waitOnline inp p h =
     (if in_cancelled inp then InstallFailing p ErrOnline True
      else if Online h (plan_id p) then InstallOnline p
      else if in_timeout inp then InstallFailing p ErrOnline True
      else InstallWaiting p)"

text \<open>The end of \<open>Install\<close>, under the hub's lock while the instance is online.\<close>

definition install_succeed ::
    "'db badger \<Rightarrow> instant \<Rightarrow> remote_input \<Rightarrow> plan \<Rightarrow> 'db host \<Rightarrow> (installing \<times> 'db host) option" where
  "install_succeed B now inp p w =
     (if in_cancelled inp then Some (InstallFailing p ErrOnline True, w)
      else snd (IfOnline (hub w) (plan_id p) (\<lambda>_.
        case lookup_instance B now (plan_id p) (db w) of
          Inl e \<Rightarrow> Some (InstallFailing p ErrInstall True, w)
        | Inr i \<Rightarrow> install_publish B now ''instance.ssh_install.succeeded'' p [] (InstallFinished (Inr i)) w)
          (Some (InstallFailing p ErrInstall True, w))))"

definition install_step ::
    "'db badger \<Rightarrow> instant \<Rightarrow> remote_input \<Rightarrow> installing \<Rightarrow> 'db host \<Rightarrow> (installing \<times> 'db host) option" where
  "install_step B now inp st w = (case st of
       InstallReady p \<Rightarrow> (case PutInstance B (plan_instance p) (db w) of
           (Inl e, s) \<Rightarrow> Some (InstallFinished (Inl ErrInstall), w\<lparr>db := s\<rparr>)
         | (Inr _, s) \<Rightarrow> Some (InstallEnrolled p, w\<lparr>db := s\<rparr>))
     | InstallEnrolled p \<Rightarrow>
         install_publish B now ''instance.enrolled'' p [(''method'', JStr ''ssh'')] (InstallStarting p) w
     | InstallStarting p \<Rightarrow> install_publish B now ''instance.ssh_install.started'' p [] (InstallPackages p) w
     | InstallPackages p \<Rightarrow>
         Some (if in_ran inp then InstallRemote p (plan_commands p) else InstallFailing p ErrInstall False, w)
     | InstallRemote p [] \<Rightarrow> Some (InstallWaiting p, w)
     | InstallRemote p (None # cs) \<Rightarrow> Some (InstallFailing p ErrInstall True, w)
     | InstallRemote p (Some c # cs) \<Rightarrow>
         Some (if in_ran inp then InstallRemote p cs else InstallFailing p ErrInstall True, w)
     | InstallWaiting p \<Rightarrow> Some (waitOnline inp p (hub w), w)
     | InstallOnline p \<Rightarrow> install_succeed B now inp p w
     | InstallFailing p e touched \<Rightarrow>
         map_option (\<lambda>(k, h). (InstallRevoked p e k touched, w\<lparr>hub := h\<rparr>)) (Revoke (plan_id p) (hub w))
     | InstallRevoked p e k touched \<Rightarrow>
         Some (if touched \<and> (cleanupRemote (plan_id p) = None \<or> \<not> in_ran inp) \<and> in_reconnected inp
               then InstallCleaningAgain p e k else InstallCleaned p e k, w)
     | InstallCleaningAgain p e k \<Rightarrow> Some (InstallCleaned p e k, w)
     | InstallCleaned p e k \<Rightarrow>
         install_publish B now ''instance.ssh_install.failed'' p [] (InstallDeleting p e k) w
     | InstallDeleting p e k \<Rightarrow> (case DeleteInstance B now (plan_id p) (db w) of
           (Inl _, s) \<Rightarrow> Some (InstallReleasing e k, w\<lparr>db := s\<rparr>)
         | (Inr _, s) \<Rightarrow> Some (InstallDeleted p e k, w\<lparr>db := s\<rparr>))
     | InstallDeleted p e k \<Rightarrow>
         install_publish B now ''instance.deleted'' p [(''rollback'', JBool True)] (InstallReleasing e k) w
     | InstallReleasing e k \<Rightarrow> Some (InstallFinished (Inl e), w\<lparr>hub := release k (hub w)\<rparr>)
     | InstallFinished r \<Rightarrow> Some (InstallFinished r, w))"

text \<open>The command a step runs on the remote machine, with its standard input.\<close>

definition install_runs :: "installing \<Rightarrow> (string \<times> string) option" where
  "install_runs st = (case st of
       InstallPackages p \<Rightarrow> Some (packagesCommand, [])
     | InstallRemote p (c # cs) \<Rightarrow> c
     | InstallRevoked p e k touched \<Rightarrow> if touched then map_option (\<lambda>c. (c, [])) (cleanupRemote (plan_id p)) else None
     | InstallCleaningAgain p e k \<Rightarrow> map_option (\<lambda>c. (c, [])) (cleanupRemote (plan_id p))
     | _ \<Rightarrow> None)"


section \<open>The handlers\<close>

text \<open>\<open>sshHostKey\<close> of the API.\<close>

definition marshal_HostKey :: "HostKey \<Rightarrow> json" where
  "marshal_HostKey k = JObj [(''algorithm'', JStr (Algorithm k)), (''fingerprint'', JStr (Fingerprint k))]"

definition sshHostKey ::
    "(string \<Rightarrow> Addr list option) \<Rightarrow> (resolvedTarget \<Rightarrow> (string \<times> 'key) option) \<Rightarrow> ('key \<Rightarrow> string) \<Rightarrow> request \<Rightarrow> response" where
  "sshHostKey look_up probe fp r = (case decodeJSON [(''host'', StringField), (''port'', IntField)] r of
       Inl w \<Rightarrow> w
     | Inr ms \<Rightarrow> (case ProbeHostKey look_up probe fp (string_field ms ''host'') (int_field ms ''port'') of
           Inl (ErrInvalidTarget d) \<Rightarrow> writeError 400 ''invalid_ssh_target'' (install_error_text (ErrInvalidTarget d))
         | Inl ErrTargetBlocked \<Rightarrow> writeError 400 ''invalid_ssh_target'' (install_error_text ErrTargetBlocked)
         | Inl e \<Rightarrow> writeError 502 ''ssh_probe_failed'' ''could not complete the SSH host key handshake''
         | Inr hostKey \<Rightarrow> writeJSON 200 (marshal_HostKey hostKey)))"

text \<open>What \<open>installInstanceSSH\<close> makes of its body, and of the result of \<open>Install\<close>.\<close>

definition install_request :: "request \<Rightarrow> response + Request" where
  "install_request r = bindE (decodeJSON [(''name'', StringField), (''host'', StringField), (''port'', IntField),
       (''user'', StringField), (''host_key_sha256'', StringField), (''password'', StringField),
       (''private_key_pem'', StringField), (''passphrase'', StringField)] r) (\<lambda>ms.
     Inr \<lparr>ReqName = string_field ms ''name'', ReqHost = string_field ms ''host'', ReqPort = int_field ms ''port'',
       ReqUser = string_field ms ''user'', HostKeySHA256 = string_field ms ''host_key_sha256'',
       Password = string_field ms ''password'', PrivateKeyPEM = string_field ms ''private_key_pem'',
       PrivateKeyPassword = string_field ms ''passphrase''\<rparr>)"

definition install_response :: "bool \<Rightarrow> install_error + Instance \<Rightarrow> response" where
  "install_response cancelled res = (case res of
       Inr i \<Rightarrow> writeJSON 201 (JObj [(''instance'', marshal_Instance i)])
     | Inl e \<Rightarrow> (case e of
           ErrUnavailable \<Rightarrow> writeError 503 ''ssh_install_unavailable''
             ''SSH installation requires a valid public gRPC endpoint and an exact digest-pinned ULCER_INSTANCE_IMAGE''
         | ErrBusy \<Rightarrow> writeError 429 ''ssh_install_busy'' ''too many SSH installations are in progress''
         | ErrName \<Rightarrow> writeError 400 ''invalid_name'' (install_error_text e)
         | ErrInvalidUser \<Rightarrow> writeError 400 ''invalid_ssh_user'' (install_error_text e)
         | ErrInvalidAuth \<Rightarrow> writeError 400 ''invalid_ssh_auth'' (install_error_text e)
         | ErrInvalidHostKey \<Rightarrow> writeError 400 ''invalid_host_key'' (install_error_text e)
         | ErrInvalidTarget d \<Rightarrow> writeError 400 ''invalid_ssh_target'' (install_error_text e)
         | ErrTargetBlocked \<Rightarrow> writeError 400 ''invalid_ssh_target'' (install_error_text e)
         | ErrHostKeyMismatch \<Rightarrow> writeError 409 ''host_key_mismatch'' ''SSH host key does not match the confirmed fingerprint''
         | ErrConnect \<Rightarrow> writeError 502 ''ssh_connect_failed'' ''could not connect to and authenticate with the SSH server''
         | ErrPreflight \<Rightarrow> writeError 422 ''ssh_preflight_failed''
             ''remote host must be linux/amd64 Debian or Ubuntu with root, systemd, and cgroup v2''
         | ErrOnline \<Rightarrow> writeError 504 ''instance_connect_timeout'' ''instance did not connect before the deadline''
         | ErrInstall \<Rightarrow> if cancelled then writeError 408 ''ssh_install_cancelled'' ''SSH installation was cancelled''
             else writeError 502 ''ssh_install_failed'' ''remote instance installation failed''
         | ErrHandshake \<Rightarrow> writeError 502 ''ssh_install_failed'' ''remote instance installation failed''))"


section \<open>What is checked before anything is enrolled\<close>

lemma install_check_ok:
  assumes "install_check fp cfg r slots = (Inr callback, slots')"
  shows "Available cfg" and "ValidateInstanceName (ReqName r) = None" and "ReqUser r = ''root''"
    and "fingerprintCallback fp (HostKeySHA256 r) = Inr callback" and "try_send slots () = Sent slots'"
  using assms by (auto simp: install_check_def split: if_splits sum.splits send_outcome.splits)

lemma install_plan_ok:
  assumes "install_plan S cfg cancelled now iid callback r = Inr p"
  obtains auth target client environment unit credentials where "authenticationMethod S r = Inr auth"
    and "resolveTarget (lookup S) (ReqHost r) (ReqPort r) = Inr target"
    and "dial_client S target (ReqUser r) callback auth = Inr client" and "run_on S client preflightCommand"
    and "renderInstanceEnv iid (ReqName r) (PublicGRPC cfg) (PublicName cfg) = Some environment"
    and "renderUnit iid (InstanceImage cfg) = Some unit" and "issue_files S iid = Some credentials"
    and "p = \<lparr>plan_instance = new_instance now iid (ReqName r),
       plan_commands = remote_commands iid (InstanceImage cfg) (install_files iid environment credentials unit)\<rparr>"
proof -
  from assms obtain auth target where auth: "authenticationMethod S r = Inr auth"
    and target: "resolveTarget (lookup S) (ReqHost r) (ReqPort r) = Inr target"
    by (auto simp: install_plan_def bind_simps)
  note rest = assms [unfolded install_plan_def, unfolded auth target, simplified]
  obtain client where client: "dial_client S target (ReqUser r) callback auth = Inr client" "run_on S client preflightCommand"
    using rest by (cases "dial_client S target (ReqUser r) callback auth") (auto split: if_splits)
  with rest that [OF auth target client] show ?thesis by (auto split: option.splits)
qed

text \<open>
  The SSH library promises that a handshake succeeds only when the callback accepts the key of the
  server that is reached (\<open>server_key\<close>).
\<close>

definition checks_host_key :: "('key, 'signer, 'client) ssh \<Rightarrow> ('client \<Rightarrow> 'key) \<Rightarrow> bool" where
  "checks_host_key S server_key \<longleftrightarrow>
     (\<forall>target user callback auth client. dial_client S target user callback auth = Inr client \<longrightarrow> callback (server_key client) = None)"

text \<open>
  The characters of the commands: no quotes, no expansion, no escape, no line end.  The separators and
  redirections of their fixed text are allowed; what is substituted holds none of them (\<open>safeUUID_plain\<close>).
\<close>

definition shell_plain :: "char \<Rightarrow> bool" where
  "shell_plain c \<longleftrightarrow> plain_char c \<or> c \<in> set '' >&;|''"

lemma plain_shell: "list_all plain_char s \<Longrightarrow> list_all shell_plain s"
  by (auto simp: list_all_iff shell_plain_def)

lemma remote_commands_plain:
  assumes "safeUUID iid" and "ValidImage img"
  shows "list_all (\<lambda>c. \<exists>command content. c = Some (command, content) \<and> list_all shell_plain command)
    (remote_commands iid img (install_files iid environment credentials unit))"
proof -
  note plain = plain_shell [OF safeUUID_plain [OF assms(1)]] plain_shell [OF ValidImage_plain [OF assms(2)]]
  obtain certificate key ca where "credentials = (certificate, key, ca)" by (cases credentials)
  then show ?thesis using plain assms(1)
    by (simp add: remote_commands_def install_files_def prepareRemote_def uploadFile_def Let_def)
      (simp add: shell_plain_def plain_char_def image_char_def label_char_def ascii_between_def)
qed

text \<open>
  C15.  Nothing is enrolled, and no credential leaves the host, before the operator's confirmation holds: a
  plan exists only when the server that was reached, as root, has the confirmed key and an address
  outside the reserved blocks; and every command of the plan is free of characters a shell expands.
\<close>

theorem install_goes_where_confirmed:
  assumes "checks_host_key S server_key" and "gives_addresses (lookup S)"
    and "\<And>key. fingerprint_of S key = ''SHA256:'' @ EncodeBase64 (digest_of key)"
    and "install_check (fingerprint_of S) cfg r slots = (Inr callback, slots')"
    and "install_plan S cfg cancelled now iid callback r = Inr p"
  shows "\<exists>target auth client a. dial_client S target ''root'' callback auth = Inr client \<and>
    HostKeySHA256 r = ''SHA256:'' @ EncodeBase64 (digest_of (server_key client)) \<and>
    SplitHostPort (target_address target) = Some (String a, Itoa (ReqPort r)) \<and> ParseAddr (String a) = Some a \<and> \<not> reserved a \<and>
    list_all (\<lambda>c. \<exists>command content. c = Some (command, content) \<and> list_all shell_plain command) (plan_commands p)"
proof -
  note check = install_check_ok [OF assms(4)]
  from assms(5) obtain auth target client environment unit credentials where
    plan: "resolveTarget (lookup S) (ReqHost r) (ReqPort r) = Inr target" "dial_client S target (ReqUser r) callback auth = Inr client"
    "renderUnit iid (InstanceImage cfg) = Some unit"
    "p = \<lparr>plan_instance = new_instance now iid (ReqName r),
       plan_commands = remote_commands iid (InstanceImage cfg) (install_files iid environment credentials unit)\<rparr>"
    by (rule install_plan_ok)
  have "callback (server_key client) = None" using assms(1) plan(2) by (auto simp: checks_host_key_def)
  then have "fingerprint_of S (server_key client) = HostKeySHA256 r"
    using check(4) by (auto simp: fingerprintCallback_def Let_def split: if_splits option.splits)
  moreover obtain a where "SplitHostPort (target_address target) = Some (String a, Itoa (ReqPort r))" "ParseAddr (String a) = Some a"
    "\<not> reserved a"
    using assms(2) plan(1) by (rule resolved_checked)
  moreover have "safeUUID iid" "ValidImage (InstanceImage cfg)" using plan(3) by (auto simp: renderUnit_def split: if_splits)
  ultimately show ?thesis
    using plan(2,4) check(3) assms(3) remote_commands_plain [of iid "InstanceImage cfg" environment credentials unit]
    by (intro exI [of _ target] exI [of _ auth] exI [of _ client] exI [of _ a]) simp
qed


definition example_ssh :: "(string, unit, unit) ssh" where
  "example_ssh = \<lparr>lookup = example_lookup, fingerprint_of = \<lambda>key. ''SHA256:'' @ EncodeBase64 key, parse_key = \<lambda>_ _. None,
     dial_client = \<lambda>target user callback auth. (case callback (replicate 32 (CHR ''a'')) of None \<Rightarrow> Inr () | Some e \<Rightarrow> Inl (Some e)),
     run_on = \<lambda>_ _. True, issue_files = \<lambda>_. Some ([], [], [])\<rparr>"

definition example_config :: config_Host where
  "example_config = \<lparr>HTTPAddr = [], GRPCAddr = [], HostDataDir = [], PublicName = ''ulcer.example'', PublicGRPC = ''ulcer.example:22'',
     InstanceImage = example_image, ConfigSetupToken = []\<rparr>"

definition example_request :: Request where
  "example_request = \<lparr>ReqName = ''edge'', ReqHost = ''edge.example.com'', ReqPort = 22, ReqUser = ''root'',
     HostKeySHA256 = ''SHA256:'' @ EncodeBase64 (replicate 32 (CHR ''a'')), Password = ''secret'', PrivateKeyPEM = [], PrivateKeyPassword = []\<rparr>"

lemma example_plan:
  obtains callback slots p where
    "install_check (fingerprint_of example_ssh) example_config example_request (make_chan installSlots) = (Inr callback, slots)"
    and "install_plan example_ssh example_config False 5 example_uuid callback example_request = Inr p"
    and "plan_instance p = new_instance 5 example_uuid ''edge''"
proof -
  have valid: "ValidateInstanceName ''edge'' = None" "validEndpoint ''ulcer.example:22''" "validServerName ''ulcer.example''"
    by code_simp+
  then have av: "Available example_config" by (simp add: Available_def example_config_def example_image_valid)
  obtain f where env: "renderInstanceEnv example_uuid ''edge'' ''ulcer.example:22'' ''ulcer.example'' = Some f"
    using example_env by blast
  define callback where "callback = (\<lambda>key. if ''SHA256:'' @ EncodeBase64 key \<noteq> ''SHA256:'' @ EncodeBase64 (replicate 32 (CHR ''a''))
    then Some ErrHostKeyMismatch else None)"
  have "fingerprintCallback (fingerprint_of example_ssh) (HostKeySHA256 example_request) = Inr callback"
    by (simp add: fingerprintCallback_def example_ssh_def example_request_def callback_def)
  then have check: "install_check (fingerprint_of example_ssh) example_config example_request (make_chan installSlots) =
      (Inr callback, \<lparr>capacity = 2, buffer = [()], is_closed = False\<rparr>)"
    using av valid by (simp add: install_check_def example_request_def try_send_def make_chan_def installSlots_def)
  have "authenticationMethod example_ssh example_request = Inr (PasswordAuth ''secret'')"
    by (simp add: authenticationMethod_def example_request_def)
  moreover have "resolveTarget (lookup example_ssh) (ReqHost example_request) (ReqPort example_request) =
      Inr \<lparr>target_host = ''edge.example.com:22'', target_address = ''203.0.113.10:22''\<rparr>"
    using example_resolves by (simp add: example_ssh_def example_request_def)
  ultimately obtain commands where "install_plan example_ssh example_config False 5 example_uuid callback example_request =
      Inr \<lparr>plan_instance = new_instance 5 example_uuid ''edge'', plan_commands = commands\<rparr>"
    by (simp add: install_plan_def example_ssh_def callback_def example_request_def example_config_def env renderUnit_def
        example_uuid_safe example_image_valid)
  with check show ?thesis by (rule that) simp
qed

theorem install_goes_where_confirmed_witness:
  "\<exists>callback slots p target auth. install_check (fingerprint_of example_ssh) example_config example_request (make_chan installSlots) = (Inr callback, slots) \<and>
     install_plan example_ssh example_config False 5 example_uuid callback example_request = Inr p \<and>
     dial_client example_ssh target ''root'' callback auth = Inr ()"
proof -
  obtain callback slots p where
    check: "install_check (fingerprint_of example_ssh) example_config example_request (make_chan installSlots) = (Inr callback, slots)"
    and plan: "install_plan example_ssh example_config False 5 example_uuid callback example_request = Inr p"
    by (rule example_plan)
  have key: "checks_host_key example_ssh (\<lambda>_. replicate 32 (CHR ''a''))"
    by (auto simp: checks_host_key_def example_ssh_def split: option.splits)
  have look: "gives_addresses (lookup example_ssh)"
    by (simp add: gives_addresses_def example_ssh_def example_lookup_def)
  have fp: "fingerprint_of example_ssh key = ''SHA256:'' @ EncodeBase64 key" for key
    by (simp add: example_ssh_def)
  from install_goes_where_confirmed [where digest_of = "\<lambda>key. key", OF key look fp check plan] check plan show ?thesis by auto
qed

end
