(* ===== verification/Plane.thy ===== *)
theory Plane
  imports Installer
begin

text \<open>
  The control plane as a whole: the goroutines of the control server (one per connection), the HTTP
  handlers that delete an instance, set its desired state, enrol one and install one over SSH, the event
  streams and the operator's logins, all working on one hub, one database and one bus.  A goroutine is a \<open>thread\<close>, and
  \<open>thread_step\<close> runs one to the next point where another can run.  \<open>sys_step\<close> lets any of them go next.

  Publishing an event (appending it to the ledger and handing it to the streams) is one step here; the
  finer interleaving of the two is treated with the bus.
\<close>

section \<open>Threads\<close>

text \<open>
  The states of \<open>deleteInstance\<close> (revoked; deleted, not announced; to release), of \<open>setDesired\<close> after
  its checks (stored; sent) and of \<open>createInstance\<close> after its checks (stored).
\<close>

datatype deleter =
    DeleteStart string
  | DeleteRevoked string nat
  | DeleteDone string nat Instance
  | DeleteRelease nat response
  | DeleteFinished response

datatype setter =
    SetStart string "string \<times> string"
  | SetStored Instance
  | SetSent Instance bool
  | SetFinished response

datatype enroller =
    EnrolStart Instance
  | EnrolStored Instance
  | EnrolFinished bool

datatype thread =
    Connecting handler
  | Deleting deleter
  | Setting setter
  | Enrolling enroller
  | Installing installing

text \<open>What the world outside does to a step: to a connection, or to an installation.\<close>

record thread_input =
  in_connect :: connect_input
  in_remote :: remote_input

definition delete_step :: "'db badger \<Rightarrow> instant \<Rightarrow> deleter \<Rightarrow> 'db host \<Rightarrow> (deleter \<times> 'db host) option" where
  "delete_step B now d w = (case d of
       DeleteStart iid \<Rightarrow> map_option (\<lambda>(k, h). (DeleteRevoked iid k, w\<lparr>hub := h\<rparr>)) (Revoke iid (hub w))
     | DeleteRevoked iid k \<Rightarrow> (case DeleteInstance B now iid (db w) of
           (Inl e, s) \<Rightarrow> Some (DeleteRelease k (delete_response e), w\<lparr>db := s\<rparr>)
         | (Inr i, s) \<Rightarrow> Some (DeleteDone iid k i, w\<lparr>db := s\<rparr>))
     | DeleteDone iid k i \<Rightarrow>
         map_option (\<lambda>(s, b). (DeleteRelease k (writeHeader 204), w\<lparr>db := s, bus := b\<rparr>))
           (publish B now ''instance.deleted'' iid [(''name'', JStr (Name i))] (db w, bus w))
     | DeleteRelease k r \<Rightarrow> Some (DeleteFinished r, w\<lparr>hub := release k (hub w)\<rparr>)
     | DeleteFinished r \<Rightarrow> Some (DeleteFinished r, w))"

definition set_step :: "'db badger \<Rightarrow> instant \<Rightarrow> setter \<Rightarrow> 'db host \<Rightarrow> (setter \<times> 'db host) option" where
  "set_step B now d w = (case d of
       SetStart iid cd \<Rightarrow> (case desired_store B now iid cd (db w) of
           (Inl r, s) \<Rightarrow> Some (SetFinished r, w\<lparr>db := s\<rparr>)
         | (Inr i, s) \<Rightarrow> Some (SetStored i, w\<lparr>db := s\<rparr>))
     | SetStored i \<Rightarrow> map_option (\<lambda>(delivered, h). (SetSent i delivered, w\<lparr>hub := h\<rparr>))
         (Send (ID i) (desiredMessage i) (hub w))
     | SetSent i delivered \<Rightarrow>
         map_option (\<lambda>(published, s, b). (SetFinished (desired_response i delivered published), w\<lparr>db := s, bus := b\<rparr>))
           (desired_event B now (hub w) i delivered (db w, bus w))
     | SetFinished r \<Rightarrow> Some (SetFinished r, w))"

definition enrol_step :: "'db badger \<Rightarrow> instant \<Rightarrow> enroller \<Rightarrow> 'db host \<Rightarrow> (enroller \<times> 'db host) option" where
  "enrol_step B now d w = (case d of
       EnrolStart i \<Rightarrow> (case PutInstance B i (db w) of
           (Inl e, s) \<Rightarrow> Some (EnrolFinished False, w\<lparr>db := s\<rparr>)
         | (Inr _, s) \<Rightarrow> Some (EnrolStored i, w\<lparr>db := s\<rparr>))
     | EnrolStored i \<Rightarrow> map_option (\<lambda>(s, b). (EnrolFinished True, w\<lparr>db := s, bus := b\<rparr>))
         (publish B now ''instance.enrolled'' (ID i) [(''name'', JStr (Name i))] (db w, bus w))
     | EnrolFinished ok \<Rightarrow> Some (EnrolFinished ok, w))"

text \<open>A step of a thread, with the messages it hands to an agent's stream.\<close>

definition thread_step ::
    "'db badger \<Rightarrow> instant \<Rightarrow> thread_input \<Rightarrow> thread \<Rightarrow> 'db host \<Rightarrow> (thread \<times> HostMessage list \<times> 'db host) option" where
  "thread_step B now inp t w = (case t of
       Connecting k \<Rightarrow> map_option (\<lambda>(k, out, w). (Connecting k, out, w)) (connect_step B now (in_connect inp) k w)
     | Deleting d \<Rightarrow> map_option (\<lambda>(d, w). (Deleting d, [], w)) (delete_step B now d w)
     | Setting d \<Rightarrow> map_option (\<lambda>(d, w). (Setting d, [], w)) (set_step B now d w)
     | Enrolling d \<Rightarrow> map_option (\<lambda>(d, w). (Enrolling d, [], w)) (enrol_step B now d w)
     | Installing d \<Rightarrow> map_option (\<lambda>(d, w). (Installing d, [], w)) (install_step B now (in_remote inp) d w))"

fun initial :: "thread \<Rightarrow> bool" where
  "initial (Connecting Accepting) = True"
| "initial (Deleting (DeleteStart iid)) = True"
| "initial (Setting (SetStart iid cd)) = True"
| "initial (Enrolling (EnrolStart i)) = (i = new_instance (CreatedAt i) (ID i) (Name i))"
| "initial (Installing (InstallReady p)) =
     (plan_instance p = new_instance (CreatedAt (plan_instance p)) (ID (plan_instance p)) (Name (plan_instance p)))"
| "initial _ = False"


section \<open>Other writers\<close>

text \<open>A change of the credentials and sessions only: the keys that begin with \<open>auth/\<close>.\<close>

definition only_auth :: "contents \<Rightarrow> contents \<Rightarrow> bool" where
  "only_auth c c' \<longleftrightarrow> (\<forall>t k. \<not> prefix ''auth/'' k \<longrightarrow> c' t k = c t k) \<and> (timeless c \<longrightarrow> timeless c')"

type_synonym 'db system = "'db host \<times> thread list"

inductive sys_step :: "'db badger \<Rightarrow> ('db \<Rightarrow> contents) \<Rightarrow> 'db system \<Rightarrow> 'db system \<Rightarrow> bool" for B look where
  spawn: "initial t \<Longrightarrow> sys_step B look (w, ts) (w, ts @ [t])"
| run: "i < length ts \<Longrightarrow> thread_step B now inp (ts ! i) w = Some (t, out, w') \<Longrightarrow>
     sys_step B look (w, ts) (w', ts[i := t])"
| stream: "bus_step (bus w) x b \<Longrightarrow> sys_step B look (w, ts) (w\<lparr>bus := b\<rparr>, ts)"
| operator: "only_auth (look (db w)) (look s) \<Longrightarrow> sys_step B look (w, ts) (w\<lparr>db := s\<rparr>, ts)"

text \<open>Runs all of whose states, the last one aside, satisfy a restriction.\<close>

inductive reach :: "'db badger \<Rightarrow> ('db \<Rightarrow> contents) \<Rightarrow> ('db system \<Rightarrow> bool) \<Rightarrow> 'db system \<Rightarrow> 'db system \<Rightarrow> bool"
  for B look P where
  refl: "reach B look P x x"
| step: "reach B look P x y \<Longrightarrow> P y \<Longrightarrow> sys_step B look y z \<Longrightarrow> reach B look P x z"

lemma reach_induct_invariant:
  assumes "reach B look P x y" and "Q x" and "\<And>y z. P y \<Longrightarrow> Q y \<Longrightarrow> sys_step B look y z \<Longrightarrow> Q z"
  shows "Q y"
  using assms by (induction rule: reach.induct) blast+


section \<open>Effects on the registry and on the events about an instance\<close>

text \<open>The retained events about an instance.\<close>

definition mentions :: "contents \<Rightarrow> string \<Rightarrow> (u64 \<times> Event) set" where
  "mentions c iid = {(q, e). c 0 (eventKey q) = Some (Doc (marshal_Event e)) \<and> ResourceID e = iid}"

lemma marshal_Event_inject [simp]: "marshal_Event e = marshal_Event e' \<longleftrightarrow> e = e'"
proof
  assume "marshal_Event e = marshal_Event e'"
  then have "unmarshal_Event (marshal_Event e) = unmarshal_Event (marshal_Event e')" by (rule arg_cong)
  then show "e = e'" by simp
qed simp

text \<open>\<open>keeps_registry\<close>: the registry is as it was, and events are added only about the given instance.\<close>

definition keeps_registry :: "string option \<Rightarrow> contents \<Rightarrow> contents \<Rightarrow> bool" where
  "keeps_registry about c c' \<longleftrightarrow> registry_ok c' \<and> enrolled c' = enrolled c \<and>
     (\<forall>iid. about \<noteq> Some iid \<longrightarrow> mentions c' iid \<subseteq> mentions c iid)"

lemma keeps_registry_refl [simp]: "keeps_registry about c c \<longleftrightarrow> registry_ok c"
  by (simp add: keeps_registry_def)

lemma keeps_registry_weaken: "keeps_registry None c c' \<Longrightarrow> keeps_registry about c c'"
  by (simp add: keeps_registry_def)

lemma keeps_registry_trans:
  assumes "keeps_registry about c d" and "keeps_registry about d e"
  shows "keeps_registry about c e"
  using assms unfolding keeps_registry_def by (metis subset_trans)

lemma instanceKey_eventKey [simp]: "instanceKey iid \<noteq> eventKey q" "eventKey q \<noteq> instanceKey iid"
  "instanceKey iid \<noteq> eventSequenceKey" "instanceKey iid \<noteq> usageTotalKey" "instanceKey iid \<noteq> meterAckKey jid"
  "eventKey q \<noteq> usageTotalKey" "eventKey q \<noteq> meterAckKey iid"
  by (simp_all add: key_defs)

lemma non_auth_keys [simp]:
  "\<not> prefix ''auth/'' (instanceKey iid)" "\<not> prefix ''auth/'' (eventKey q)"
  by (simp_all add: key_defs)

lemma only_auth_keeps:
  assumes "registry_ok c" and "only_auth c c'"
  shows "keeps_registry None c c'"
proof -
  have "enrolled c' = enrolled c" and "\<And>iid. mentions c' iid = mentions c iid"
    using assms(2) by (auto simp: only_auth_def enrolled_def mentions_def fun_eq_iff)
  moreover have "registry_ok c'"
    using assms by (simp add: registry_ok_def only_auth_def)
  ultimately show ?thesis by (simp add: keeps_registry_def)
qed

context serial_badger
begin

lemma AppendEvent_keeps:
  assumes ok: "registry_ok (look s)" and app: "AppendEvent B now e s = (r, s')"
  shows "keeps_registry (Some (ResourceID e)) (look s) (look s')"
proof (cases r)
  case (Inl x)
  with app have "look s' = look s" unfolding AppendEvent_def by (auto dest: Update_same)
  with ok show ?thesis by simp
next
  case (Inr e')
  have t: "timeless (look s)" using ok by (simp add: registry_ok_def)
  note look' = AppendEvent_look [OF app [unfolded Inr] t]
  define q where "q = u64_cell (look s) eventSequenceKey + 1"
  have at: "look s' u k = (if k = eventKey q then Some (Doc (marshal_Event e')) else if k = eventSequenceKey
      then Some (Bytes (PutUint64 q)) else if q > 500 \<and> k = eventKey (q - 500) then None else look s u k)" for u k
    using look'(2) [of u] by (auto simp: q_def [symmetric])
  have inst: "look s' u (instanceKey iid) = look s u (instanceKey iid)" for u iid
    by (simp add: at)
  then have "enrolled (look s') = enrolled (look s)"
    by (simp add: enrolled_def fun_eq_iff)
  moreover have "timeless (look s')"
    unfolding timeless_def
  proof (intro allI impI)
    fix u k assume "\<not> prefix sessionPrefix k"
    then show "look s' u k = look s' 0 k"
      using timelessD [OF t, of k u] unfolding at by presburger
  qed
  then have "registry_ok (look s')"
    using ok inst by (simp add: registry_ok_def)
  moreover have "ResourceID e' = ResourceID e" using look'(1) by simp
  then have "mentions (look s') iid \<subseteq> mentions (look s) iid" if "ResourceID e \<noteq> iid" for iid
    using that by (auto simp: mentions_def at split: if_splits)
  ultimately show ?thesis by (auto simp: keeps_registry_def)
qed

lemma ApplyMeters_keeps:
  assumes ok: "registry_ok (look s)" and app: "ApplyMeters B now iid ds s = (r, s')"
  shows "keeps_registry None (look s) (look s')"
proof (cases r)
  case (Inl e)
  with app have "look s' = look s"
    using guarded_Update_error [of now iid s] rely_same unfolding ApplyMeters_def by metis
  with ok show ?thesis by simp
next
  case (Inr a)
  have t: "timeless (look s)" using ok by (simp add: registry_ok_def)
  with app Inr obtain u where look': "\<And>t. look s' t =
      (look s t)(meterAckKey iid \<mapsto> Bytes (PutUint64 a), usageTotalKey \<mapsto> Doc (marshal_Usage u))"
    by (metis ApplyMeters_ok)
  have "timeless (look s')" by (rule ledger.step_invar [OF t app])
  then have "registry_ok (look s')" using ok by (simp add: registry_ok_def look')
  then show ?thesis
    by (simp add: keeps_registry_def enrolled_def mentions_def look' fun_eq_iff)
qed

lemma publish_keeps:
  assumes ok: "registry_ok (look s)" and b: "bus_ok b"
  obtains s' b' where "publish B now ty rid d (s, b) = Some (s', b')" and "bus_ok b'"
    and "keeps_registry (Some rid) (look s) (look s')"
proof -
  let ?e = "\<lparr>EventID = 0, EventType = ty, ResourceID = rid, At = zero_time, Data = d\<rparr>"
  obtain r s' where app: "AppendEvent B now ?e s = (r, s')" by fastforce
  have keep: "keeps_registry (Some rid) (look s) (look s')"
    using AppendEvent_keeps [OF ok app] by simp
  show ?thesis
  proof (cases r)
    case (Inl x)
    with app b keep show ?thesis by (intro that [of s' b]) (simp_all add: publish_def Publish_def)
  next
    case (Inr e)
    from b obtain b' where "deliver e b = Some b'" "bus_ok b'" by (rule deliver_offers)
    with app Inr keep show ?thesis by (intro that [of s' b']) (simp_all add: publish_def Publish_def)
  qed
qed

text \<open>A guarded event is about an enrolled instance, or there is none.\<close>

lemma publishIfEnrolled_keeps:
  assumes ok: "registry_ok (look s)" and b: "bus_ok b"
  obtains p s' b' where "publishIfEnrolled B now h ty rid d (s, b) = Some (p, s', b')" and "bus_ok b'"
    and "keeps_registry (if p then Some rid else None) (look s) (look s')"
    and "p \<longleftrightarrow> \<not> blocked_count h rid > 0 \<and> enrolled (look s) rid \<noteq> None"
proof (cases "blocked_count h rid > 0 \<or> enrolled (look s) rid = None")
  case True
  with ok b show ?thesis
    by (intro that [of False s b])
      (auto simp: publishIfEnrolled_def IfNotRevoked_def lookup_enrolled [OF ok] split: option.splits)
next
  case False
  obtain s' b' where "publish B now ty rid d (s, b) = Some (s', b')" "bus_ok b'"
    "keeps_registry (Some rid) (look s) (look s')" using ok b by (rule publish_keeps)
  with False show ?thesis
    by (intro that [of True s' b'])
      (auto simp: publishIfEnrolled_def IfNotRevoked_def lookup_enrolled [OF ok] split: option.splits)
qed

lemma UpdateInstance_mentions:
  assumes ok: "registry_ok (look s)" and upd: "UpdateInstance B now iid f s = (r, s')"
  shows "mentions (look s') j = mentions (look s) j"
proof (cases r)
  case (Inl e)
  with upd have "look s' = look s" using UpdateInstance_same by blast
  then show ?thesis by simp
next
  case (Inr i')
  from upd have "Update B StoreBadger s (update_instance_txn B now iid f) = (Inr i', s')"
    unfolding UpdateInstance_def Inr by (rule conflict_as_missing_ok)
  then obtain txn where txn: "update_instance_txn B now iid f s = Inr (i', txn)" and s': "look s' = look txn"
    by (rule Update_ok)
  from ok txn obtain i where "enrolled (look s) iid = Some i" and "f i = Inr i'"
    and "\<And>t. look txn t = (look s t)(instanceKey iid \<mapsto> Doc (marshal_Instance i'))"
    by (rule update_txn_ok) (rule that)
  then show ?thesis by (simp add: mentions_def s')
qed

lemma PutInstance_mentions:
  assumes "PutInstance B i s = (r, s')"
  shows "mentions (look s') j = mentions (look s) j"
proof (cases r)
  case (Inl e)
  with assms have "look s' = look s" unfolding PutInstance_def by (auto dest: Update_same)
  then show ?thesis by simp
next
  case (Inr u)
  with assms obtain txn where "txn_set B s (instanceKey (ID i)) (Doc (marshal_Instance i)) = Inr txn" "look s' = look txn"
    unfolding PutInstance_def by (auto elim!: Update_ok simp: bind_simps)
  then show ?thesis by (simp add: mentions_def set_value)
qed

lemma DeleteInstance_mentions:
  assumes "registry_ok (look s)" and "DeleteInstance B now iid s = (r, s')"
  shows "mentions (look s') j = mentions (look s) j"
proof (cases r)
  case (Inl e)
  with assms(2) have "look s' = look s"
    unfolding DeleteInstance_def by (simp add: delete_attempts_error)
  then show ?thesis by simp
next
  case (Inr i)
  with DeleteInstance_contents [OF assms(1)] assms(2) show ?thesis by (simp add: mentions_def)
qed

end


section \<open>The generations of an instance\<close>

text \<open>
  What the host knows of an agent never runs ahead of what it asked for, and when it is abreast of it
  the digests agree.
\<close>

definition sane :: "Instance \<Rightarrow> bool" where
  "sane i \<longleftrightarrow> AppliedGeneration i \<le> DesiredGeneration i \<and>
     (AppliedGeneration i = DesiredGeneration i \<longrightarrow> 0 < AppliedGeneration i \<longrightarrow> AppliedDigest i = DesiredDigest i)"

text \<open>
  A change of an instance whose desired generation is not the largest number: it keeps the order above,
  the desired generation does not go back, and a generation keeps its digest and specification.
\<close>

definition follows :: "Instance \<Rightarrow> Instance \<Rightarrow> bool" where
  "follows i i' \<longleftrightarrow> (DesiredGeneration i \<noteq> - 1 \<longrightarrow>
     (sane i \<longrightarrow> sane i') \<and> DesiredGeneration i \<le> DesiredGeneration i' \<and>
     (DesiredGeneration i' = DesiredGeneration i \<longrightarrow> DesiredDigest i' = DesiredDigest i \<and> DesiredSpec i' = DesiredSpec i))"

definition followed_by :: "(Instance \<Rightarrow> store_error + Instance) \<Rightarrow> bool" where
  "followed_by f \<longleftrightarrow> (\<forall>i i'. f i = Inr i' \<longrightarrow> follows i i')"

lemma follows_refl [simp]: "follows i i"
  by (simp add: follows_def)

lemma word_less_plus_one: "(x :: u64) \<le> y \<Longrightarrow> y \<noteq> - 1 \<Longrightarrow> x < y + 1"
  using unatSuc [of y] by (auto simp: word_less_nat_alt word_le_nat_alt add.commute [of y] eq_neg_iff_add_eq_0)

lemma desired_update_follows: "followed_by (desired_update canonical digest)"
proof -
  have "follows i (i\<lparr>DesiredGeneration := DesiredGeneration i + 1, DesiredDigest := digest, DesiredSpec := canonical\<rparr>)" for i
  proof (cases "DesiredGeneration i = - 1")
    case False
    then have "DesiredGeneration i < DesiredGeneration i + 1" by (simp add: word_less_plus_one)
    moreover have "AppliedGeneration i < DesiredGeneration i + 1" if "sane i"
      using that False by (intro word_less_plus_one) (simp_all add: sane_def)
    ultimately show ?thesis by (auto simp: follows_def sane_def)
  qed (simp add: follows_def)
  then show ?thesis by (simp add: followed_by_def desired_update_def)
qed

lemma updates_ok:
  "keeps_id (hello_update now hello)" "followed_by (hello_update now hello)"
  "keeps_id (status_update now st)" "followed_by (status_update now st)"
  "keeps_id offline_update" "followed_by offline_update"
  "keeps_id (desired_update canonical digest)" "followed_by (desired_update canonical digest)"
proof -
  show "followed_by (desired_update canonical digest)" by (rule desired_update_follows)
qed (auto simp: keeps_id_def followed_by_def follows_def hello_update_def status_update_def offline_update_def
      desired_update_def sane_def Let_def not_less split: if_splits)

end
