(* ===== verification/PlaneInv.thy ===== *)
theory PlaneInv
  imports Plane
begin

text \<open>
  What one step of a thread does to the database, the hub and the bus, and the invariant of the control
  plane that follows: every goroutine's pointers are good, a deletion holds its revocation, and every
  attached connection belongs to an enrolled instance.
\<close>

section \<open>The database\<close>

text \<open>
  \<open>progress X Y\<close>: nothing is removed from the registry; an instance that is not enrolled stays so,
  those in \<open>X\<close> aside, and gets no event, those in \<open>Y\<close> aside; every instance is as it was, or changed
  as \<open>follows\<close> allows, or new and in order.
\<close>

definition progress :: "string set \<Rightarrow> string set \<Rightarrow> contents \<Rightarrow> contents \<Rightarrow> bool" where
  "progress X Y c c' \<longleftrightarrow> registry_ok c' \<and> dom (enrolled c) \<subseteq> dom (enrolled c') \<and>
     (\<forall>iid. iid \<notin> dom (enrolled c) \<longrightarrow> iid \<notin> X \<longrightarrow> iid \<notin> dom (enrolled c')) \<and>
     (\<forall>iid. iid \<notin> dom (enrolled c) \<longrightarrow> iid \<notin> Y \<longrightarrow> mentions c' iid \<subseteq> mentions c iid) \<and>
     (\<forall>iid i'. enrolled c' iid = Some i' \<longrightarrow> enrolled c iid = Some i' \<or>
        (\<exists>i. enrolled c iid = Some i \<and> follows i i') \<or> iid \<in> X \<and> sane i')"

lemma progress_refl [simp]: "progress X Y c c \<longleftrightarrow> registry_ok c"
  by (auto simp: progress_def)

lemma progress_keeps:
  assumes "progress X Y c d" and "keeps_registry about d e"
    and "\<And>iid. about = Some iid \<Longrightarrow> iid \<in> dom (enrolled c) \<or> iid \<in> Y"
  shows "progress X Y c e"
proof -
  have e: "registry_ok e" "enrolled e = enrolled d" "\<And>iid. about \<noteq> Some iid \<Longrightarrow> mentions e iid \<subseteq> mentions d iid"
    using assms(2) by (auto simp: keeps_registry_def)
  have "mentions e iid \<subseteq> mentions c iid" if "iid \<notin> dom (enrolled c)" "iid \<notin> Y" for iid
  proof -
    have "about \<noteq> Some iid" using assms(3) that by blast
    then show ?thesis using that assms(1) e(3) [of iid] unfolding progress_def by blast
  qed
  then show ?thesis using assms(1) unfolding progress_def e(2) using e(1) by blast
qed

lemma progress_weaken: "progress X Y c d \<Longrightarrow> X \<subseteq> X' \<Longrightarrow> Y \<subseteq> Y' \<Longrightarrow> progress X' Y' c d"
  unfolding progress_def by blast

lemmas keeps_progress = progress_keeps [OF progress_refl [THEN iffD2]]

context serial_badger
begin

lemma UpdateInstance_progress:
  assumes ok: "registry_ok (look s)" and f: "keeps_id f" "followed_by f" and upd: "UpdateInstance B now iid f s = (r, s')"
  shows "progress {} {} (look s) (look s')" and "\<not> isl r \<Longrightarrow> iid \<in> dom (enrolled (look s))"
    and "r = Inr i' \<Longrightarrow> ID i' = iid"
proof -
  have "progress {} {} (look s) (look s') \<and> (\<not> isl r \<longrightarrow> iid \<in> dom (enrolled (look s))) \<and> (r = Inr i' \<longrightarrow> ID i' = iid)"
  proof (cases r)
    case (Inl e)
    with upd UpdateInstance_same have "look s' = look s" by blast
    with ok Inl show ?thesis by simp
  next
    case (Inr j)
    from UpdateInstance_refines [OF ok f(1) upd [unfolded Inr]] obtain i where
      s': "registry_ok (look s')" "enrolled (look s') = (enrolled (look s))(iid \<mapsto> j)"
      and i: "enrolled (look s) iid = Some i" "f i = Inr j" by blast
    have "follows i j" using f(2) i(2) by (simp add: followed_by_def)
    then have "progress {} {} (look s) (look s')"
      using s' i UpdateInstance_mentions [OF ok upd] by (auto simp: progress_def)
    moreover have "ID j = iid" using enrolled_cell(2) [OF s'(1), of iid j] s'(2) by simp
    ultimately show ?thesis using i Inr by auto
  qed
  then show "progress {} {} (look s) (look s')" "\<not> isl r \<Longrightarrow> iid \<in> dom (enrolled (look s))"
    "r = Inr i' \<Longrightarrow> ID i' = iid" by auto
qed

lemma markOffline_progress:
  assumes ok: "registry_ok (look s)" and b: "bus_ok b"
  obtains s' b' where "markOffline B now h iid (s, b) = Some (s', b')" and "bus_ok b'"
    and "progress {} {} (look s) (look s')"
proof (cases "blocked_count h iid > 0")
  case True
  with ok b show ?thesis by (intro that [of s b]) (simp_all add: markOffline_def IfNotRevoked_def)
next
  case False
  obtain r s1 where upd: "UpdateInstance B now iid offline_update s = (r, s1)" by fastforce
  note up = UpdateInstance_progress [OF ok updates_ok(5,6) upd]
  have ok1: "registry_ok (look s1)" using up(1) by (simp add: progress_def)
  show ?thesis
  proof (cases r)
    case (Inl e)
    with False b up(1) upd show ?thesis by (intro that [of s1 b]) (simp_all add: markOffline_def IfNotRevoked_def)
  next
    case (Inr i)
    from ok1 b obtain s2 b2 where pub: "publish B now ''instance.disconnected'' iid [] (s1, b) = Some (s2, b2)" "bus_ok b2"
      "keeps_registry (Some iid) (look s1) (look s2)" by (rule publish_keeps)
    have "progress {} {} (look s) (look s2)"
      using up(1) pub(3) by (rule progress_keeps) (use up(2) Inr in auto)
    with False Inr upd pub show ?thesis by (intro that [of s2 b2]) (simp_all add: markOffline_def IfNotRevoked_def)
  qed
qed

lemma guarded_progress:
  assumes ok: "registry_ok (look s)" and b: "bus_ok b"
  obtains p s' b' where "publishIfEnrolled B now h ty rid d (s, b) = Some (p, s', b')" and "bus_ok b'"
    and "progress {} {} (look s) (look s')"
proof -
  obtain p s' b' where pub: "publishIfEnrolled B now h ty rid d (s, b) = Some (p, s', b')" "bus_ok b'"
    and keep: "keeps_registry (if p then Some rid else None) (look s) (look s')"
    and enr: "p \<longleftrightarrow> \<not> blocked_count h rid > 0 \<and> enrolled (look s) rid \<noteq> None"
    by (rule publishIfEnrolled_keeps [OF ok b, of now h ty rid d]) (rule that)
  have "progress {} {} (look s) (look s')"
    using ok keep by (rule keeps_progress) (use enr in \<open>auto split: if_splits\<close>)
  with pub show ?thesis by (rule that)
qed

lemma publish_progress:
  assumes ok: "registry_ok (look s)" and b: "bus_ok b"
  obtains s' b' where "publish B now ty rid d (s, b) = Some (s', b')" and "bus_ok b'"
    and "progress {} {rid} (look s) (look s')"
proof -
  obtain s' b' where pub: "publish B now ty rid d (s, b) = Some (s', b')" "bus_ok b'"
    and keep: "keeps_registry (Some rid) (look s) (look s')"
    using ok b by (rule publish_keeps)
  have "progress {} {rid} (look s) (look s')"
    using ok keep by (rule keeps_progress) simp
  with pub show ?thesis by (rule that)
qed

lemma status_store_progress:
  assumes ok: "registry_ok (look s)" and st: "status_store B now iid m s = (r, s')"
  shows "progress {} {} (look s) (look s')"
proof (cases "StatusInstanceId m = iid")
  case False
  with ok st show ?thesis by (simp add: status_store_def)
next
  case True
  obtain q s1 where upd: "UpdateInstance B now iid (status_update now m) s = (q, s1)" by fastforce
  with True st have "s' = s1"
    by (auto simp: status_store_def split: sum.splits store_error.splits)
  with UpdateInstance_progress(1) [OF ok updates_ok(3,4) upd] show ?thesis by simp
qed

lemma meters_store_progress:
  assumes ok: "registry_ok (look s)" and st: "meters_store B now iid m s = (r, s')"
  shows "progress {} {} (look s) (look s')"
proof (cases "BatchInstanceId m = iid \<and> \<not> meter_mismatch m")
  case False
  with ok st show ?thesis by (auto simp: meters_store_def split: if_splits)
next
  case True
  obtain q s1 where app: "ApplyMeters B now iid (Deltas m) s = (q, s1)" by fastforce
  with True st have "s' = s1"
    by (auto simp: meters_store_def split: sum.splits store_error.splits)
  moreover have "progress {} {} (look s) (look s1)"
    using ok ApplyMeters_keeps [OF ok app] by (rule keeps_progress) simp
  ultimately show ?thesis by simp
qed

lemma desired_store_progress:
  assumes ok: "registry_ok (look s)" and st: "desired_store B now iid cd s = (r, s')"
  shows "progress {} {} (look s) (look s')"
proof -
  obtain q s1 where upd: "UpdateInstance B now iid (desired_update (fst cd) (snd cd)) s = (q, s1)" by fastforce
  with st have "s' = s1" by (auto simp: desired_store_def split: sum.splits store_error.splits)
  with UpdateInstance_progress(1) [OF ok updates_ok(7,8) upd] show ?thesis by simp
qed

lemma PutInstance_progress:
  assumes ok: "registry_ok (look s)" and i: "sane i" and put: "PutInstance B i s = (r, s')"
  shows "progress {ID i} {} (look s) (look s')"
  using PutInstance_refines [OF ok put] PutInstance_mentions [OF put] i
  by (auto simp: progress_def split: if_splits)

end


section \<open>The hub\<close>

text \<open>
  What a goroutine relies on while others run: its reservation keeps its identifier and does not start
  to wait again, and a revocation, those in \<open>K\<close> aside, is as it was.
\<close>

definition hub_frame :: "nat set \<Rightarrow> Hub \<Rightarrow> Hub \<Rightarrow> bool" where
  "hub_frame K h h' \<longleftrightarrow> length (ress h) \<le> length (ress h') \<and>
     (\<forall>r<length (ress h). res_id (ress h' ! r) = res_id (ress h ! r) \<and> (is_pending h' r \<longrightarrow> is_pending h r)) \<and>
     length (revocations h) \<le> length (revocations h') \<and>
     (\<forall>k<length (revocations h). k \<notin> K \<longrightarrow> revocations h' ! k = revocations h ! k)"

lemma hub_frame_refl [simp]: "hub_frame K h h"
  by (simp add: hub_frame_def)

lemma hub_step_revocations:
  assumes st: "hub_step h e h'" and ok: "hub_ok h"
  shows "length (revocations h) \<le> length (revocations h') \<and>
    (\<forall>k<length (revocations h). e \<noteq> Released k \<longrightarrow> revocations h' ! k = revocations h ! k)"
  using st
proof (cases rule: hub_step.cases)
  case (reserve iid x)
  then show ?thesis by (auto simp: Reserve_def Let_def split: if_splits)
next
  case (activate r b)
  from ok activate(2) show ?thesis by (cases rule: Activate_cases) (use activate in auto)
next
  case (detach r b)
  from ok detach(2) show ?thesis by (cases rule: detach_cases) (use detach in auto)
next
  case (cancel r)
  from ok cancel(2) show ?thesis by (rule Cancel_ok) (use cancel in auto)
next
  case (revoke iid k)
  then show ?thesis using Revoke_effect(4) [OF ok revoke(2)] by (simp add: nth_append)
next
  case (release k)
  then show ?thesis by (auto simp: release_def Let_def split: prod.splits)
next
  case (send iid m d)
  from ok show ?thesis by (cases rule: Send_cases [where iid = iid and message = m]) (use send in auto)
next
  case (take_message a m)
  then show ?thesis by (auto simp: take_message_eq)
qed

lemma hub_step_frame: "hub_step h e h' \<Longrightarrow> hub_ok h \<Longrightarrow> hub_frame {k. e = Released k} h h'"
  using hub_step_moves_on [of h e h'] hub_step_revocations [of h e h']
  by (auto simp: hub_frame_def moves_on_def) (meson le_trans order_refl not_less_zero le0 not_le)+

text \<open>A connection that is attached after a step was attached before, or has just been activated.\<close>

lemma hub_step_attached:
  assumes st: "hub_step h e h'" and ok: "hub_ok h" and c: "connections h' iid = Some a"
  shows "connections h iid = Some a \<or> e = Activated a True \<and> a < length (ress h) \<and> res_id (ress h ! a) = iid"
proof -
  have a: "a < length (ress h')" "res_id (ress h' ! a) = iid"
    using hub_step_ok [OF st ok] c by (auto simp: hub_ok_def attached_ok_def)
  then have at: "attached h' a" using c by (simp add: attached_def)
  then have old: "a < length (ress h)"
    using hub_step_new(1) [OF st ok, of a] a(1) by (meson not_less)
  then have "moves_on e h h' a" using hub_step_moves_on [OF st ok] by blast
  then show ?thesis using at a(2) old by (auto simp: moves_on_def attached_def)
qed


section \<open>The invariant\<close>

definition good_session :: "Hub \<Rightarrow> session \<Rightarrow> bool" where
  "good_session h c \<longleftrightarrow> reservation c < length (ress h) \<and> res_id (ress h ! reservation c) = hello_id c \<and>
     ID (snapshot c) = hello_id c"

text \<open>A goroutine that has updated its instance, and whose reservation waits, has an enrolled instance.\<close>

fun handler_ok :: "Hub \<Rightarrow> (string \<rightharpoonup> Instance) \<Rightarrow> handler \<Rightarrow> bool" where
  "handler_ok h m Accepting = True"
| "handler_ok h m (Reserving hello r) = (r < length (ress h) \<and> res_id (ress h ! r) = HelloInstanceId hello)"
| "handler_ok h m (Refused r err) = (r < length (ress h))"
| "handler_ok h m (Updated c) = (good_session h c \<and> (is_pending h (reservation c) \<longrightarrow> hello_id c \<in> dom m))"
| "handler_ok h m (Attached c) = good_session h c"
| "handler_ok h m (Withdrawing r) = (r < length (ress h))"
| "handler_ok h m (Greeting c) = good_session h c"
| "handler_ok h m (Serving c) = good_session h c"
| "handler_ok h m (StatusStored c i) = good_session h c"
| "handler_ok h m (MetersStored c a) = good_session h c"
| "handler_ok h m (MetersSent c a) = good_session h c"
| "handler_ok h m (Forwarding c x) = good_session h c"
| "handler_ok h m (Leaving c err) = good_session h c"
| "handler_ok h m (GoingOffline iid err) = True"
| "handler_ok h m (Finished err) = True"

fun deleter_ok :: "Hub \<Rightarrow> deleter \<Rightarrow> bool" where
  "deleter_ok h (DeleteRevoked iid k) = (k < length (revocations h) \<and> revocations h ! k = (iid, False))"
| "deleter_ok h (DeleteDone iid k i) = (k < length (revocations h) \<and> revocations h ! k = (iid, False))"
| "deleter_ok h (DeleteRelease k r) = (k < length (revocations h))"
| "deleter_ok h _ = True"

fun enroller_ok :: "enroller \<Rightarrow> bool" where
  "enroller_ok (EnrolStart i) = sane i"
| "enroller_ok _ = True"

fun install_ok :: "Hub \<Rightarrow> installing \<Rightarrow> bool" where
  "install_ok h (InstallReady p) = sane (plan_instance p)"
| "install_ok h (InstallRevoked p e k touched) = (k < length (revocations h) \<and> revocations h ! k = (plan_id p, False))"
| "install_ok h (InstallCleaningAgain p e k) = (k < length (revocations h) \<and> revocations h ! k = (plan_id p, False))"
| "install_ok h (InstallCleaned p e k) = (k < length (revocations h) \<and> revocations h ! k = (plan_id p, False))"
| "install_ok h (InstallDeleting p e k) = (k < length (revocations h) \<and> revocations h ! k = (plan_id p, False))"
| "install_ok h (InstallDeleted p e k) = (k < length (revocations h) \<and> revocations h ! k = (plan_id p, False))"
| "install_ok h (InstallReleasing e k) = (k < length (revocations h))"
| "install_ok h _ = True"

fun thread_ok :: "Hub \<Rightarrow> (string \<rightharpoonup> Instance) \<Rightarrow> thread \<Rightarrow> bool" where
  "thread_ok h m (Connecting k) = handler_ok h m k"
| "thread_ok h m (Deleting d) = deleter_ok h d"
| "thread_ok h m (Setting d) = True"
| "thread_ok h m (Enrolling d) = enroller_ok d"
| "thread_ok h m (Installing d) = install_ok h d"

text \<open>The revocation a thread will release.\<close>

fun holds :: "thread \<Rightarrow> nat option" where
  "holds (Deleting (DeleteRevoked iid k)) = Some k"
| "holds (Deleting (DeleteDone iid k i)) = Some k"
| "holds (Deleting (DeleteRelease k r)) = Some k"
| "holds (Installing (InstallRevoked p e k touched)) = Some k"
| "holds (Installing (InstallCleaningAgain p e k)) = Some k"
| "holds (Installing (InstallCleaned p e k)) = Some k"
| "holds (Installing (InstallDeleting p e k)) = Some k"
| "holds (Installing (InstallDeleted p e k)) = Some k"
| "holds (Installing (InstallReleasing e k)) = Some k"
| "holds _ = None"

definition world_ok :: "('db \<Rightarrow> contents) \<Rightarrow> 'db host \<Rightarrow> bool" where
  "world_ok look w \<longleftrightarrow> hub_ok (hub w) \<and> registry_ok (look (db w)) \<and> bus_ok (bus w) \<and>
     dom (connections (hub w)) \<subseteq> dom (enrolled (look (db w)))"

definition plane_ok :: "('db \<Rightarrow> contents) \<Rightarrow> 'db system \<Rightarrow> bool" where
  "plane_ok look \<sigma> \<longleftrightarrow> (case \<sigma> of (w, ts) \<Rightarrow>
     world_ok look w \<and> (\<forall>t\<in>set ts. thread_ok (hub w) (enrolled (look (db w))) t) \<and>
     (\<forall>i<length ts. \<forall>j<length ts. i \<noteq> j \<longrightarrow> holds (ts ! i) \<noteq> None \<longrightarrow> holds (ts ! i) \<noteq> holds (ts ! j)))"

lemma good_session_frame: "good_session h c \<Longrightarrow> hub_frame K h h' \<Longrightarrow> good_session h' c"
  by (auto simp: good_session_def hub_frame_def)

lemma handler_ok_frame:
  assumes k: "handler_ok h m k" and fr: "hub_frame K h h'"
    and dom: "\<And>iid. iid \<in> dom m \<Longrightarrow> iid \<in> dom m' \<or> pending h' iid = None"
  shows "handler_ok h' m' k"
proof -
  have g: "good_session h' c" if "good_session h c" for c using that fr by (rule good_session_frame)
  have r: "r < length (ress h') \<and> res_id (ress h' ! r) = res_id (ress h ! r)" if "r < length (ress h)" for r
    using that fr by (auto simp: hub_frame_def)
  show ?thesis
  proof (cases k)
    case (Updated c)
    then have c: "good_session h c" using k by simp
    have "hello_id c \<in> dom m'" if p: "is_pending h' (reservation c)"
    proof -
      have "is_pending h (reservation c)" using p fr c by (simp add: hub_frame_def good_session_def)
      then have "hello_id c \<in> dom m" using k Updated by simp
      moreover have "pending h' (hello_id c) \<noteq> None"
        using p g [OF c] by (auto simp: is_pending_def good_session_def split: option.splits)
      ultimately show ?thesis using dom [of "hello_id c"] by auto
    qed
    with g [OF c] Updated show ?thesis by simp
  qed (use k r g in simp_all)
qed

lemma deleter_ok_frame:
  assumes "deleter_ok h d" and "hub_frame K h h'" and "\<And>k. holds (Deleting d) = Some k \<Longrightarrow> k \<notin> K"
  shows "deleter_ok h' d"
  using assms by (cases d) (auto simp: hub_frame_def)

lemma install_ok_frame:
  assumes "install_ok h d" and "hub_frame K h h'" and "\<And>k. holds (Installing d) = Some k \<Longrightarrow> k \<notin> K"
  shows "install_ok h' d"
  using assms by (cases d) (auto simp: hub_frame_def)

lemma thread_ok_frame:
  assumes "thread_ok h m t" and "hub_frame K h h'" and "\<And>k. holds t = Some k \<Longrightarrow> k \<notin> K"
    and "\<And>iid. iid \<in> dom m \<Longrightarrow> iid \<in> dom m' \<or> pending h' iid = None"
  shows "thread_ok h' m' t"
proof (cases t)
  case (Connecting k)
  then show ?thesis using handler_ok_frame [OF _ assms(2,4)] assms(1) by simp
next
  case (Deleting d)
  then show ?thesis using deleter_ok_frame [OF _ assms(2)] assms(1,3) by simp
next
  case (Installing d)
  then show ?thesis using install_ok_frame [OF _ assms(2)] assms(1,3) by simp
qed (use assms(1) in simp_all)

text \<open>What a step that removes no instance establishes.\<close>

definition sound :: "('db \<Rightarrow> contents) \<Rightarrow> string set \<Rightarrow> string set \<Rightarrow> nat set \<Rightarrow> 'db host \<Rightarrow> 'db host \<Rightarrow> bool" where
  "sound look X Y K w w' \<longleftrightarrow> world_ok look w' \<and> progress X Y (look (db w)) (look (db w')) \<and> hub_frame K (hub w) (hub w')"

lemma sound_refl [simp]: "world_ok look w \<Longrightarrow> sound look X Y K w w"
  by (simp add: sound_def world_ok_def)

lemma progressD: "progress X Y c c' \<Longrightarrow> registry_ok c'" "progress X Y c c' \<Longrightarrow> dom (enrolled c) \<subseteq> dom (enrolled c')"
  by (simp_all add: progress_def)

lemma sound_db:
  assumes "world_ok look w" and "progress X Y (look (db w)) (look s)" and "bus_ok b"
  shows "sound look X Y K w (w\<lparr>db := s, bus := b\<rparr>)"
  using assms progressD [OF assms(2)] unfolding sound_def world_ok_def by simp blast

lemma sound_db_only:
  assumes "world_ok look w" and "progress X Y (look (db w)) (look s)"
  shows "sound look X Y K w (w\<lparr>db := s\<rparr>)"
  using assms progressD [OF assms(2)] unfolding sound_def world_ok_def by simp blast

lemma sound_hub:
  assumes w: "world_ok look w" and st: "hub_step (hub w) e h"
    and act: "\<And>r. e = Activated r True \<Longrightarrow> res_id (ress (hub w) ! r) \<in> dom (enrolled (look (db w)))"
  shows "sound look X Y {k. e = Released k} w (w\<lparr>hub := h\<rparr>)"
proof -
  have ok: "hub_ok (hub w)" using w by (simp add: world_ok_def)
  have "iid \<in> dom (enrolled (look (db w)))" if "connections h iid = Some a" for iid a
    using hub_step_attached [OF st ok that] w act by (auto simp: world_ok_def)
  then have "world_ok look (w\<lparr>hub := h\<rparr>)"
    using w hub_step_ok [OF st ok] by (auto simp: world_ok_def)
  moreover have "progress X Y (look (db w)) (look (db (w\<lparr>hub := h\<rparr>)))" using w by (simp add: world_ok_def)
  ultimately show ?thesis using hub_step_frame [OF st ok] by (simp add: sound_def)
qed

end
