(* ===== verification/PlaneSteps.thy ===== *)
theory PlaneSteps
  imports PlaneInv
begin

text \<open>
  Every step of every goroutine returns and keeps the invariant of the control plane: one lemma per
  kind of thread, over the states its code goes through.
\<close>

section \<open>A connection\<close>

lemma good_session_hub:
  assumes "good_session (hub w) c" and "hub_step (hub w) e h" and "world_ok look w"
  shows "good_session h c"
  using good_session_frame [OF assms(1) hub_step_frame [OF assms(2)]] assms(3) by (simp add: world_ok_def)

lemma handler_ok_continue: "handler_ok h m (continue c err) \<longleftrightarrow> good_session h c"
  by (simp add: continue_def split: option.split)

text \<open>The steps that only change the hub.\<close>

lemma accept_sound:
  assumes w: "world_ok look w" and st: "connect_accept first p w = (k', w')"
  shows "sound look {} {} {} w w' \<and> handler_ok (hub w') (enrolled (look (db w'))) k'"
proof -
  show ?thesis
  proof (cases "\<exists>m hello. first = Inr m \<and> GetHello m = Some hello \<and> HelloInstanceId hello \<noteq> [] \<and>
      authorizeInstance p (HelloInstanceId hello) = None")
    case False
    with st have "w' = w \<and> (\<exists>err. k' = Finished err)"
      by (cases first) (auto simp: connect_accept_def split: option.splits if_splits)
    with w show ?thesis by auto
  next
    case True
    then obtain m hello where hello: "first = Inr m" "GetHello m = Some hello" "HelloInstanceId hello \<noteq> []"
      "authorizeInstance p (HelloInstanceId hello) = None" by blast
    obtain x h where res: "Reserve (HelloInstanceId hello) (hub w) = (x, h)" by fastforce
    have w': "w' = w\<lparr>hub := h\<rparr>" and k': "x = Some r \<Longrightarrow> k' = Reserving hello r"
      "x = None \<Longrightarrow> \<exists>err. k' = Finished err" for r
      using st hello res by (auto simp: connect_accept_def split: option.splits)
    have "sound look {} {} {k. Reserved (HelloInstanceId hello) x = Released k} w w'"
      unfolding w' using w hub_step.reserve [OF res] by (rule sound_hub) simp
    moreover have "r < length (ress h) \<and> res_id (ress h ! r) = HelloInstanceId hello" if "x = Some r" for r
      using res that by (auto simp: Reserve_def Let_def split: if_splits)
    ultimately show ?thesis using k' by (cases x) (auto simp: w')
  qed
qed

lemma cancel_sound:
  assumes w: "world_ok look w" and r: "r < length (ress (hub w))"
  obtains w' where "connect_cancel r err w = Some (Finished (Some err), w')" and "sound look {} {} {} w w'"
proof -
  have "hub_ok (hub w)" using w by (simp add: world_ok_def)
  then obtain h where h: "Cancel r (hub w) = Some h" using r by (rule Cancel_ok)
  have "sound look {} {} {k. Canceled r = Released k} w (w\<lparr>hub := h\<rparr>)"
    using w hub_step.cancel [OF r h] by (rule sound_hub) simp
  with h show ?thesis by (intro that [of "w\<lparr>hub := h\<rparr>"]) (simp_all add: connect_cancel_def)
qed

lemma activate_sound:
  assumes w: "world_ok look w" and k: "handler_ok (hub w) (enrolled (look (db w))) (Updated c)"
  obtains k' w' where "connect_activate c w = Some (k', w')" and "sound look {} {} {} w w'"
    and "handler_ok (hub w') (enrolled (look (db w'))) k'"
proof -
  have ok: "hub_ok (hub w)" and c: "good_session (hub w) c" using w k by (simp_all add: world_ok_def)
  then have r: "reservation c < length (ress (hub w))" by (simp add: good_session_def)
  obtain b h where act: "Activate (reservation c) (hub w) = Some (b, h)" and pend: "b \<Longrightarrow> is_pending (hub w) (reservation c)"
    using ok r by (cases rule: Activate_cases) auto
  note st = hub_step.activate [OF r act]
  have "res_id (ress (hub w) ! reservation c) \<in> dom (enrolled (look (db w)))" if b
    using k pend [OF that] c by (simp add: good_session_def)
  then have "sound look {} {} {k. Activated (reservation c) b = Released k} w (w\<lparr>hub := h\<rparr>)"
    using w st by (intro sound_hub) auto
  moreover have "good_session h c" using c st w by (rule good_session_hub)
  ultimately show ?thesis using act
    by (intro that [of "if b then Attached c else Finished (Some (Status Aborted ''instance connection was revoked''))" "w\<lparr>hub := h\<rparr>"])
      (simp_all add: connect_activate_def)
qed

lemma detach_sound:
  assumes w: "world_ok look w" and r: "r < length (ress (hub w))"
  obtains b h where "detach r (hub w) = Some (b, h)" and "sound look {} {} {} w (w\<lparr>hub := h\<rparr>)"
proof -
  have ok: "hub_ok (hub w)" using w by (simp add: world_ok_def)
  obtain b h where det: "detach r (hub w) = Some (b, h)" using ok r by (cases rule: detach_cases) auto
  have "sound look {} {} {k. Detached r b = Released k} w (w\<lparr>hub := h\<rparr>)"
    using w hub_step.detach [OF r det] by (rule sound_hub) simp
  with det show ?thesis by (intro that [of b h]) simp_all
qed

lemma take_sound:
  assumes w: "world_ok look w" and c: "good_session (hub w) c" and tk: "take_message (reservation c) (hub w) = Some (m, h)"
  shows "sound look {} {} {} w (w\<lparr>hub := h\<rparr>) \<and> good_session h c"
proof -
  have st: "hub_step (hub w) (Taken (reservation c) m) h"
    using c tk by (intro hub_step.take_message) (simp_all add: good_session_def)
  have "sound look {} {} {k. Taken (reservation c) m = Released k} w (w\<lparr>hub := h\<rparr>)"
    using w st by (rule sound_hub) simp
  with good_session_hub [OF c st w] show ?thesis by simp
qed

text \<open>The steps that only change the database and the bus.\<close>

context serial_badger
begin

lemma update_sound:
  assumes w: "world_ok look w" and k: "handler_ok (hub w) (enrolled (look (db w))) (Reserving hello r)"
    and st: "connect_update B now hello r w = (k', w')"
  shows "sound look {} {} {} w w' \<and> handler_ok (hub w') (enrolled (look (db w'))) k'"
proof -
  have ok: "registry_ok (look (db w))" using w by (simp add: world_ok_def)
  obtain q s where upd: "UpdateInstance B now (HelloInstanceId hello) (hello_update now hello) (db w) = (q, s)" by fastforce
  note up = UpdateInstance_progress [OF ok updates_ok(1,2) upd]
  have w': "w' = w\<lparr>db := s\<rparr>"
    using st upd by (auto simp: connect_update_def split: sum.splits store_error.splits)
  have "handler_ok (hub w') (enrolled (look (db w'))) k'"
  proof (cases q)
    case (Inl e)
    with st upd k w' show ?thesis by (cases e) (auto simp: connect_update_def)
  next
    case (Inr i)
    with up(2) progressD(2) [OF up(1)] have "HelloInstanceId hello \<in> dom (enrolled (look s))" by auto
    moreover have "k' = Updated \<lparr>hello_id = HelloInstanceId hello, reservation = r, snapshot = i\<rparr>"
      using st upd Inr by (simp add: connect_update_def)
    ultimately show ?thesis using k Inr up(3) by (simp add: good_session_def w')
  qed
  with sound_db_only [OF w up(1)] show ?thesis by (simp add: w')
qed

lemma announce_sound:
  assumes w: "world_ok look w" and c: "good_session (hub w) c"
  obtains k' w' where "connect_announce B now c w = Some (k', w')" and "sound look {} {} {} w w'"
    and "handler_ok (hub w') (enrolled (look (db w'))) k'"
proof -
  have ok: "registry_ok (look (db w))" "bus_ok (bus w)" using w by (simp_all add: world_ok_def)
  obtain p s b where "publishIfEnrolled B now (hub w) ''instance.connected'' (ID (snapshot c))
      [(''name'', JStr (Name (snapshot c)))] (db w, bus w) = Some (p, s, b)" "bus_ok b" "progress {} {} (look (db w)) (look s)"
    using ok by (rule guarded_progress)
  with sound_db [OF w] c show ?thesis
    by (intro that [of "if p then Greeting c else Withdrawing (reservation c)" "w\<lparr>db := s, bus := b\<rparr>"])
      (simp_all add: connect_announce_def good_session_def)
qed

lemma status_event_sound:
  assumes w: "world_ok look w" and c: "good_session (hub w) c"
  obtains k' w' where "connect_status_event B now c i w = Some (k', w')" and "sound look {} {} {} w w'"
    and "handler_ok (hub w') (enrolled (look (db w'))) k'"
proof -
  have ok: "registry_ok (look (db w))" "bus_ok (bus w)" using w by (simp_all add: world_ok_def)
  obtain p s b where "publishIfEnrolled B now (hub w) ''instance.status'' (hello_id c)
      [(''phase'', JStr (Phase i)), (''generation'', JNum (uint (AppliedGeneration i)))] (db w, bus w) = Some (p, s, b)"
    "bus_ok b" "progress {} {} (look (db w)) (look s)"
    using ok by (rule guarded_progress)
  with sound_db [OF w] c show ?thesis
    by (intro that [of "continue c (if p then None else Some not_enrolled)" "w\<lparr>db := s, bus := b\<rparr>"])
      (simp_all add: connect_status_event_def status_publish_def handler_ok_continue)
qed

lemma meters_event_sound:
  assumes w: "world_ok look w" and c: "good_session (hub w) c"
  obtains k' w' where "connect_meters_event B now c a w = Some (k', w')" and "sound look {} {} {} w w'"
    and "handler_ok (hub w') (enrolled (look (db w'))) k'"
proof -
  have ok: "registry_ok (look (db w))" "bus_ok (bus w)" using w by (simp_all add: world_ok_def)
  obtain p s b where "publishIfEnrolled B now (hub w) ''traffic.updated'' (hello_id c)
      [(''sequence'', JNum (uint a))] (db w, bus w) = Some (p, s, b)" "bus_ok b" "progress {} {} (look (db w)) (look s)"
    using ok by (rule guarded_progress)
  with sound_db [OF w] c show ?thesis
    by (intro that [of "continue c (if p then None else Some not_enrolled)" "w\<lparr>db := s, bus := b\<rparr>"])
      (simp_all add: connect_meters_event_def meters_publish_def handler_ok_continue)
qed

lemma offline_sound:
  assumes w: "world_ok look w"
  obtains w' where "connect_offline B now iid err w = Some (Finished err, w')" and "sound look {} {} {} w w'"
proof -
  have ok: "registry_ok (look (db w))" "bus_ok (bus w)" using w by (simp_all add: world_ok_def)
  obtain s b where "markOffline B now (hub w) iid (db w, bus w) = Some (s, b)" "bus_ok b" "progress {} {} (look (db w)) (look s)"
    using ok by (rule markOffline_progress)
  with sound_db [OF w] show ?thesis
    by (intro that [of "w\<lparr>db := s, bus := b\<rparr>"]) (simp_all add: connect_offline_def)
qed

lemma turn_sound:
  assumes w: "world_ok look w" and c: "good_session (hub w) c" and st: "connect_turn_host B now t c w = (k', w')"
  shows "sound look {} {} {} w w' \<and> handler_ok (hub w') (enrolled (look (db w'))) k'"
proof -
  have ok: "registry_ok (look (db w))" using w by (simp add: world_ok_def)
  note def = st [unfolded connect_turn_host_def]
  show ?thesis
  proof (cases "disconnected w c")
    case True
    with def w c show ?thesis by auto
  next
    case open': False
    show ?thesis
    proof (cases t)
      case (TurnRecv mo)
      show ?thesis
      proof (cases mo)
        case (Some x)
        show ?thesis
        proof (cases x)
          case (StatusMessage m)
          obtain r s where ss: "status_store B now (hello_id c) m (db w) = (r, s)" by fastforce
          with sound_db_only [OF w status_store_progress [OF ok ss]] def open' TurnRecv Some StatusMessage c show ?thesis
            by (cases r) auto
        next
          case (MetersMessage m)
          obtain r s where ms: "meters_store B now (hello_id c) m (db w) = (r, s)" by fastforce
          with sound_db_only [OF w meters_store_progress [OF ok ms]] def open' TurnRecv Some MetersMessage c show ?thesis
            by (cases r) auto
        qed (use def open' TurnRecv Some w c in auto)
      qed (use def open' TurnRecv w c in auto)
    next
      case TurnOutbound
      show ?thesis
      proof (cases "take_message (reservation c) (hub w)")
        case None
        with def open' TurnOutbound w c show ?thesis by (auto split: if_splits)
      next
        case (Some mh)
        with take_sound [OF w c, of "fst mh" "snd mh"] def open' TurnOutbound show ?thesis by (cases mh) auto
      qed
    qed (use def open' w c in auto)
  qed
qed

lemma leave_sound:
  assumes w: "world_ok look w" and c: "good_session (hub w) c"
  obtains k' w' where "connect_leave c err w = Some (k', w')" and "sound look {} {} {} w w'"
    and "handler_ok (hub w') (enrolled (look (db w'))) k'"
proof -
  obtain b h where "detach (reservation c) (hub w) = Some (b, h)" "sound look {} {} {} w (w\<lparr>hub := h\<rparr>)"
    using w c by (auto simp: good_session_def elim: detach_sound)
  then show ?thesis
    by (intro that [of "if b then GoingOffline (ID (snapshot c)) err else Finished err" "w\<lparr>hub := h\<rparr>"])
      (simp_all add: connect_leave_def)
qed

lemma withdraw_sound:
  assumes w: "world_ok look w" and r: "r < length (ress (hub w))"
  obtains k' w' where "connect_withdraw r w = Some (k', w')" and "sound look {} {} {} w w'"
    and "handler_ok (hub w') (enrolled (look (db w'))) k'"
proof -
  obtain b h where "detach r (hub w) = Some (b, h)" "sound look {} {} {} w (w\<lparr>hub := h\<rparr>)"
    using w r by (rule detach_sound)
  then show ?thesis
    by (intro that [of "Finished (Some (Status Aborted ''instance connection was revoked''))" "w\<lparr>hub := h\<rparr>"])
      (simp_all add: connect_withdraw_def)
qed

lemma connect_step_sound:
  assumes w: "world_ok look w" and k: "handler_ok (hub w) (enrolled (look (db w))) k"
  shows "\<exists>k' out w'. connect_step B now inp k w = Some (k', out, w') \<and> sound look {} {} {} w w' \<and>
    handler_ok (hub w') (enrolled (look (db w'))) k'"
proof (cases k)
  case Accepting
  with accept_sound [OF w, of "in_first inp" "in_peer inp"] show ?thesis
    by (cases "connect_accept (in_first inp) (in_peer inp) w") (simp add: connect_step_def quiet_def)
next
  case (Reserving hello r)
  with update_sound [OF w k [unfolded Reserving], of now] show ?thesis
    by (cases "connect_update B now hello r w") (simp add: connect_step_def quiet_def)
next
  case (Refused r err)
  with k obtain w' where "connect_cancel r err w = Some (Finished (Some err), w')" "sound look {} {} {} w w'"
    using cancel_sound [OF w] by auto
  with Refused show ?thesis by (simp add: connect_step_def quiet_def)
next
  case (Updated c)
  then show ?thesis
    using activate_sound [OF w k [unfolded Updated]] by (fastforce simp: connect_step_def quiet_def)
next
  case (Attached c)
  with k show ?thesis using announce_sound [OF w, of c now] by (fastforce simp: connect_step_def quiet_def)
next
  case (Withdrawing r)
  with k show ?thesis using withdraw_sound [OF w, of r] by (fastforce simp: connect_step_def quiet_def)
next
  case (Greeting c)
  with k w show ?thesis
    by (simp add: connect_step_def connect_greet_def handler_ok_continue split: prod.splits)
next
  case (Serving c)
  with k turn_sound [OF w, of c now "in_turn inp"] show ?thesis
    by (cases "connect_turn_host B now (in_turn inp) c w") (simp add: connect_step_def quiet_def)
next
  case (StatusStored c i)
  with k show ?thesis using status_event_sound [OF w, of c now i] by (fastforce simp: connect_step_def quiet_def)
next
  case (MetersStored c a)
  with k w show ?thesis by (simp add: connect_step_def connect_ack_def split: option.splits)
next
  case (MetersSent c a)
  with k show ?thesis using meters_event_sound [OF w, of c now a] by (fastforce simp: connect_step_def quiet_def)
next
  case (Forwarding c m)
  with k w show ?thesis by (simp add: connect_step_def connect_forward_def handler_ok_continue split: prod.splits)
next
  case (Leaving c err)
  with k show ?thesis using leave_sound [OF w, of c err] by (fastforce simp: connect_step_def quiet_def)
next
  case (GoingOffline iid err)
  obtain w' where "connect_offline B now iid err w = Some (Finished err, w')" "sound look {} {} {} w w'"
    using w by (rule offline_sound)
  with GoingOffline show ?thesis by (simp add: connect_step_def quiet_def)
next
  case (Finished err)
  with w show ?thesis by (simp add: connect_step_def)
qed


section \<open>The handlers of the API\<close>

lemma set_step_sound:
  assumes w: "world_ok look w"
  shows "\<exists>d' w'. set_step B now d w = Some (d', w') \<and> sound look {} {} {} w w'"
proof -
  have ok: "hub_ok (hub w)" "registry_ok (look (db w))" "bus_ok (bus w)" using w by (simp_all add: world_ok_def)
  show ?thesis
  proof (cases d)
    case (SetStart iid cd)
    obtain r s where ds: "desired_store B now iid cd (db w) = (r, s)" by fastforce
    with sound_db_only [OF w desired_store_progress [OF ok(2) ds]] SetStart show ?thesis
      by (cases r) (auto simp: set_step_def)
  next
    case (SetStored i)
    obtain b h where send: "Send (ID i) (desiredMessage i) (hub w) = Some (b, h)"
      using ok(1) by (cases rule: Send_cases [where iid = "ID i" and message = "desiredMessage i"]) auto
    have "sound look {} {} {k. SentTo (ID i) (desiredMessage i) (if b then connections (hub w) (ID i) else None) = Released k}
        w (w\<lparr>hub := h\<rparr>)"
      using w hub_step.send [OF send] by (rule sound_hub) simp
    with SetStored send show ?thesis by (simp add: set_step_def)
  next
    case (SetSent i delivered)
    obtain p s b where "desired_event B now (hub w) i delivered (db w, bus w) = Some (p, s, b)" "bus_ok b"
      "progress {} {} (look (db w)) (look s)"
      unfolding desired_event_def using ok(2,3) by (rule guarded_progress)
    with SetSent sound_db [OF w] show ?thesis by (simp add: set_step_def)
  next
    case (SetFinished r)
    with w show ?thesis by (simp add: set_step_def)
  qed
qed

end

text \<open>The instance a thread may enrol.\<close>

fun enrols :: "thread \<Rightarrow> string set" where
  "enrols (Enrolling (EnrolStart i)) = {ID i}"
| "enrols (Installing (InstallReady p)) = {plan_id p}"
| "enrols _ = {}"

text \<open>
  The instance a thread may publish events about without asking whether it is enrolled: one that it
  enrols or installs, or has removed and not announced.
\<close>

fun speaks :: "thread \<Rightarrow> string set" where
  "speaks (Deleting (DeleteDone iid k i)) = {iid}"
| "speaks (Enrolling (EnrolStart i)) = {ID i}"
| "speaks (Enrolling (EnrolStored i)) = {ID i}"
| "speaks (Installing d) = (case d of
       InstallReady p \<Rightarrow> {plan_id p} | InstallEnrolled p \<Rightarrow> {plan_id p} | InstallStarting p \<Rightarrow> {plan_id p}
     | InstallPackages p \<Rightarrow> {plan_id p} | InstallRemote p cs \<Rightarrow> {plan_id p} | InstallWaiting p \<Rightarrow> {plan_id p}
     | InstallOnline p \<Rightarrow> {plan_id p} | InstallFailing p e touched \<Rightarrow> {plan_id p} | InstallRevoked p e k touched \<Rightarrow> {plan_id p}
     | InstallCleaningAgain p e k \<Rightarrow> {plan_id p} | InstallCleaned p e k \<Rightarrow> {plan_id p} | InstallDeleting p e k \<Rightarrow> {plan_id p} | InstallDeleted p e k \<Rightarrow> {plan_id p}
     | _ \<Rightarrow> {})"
| "speaks _ = {}"

text \<open>The one step that removes an instance.\<close>

definition removes :: "string \<Rightarrow> contents \<Rightarrow> contents \<Rightarrow> bool" where
  "removes iid c c' \<longleftrightarrow> registry_ok c' \<and> enrolled c iid \<noteq> None \<and> enrolled c' = (enrolled c)(iid := None) \<and>
     (\<forall>j. mentions c' j = mentions c j)"

text \<open>While a deletion holds its revocation the instance has no connection and no reservation.\<close>

lemma revocation_blocks:
  assumes ok: "hub_ok h" and k: "k < length (revocations h)" "revocations h ! k = (iid, False)"
  shows "connections h iid = None \<and> pending h iid = None"
proof -
  have "(iid, False) \<in> set (revocations h)" using k nth_mem by metis
  then have "(iid, False) \<in> set (filter (\<lambda>(i, once). i = iid \<and> \<not> once) (revocations h))" by simp
  then have "0 < active_revocations h iid"
    unfolding active_revocations_def by (rule length_pos_if_in_set)
  then show ?thesis using ok by (auto simp: hub_ok_def revoked_ok_def)
qed

context serial_badger
begin

lemma enrol_step_sound:
  assumes w: "world_ok look w" and d: "enroller_ok d"
  shows "\<exists>d' w'. enrol_step B now d w = Some (d', w') \<and> sound look (enrols (Enrolling d)) (speaks (Enrolling d)) {} w w' \<and> enroller_ok d' \<and>
    enrols (Enrolling d') = {} \<and> speaks (Enrolling d') \<subseteq> speaks (Enrolling d)"
proof -
  have ok: "registry_ok (look (db w))" "bus_ok (bus w)" using w by (simp_all add: world_ok_def)
  show ?thesis
  proof (cases d)
    case (EnrolStart i)
    obtain r s where put: "PutInstance B i (db w) = (r, s)" by fastforce
    have "progress {ID i} {ID i} (look (db w)) (look s)"
      using PutInstance_progress [OF ok(1) _ put] EnrolStart d by (auto intro: progress_weaken)
    with sound_db_only [OF w this] put EnrolStart d show ?thesis by (cases r) (auto simp: enrol_step_def)
  next
    case (EnrolStored i)
    obtain s b where "publish B now ''instance.enrolled'' (ID i) [(''name'', JStr (Name i))] (db w, bus w) = Some (s, b)"
      "bus_ok b" "progress {} {ID i} (look (db w)) (look s)" using ok by (rule publish_progress)
    with EnrolStored sound_db [OF w] show ?thesis by (simp add: enrol_step_def)
  next
    case (EnrolFinished b)
    with w show ?thesis by (simp add: enrol_step_def)
  qed
qed

text \<open>A deletion by a thread that holds a revocation of the instance.\<close>

lemma deletion_effect:
  assumes w: "world_ok look w" and k: "k < length (revocations (hub w))" "revocations (hub w) ! k = (iid, False)"
    and del: "DeleteInstance B now iid (db w) = (r, s)"
  shows "r = Inl e \<Longrightarrow> sound look {} {} {} w (w\<lparr>db := s\<rparr>)"
    and "r = Inr i \<Longrightarrow> removes iid (look (db w)) (look s) \<and> world_ok look (w\<lparr>db := s\<rparr>)"
proof -
  have ok: "hub_ok (hub w)" "registry_ok (look (db w))" using w by (simp_all add: world_ok_def)
  show "sound look {} {} {} w (w\<lparr>db := s\<rparr>)" if "r = Inl e"
  proof -
    have "look s = look (db w)" using that del delete_attempts_error unfolding DeleteInstance_def by blast
    then have "progress {} {} (look (db w)) (look s)" using ok by simp
    with w show ?thesis by (rule sound_db_only)
  qed
  show "removes iid (look (db w)) (look s) \<and> world_ok look (w\<lparr>db := s\<rparr>)" if "r = Inr i"
  proof -
    note ref = DeleteInstance_refines [OF ok(2) del [unfolded that]]
    have "removes iid (look (db w)) (look s)"
      using ref DeleteInstance_mentions [OF ok(2) del] by (simp add: removes_def)
    moreover have "connections (hub w) iid = None" using revocation_blocks [OF ok(1) k] by simp
    then have "world_ok look (w\<lparr>db := s\<rparr>)" using w ref by (auto simp: world_ok_def)
    ultimately show ?thesis by blast
  qed
qed

lemma delete_removes:
  assumes w: "world_ok look w" and d: "deleter_ok (hub w) (DeleteRevoked iid k)"
  obtains (failed) r s where "delete_step B now (DeleteRevoked iid k) w = Some (DeleteRelease k r, w\<lparr>db := s\<rparr>)"
      and "sound look {} {} {} w (w\<lparr>db := s\<rparr>)"
    | (removed) i s where "delete_step B now (DeleteRevoked iid k) w = Some (DeleteDone iid k i, w\<lparr>db := s\<rparr>)"
      and "removes iid (look (db w)) (look s)" and "world_ok look (w\<lparr>db := s\<rparr>)"
proof -
  obtain r s where del: "DeleteInstance B now iid (db w) = (r, s)" by fastforce
  note eff = deletion_effect [OF w _ _ del, of k]
  show ?thesis
  proof (cases r)
    case (Inl e)
    with eff(1) d del show ?thesis by (intro failed) (simp_all add: delete_step_def)
  next
    case (Inr i)
    then have "removes iid (look (db w)) (look s)" "world_ok look (w\<lparr>db := s\<rparr>)" using eff(2) d by auto
    with Inr del show ?thesis by (intro removed) (simp_all add: delete_step_def)
  qed
qed

lemma delete_step_sound:
  assumes w: "world_ok look w" and d: "deleter_ok (hub w) d"
    and other: "\<And>iid k. d \<noteq> DeleteRevoked iid k"
  shows "\<exists>d' w'. delete_step B now d w = Some (d', w') \<and>
    sound look {} (speaks (Deleting d)) {k. \<exists>r. d = DeleteRelease k r} w w' \<and> deleter_ok (hub w') d' \<and>
    (holds (Deleting d') = holds (Deleting d) \<or> holds (Deleting d') = None \<or> holds (Deleting d') = Some (length (revocations (hub w)))) \<and>
    speaks (Deleting d') = {}"
proof -
  have ok: "hub_ok (hub w)" "registry_ok (look (db w))" "bus_ok (bus w)" using w by (simp_all add: world_ok_def)
  show ?thesis
  proof (cases d)
    case (DeleteStart iid)
    obtain h where rev: "Revoke iid (hub w) = Some (length (revocations (hub w)), h)"
      using ok(1) by (rule Revoke_ok)
    have "sound look {} {} {k. Revoked iid (length (revocations (hub w))) = Released k} w (w\<lparr>hub := h\<rparr>)"
      using w hub_step.revoke [OF rev] by (rule sound_hub) simp
    with rev Revoke_effect(4) [OF ok(1) rev] DeleteStart show ?thesis by (simp add: delete_step_def)
  next
    case (DeleteRevoked iid k)
    with other show ?thesis by blast
  next
    case (DeleteDone iid k i)
    obtain s b where "publish B now ''instance.deleted'' iid [(''name'', JStr (Name i))] (db w, bus w) = Some (s, b)"
      "bus_ok b" "progress {} {iid} (look (db w)) (look s)" using ok(2,3) by (rule publish_progress)
    with DeleteDone sound_db [OF w] d show ?thesis by (simp add: delete_step_def)
  next
    case (DeleteRelease k r)
    have "sound look {} {} {q. Released k = Released q} w (w\<lparr>hub := release k (hub w)\<rparr>)"
      using w hub_step.release by (rule sound_hub) (use d DeleteRelease in simp_all)
    then have "sound look {} {} {q. q = k} w (w\<lparr>hub := release k (hub w)\<rparr>)" by (simp add: eq_commute)
    with DeleteRelease show ?thesis by (simp add: delete_step_def eq_commute)
  next
    case (DeleteFinished r)
    with w show ?thesis by (simp add: delete_step_def)
  qed
qed

lemma install_publish_sound:
  assumes w: "world_ok look w"
  obtains w' where "install_publish B now ty p extra st w = Some (st, w')" and "sound look {} {plan_id p} {} w w'" and "hub w' = hub w"
proof -
  have ok: "registry_ok (look (db w))" "bus_ok (bus w)" using w by (simp_all add: world_ok_def)
  obtain s b where pub: "publish B now ty (plan_id p) ((''name'', JStr (plan_name p)) # extra) (db w, bus w) = Some (s, b)"
    "bus_ok b" "progress {} {plan_id p} (look (db w)) (look s)" using ok by (rule publish_progress)
  have "sound look {} {plan_id p} {} w (w\<lparr>db := s, bus := b\<rparr>)" using w pub(3,2) by (rule sound_db)
  with pub show ?thesis by (intro that [of "w\<lparr>db := s, bus := b\<rparr>"]) (simp_all add: install_publish_def)
qed

text \<open>What a step of an installation, the deletion aside, establishes.\<close>

definition install_sound :: "'a host \<Rightarrow> installing \<Rightarrow> installing \<Rightarrow> 'a host \<Rightarrow> bool" where
  "install_sound w d d' w' \<longleftrightarrow>
     sound look (enrols (Installing d)) (speaks (Installing d)) {k. \<exists>e. d = InstallReleasing e k} w w' \<and> install_ok (hub w') d' \<and>
     (holds (Installing d') = holds (Installing d) \<or> holds (Installing d') = None \<or>
      holds (Installing d') = Some (length (revocations (hub w)))) \<and>
     enrols (Installing d') = {} \<and> speaks (Installing d') \<subseteq> speaks (Installing d)"

lemma install_succeed_sound:
  assumes w: "world_ok look w"
  shows "\<exists>d' w'. install_succeed B now inp p w = Some (d', w') \<and> install_sound w (InstallOnline p) d' w'"
proof -
  have "\<exists>d' w'. (case lookup_instance B now (plan_id p) (db w) of
        Inl e \<Rightarrow> Some (InstallFailing p ErrInstall True, w)
      | Inr i \<Rightarrow> install_publish B now ''instance.ssh_install.succeeded'' p [] (InstallFinished (Inr i)) w) = Some (d', w') \<and>
      install_sound w (InstallOnline p) d' w'"
  proof (cases "lookup_instance B now (plan_id p) (db w)")
    case (Inr i)
    obtain w' where "install_publish B now ''instance.ssh_install.succeeded'' p [] (InstallFinished (Inr i)) w = Some (InstallFinished (Inr i), w')"
      "sound look {} {plan_id p} {} w w'" using w by (rule install_publish_sound)
    with Inr show ?thesis by (simp add: install_sound_def)
  qed (use w in \<open>simp add: install_sound_def\<close>)
  then show ?thesis using w
    by (auto simp: install_succeed_def IfOnline_def install_sound_def split: option.splits)
qed

lemma install_step_sound:
  assumes w: "world_ok look w" and d: "install_ok (hub w) d" and other: "\<And>p e k. d \<noteq> InstallDeleting p e k"
  shows "\<exists>d' w'. install_step B now inp d w = Some (d', w') \<and> install_sound w d d' w'"
proof -
  have ok: "hub_ok (hub w)" "registry_ok (look (db w))" using w by (simp_all add: world_ok_def)
  note pub = install_publish_sound [OF w, of now]
  show ?thesis
  proof (cases d)
    case (InstallReady p)
    obtain r s where put: "PutInstance B (plan_instance p) (db w) = (r, s)" by fastforce
    have "progress {plan_id p} {plan_id p} (look (db w)) (look s)"
      using PutInstance_progress [OF ok(2) _ put] InstallReady d by (auto simp: plan_id_def intro: progress_weaken)
    with sound_db_only [OF w this] put InstallReady show ?thesis
      by (cases r) (auto simp: install_step_def install_sound_def)
  next
    case (InstallEnrolled p)
    obtain w' where "install_publish B now ''instance.enrolled'' p [(''method'', JStr ''ssh'')] (InstallStarting p) w = Some (InstallStarting p, w')"
      "sound look {} {plan_id p} {} w w'" by (rule pub)
    with InstallEnrolled show ?thesis by (simp add: install_step_def install_sound_def)
  next
    case (InstallStarting p)
    obtain w' where "install_publish B now ''instance.ssh_install.started'' p [] (InstallPackages p) w = Some (InstallPackages p, w')"
      "sound look {} {plan_id p} {} w w'" by (rule pub)
    with InstallStarting show ?thesis by (simp add: install_step_def install_sound_def)
  next
    case (InstallRemote p cs)
    then show ?thesis using w by (cases "(p, cs)" rule: prod.exhaust; cases cs; cases "hd cs") (auto simp: install_step_def install_sound_def)
  next
    case (InstallOnline p)
    with install_succeed_sound [OF w, of now inp p] show ?thesis by (simp add: install_step_def)
  next
    case (InstallFailing p e touched)
    obtain h where rev: "Revoke (plan_id p) (hub w) = Some (length (revocations (hub w)), h)" using ok(1) by (rule Revoke_ok)
    have "sound look {} {} {k. Revoked (plan_id p) (length (revocations (hub w))) = Released k} w (w\<lparr>hub := h\<rparr>)"
      using w hub_step.revoke [OF rev] by (rule sound_hub) simp
    then have "sound look {} {plan_id p} {} w (w\<lparr>hub := h\<rparr>)" by (auto simp: sound_def intro: progress_weaken)
    with rev Revoke_effect(4) [OF ok(1) rev] InstallFailing show ?thesis by (simp add: install_step_def install_sound_def)
  next
    case (InstallCleaned p e k)
    obtain w' where "install_publish B now ''instance.ssh_install.failed'' p [] (InstallDeleting p e k) w = Some (InstallDeleting p e k, w')"
      "sound look {} {plan_id p} {} w w'" "hub w' = hub w" by (rule pub)
    with InstallCleaned d show ?thesis by (simp add: install_step_def install_sound_def)
  next
    case (InstallDeleted p e k)
    obtain w' where "install_publish B now ''instance.deleted'' p [(''rollback'', JBool True)] (InstallReleasing e k) w = Some (InstallReleasing e k, w')"
      "sound look {} {plan_id p} {} w w'" "hub w' = hub w" by (rule pub)
    with InstallDeleted d show ?thesis by (simp add: install_step_def install_sound_def)
  next
    case (InstallReleasing e k)
    have "sound look {} {} {q. Released k = Released q} w (w\<lparr>hub := release k (hub w)\<rparr>)"
      using w hub_step.release by (rule sound_hub) (use d InstallReleasing in simp_all)
    then have "sound look {} {} {q. q = k} w (w\<lparr>hub := release k (hub w)\<rparr>)" by (simp add: eq_commute)
    with InstallReleasing show ?thesis by (simp add: install_step_def install_sound_def eq_commute)
  qed (use w d other in \<open>auto simp: install_step_def install_sound_def waitOnline_def\<close>)
qed

lemma install_removes:
  assumes w: "world_ok look w" and d: "install_ok (hub w) (InstallDeleting p e k)"
  obtains (failed) s where "install_step B now inp (InstallDeleting p e k) w = Some (InstallReleasing e k, w\<lparr>db := s\<rparr>)"
      and "sound look {} {} {} w (w\<lparr>db := s\<rparr>)"
    | (removed) s where "install_step B now inp (InstallDeleting p e k) w = Some (InstallDeleted p e k, w\<lparr>db := s\<rparr>)"
      and "removes (plan_id p) (look (db w)) (look s)" and "world_ok look (w\<lparr>db := s\<rparr>)"
proof -
  obtain r s where del: "DeleteInstance B now (plan_id p) (db w) = (r, s)" by fastforce
  note eff = deletion_effect [OF w _ _ del, of k]
  show ?thesis
  proof (cases r)
    case (Inl x)
    with eff(1) d del show ?thesis by (intro failed) (simp_all add: install_step_def)
  next
    case (Inr i)
    then have "removes (plan_id p) (look (db w)) (look s)" "world_ok look (w\<lparr>db := s\<rparr>)" using eff(2) d by auto
    with Inr del show ?thesis by (intro removed) (simp_all add: install_step_def)
  qed
qed

end

end
