(* ===== verification/PlaneRuns.thy ===== *)
theory PlaneRuns
  imports PlaneSteps
begin

text \<open>
  Runs of the control plane: the invariant holds along every run, no goroutine ever panics, a connection
  is attached only to an enrolled instance, nothing is heard of a deleted instance, and the generations
  the host records stay in order.
\<close>

section \<open>A step of a thread\<close>

definition releases :: "thread \<Rightarrow> nat set" where
  "releases t = {k. (\<exists>r. t = Deleting (DeleteRelease k r)) \<or> (\<exists>e. t = Installing (InstallReleasing e k))}"

lemma releases_holds: "k \<in> releases t \<Longrightarrow> holds t = Some k"
  by (auto simp: releases_def)

context serial_badger
begin

definition thread_done :: "'a host \<Rightarrow> thread \<Rightarrow> 'a host \<Rightarrow> thread \<Rightarrow> bool" where
  "thread_done w t w' t' \<longleftrightarrow> world_ok look w' \<and> thread_ok (hub w') (enrolled (look (db w'))) t' \<and>
     hub_frame (releases t) (hub w) (hub w') \<and>
     (holds t' = holds t \<or> holds t' = None \<or> holds t' = Some (length (revocations (hub w)))) \<and> enrols t' \<subseteq> enrols t \<and>
     (progress (enrols t) (speaks t) (look (db w)) (look (db w')) \<and> speaks t' \<subseteq> speaks t \<or>
      (\<exists>iid k. k < length (revocations (hub w)) \<and> revocations (hub w) ! k = (iid, False) \<and>
         removes iid (look (db w)) (look (db w')) \<and> hub w' = hub w \<and> speaks t' \<subseteq> {iid}))"

lemma thread_step_done:
  assumes w: "world_ok look w" and t: "thread_ok (hub w) (enrolled (look (db w))) t"
  shows "\<exists>t' out w'. thread_step B now inp t w = Some (t', out, w') \<and> thread_done w t w' t'"
proof (cases t)
  case (Connecting k)
  with connect_step_sound [OF w, of k now "in_connect inp"] t obtain k' out w' where
    "connect_step B now (in_connect inp) k w = Some (k', out, w')" "sound look {} {} {} w w'"
    "handler_ok (hub w') (enrolled (look (db w'))) k'" by auto
  with Connecting show ?thesis by (simp add: thread_step_def thread_done_def sound_def releases_def)
next
  case (Deleting d)
  show ?thesis
  proof (cases "\<exists>iid k. d = DeleteRevoked iid k")
    case True
    then obtain iid k where d: "d = DeleteRevoked iid k" by blast
    have "deleter_ok (hub w) (DeleteRevoked iid k)" using t Deleting d by simp
    with w show ?thesis
    proof (cases rule: delete_removes [where now = now])
      case (failed r s)
      with Deleting d t show ?thesis by (simp add: thread_step_def thread_done_def sound_def releases_def)
    next
      case (removed i s)
      with Deleting d t show ?thesis by (auto simp: thread_step_def thread_done_def releases_def)
    qed
  next
    case False
    with delete_step_sound [OF w, of d now] t Deleting obtain d' w' where
      "delete_step B now d w = Some (d', w')" "sound look {} (speaks (Deleting d)) {k. \<exists>r. d = DeleteRelease k r} w w'"
      "deleter_ok (hub w') d'"
      "holds (Deleting d') = holds (Deleting d) \<or> holds (Deleting d') = None \<or> holds (Deleting d') = Some (length (revocations (hub w)))"
      "speaks (Deleting d') = {}" by auto
    with Deleting show ?thesis by (simp add: thread_step_def thread_done_def sound_def releases_def)
  qed
next
  case (Setting d)
  from set_step_sound [OF w, of now d] obtain d' w' where "set_step B now d w = Some (d', w')" "sound look {} {} {} w w'"
    by blast
  with Setting show ?thesis by (simp add: thread_step_def thread_done_def sound_def releases_def)
next
  case (Enrolling d)
  with t enrol_step_sound [OF w, of d now] obtain d' w' where "enrol_step B now d w = Some (d', w')"
    "sound look (enrols (Enrolling d)) (speaks (Enrolling d)) {} w w'" "enroller_ok d'"
    "enrols (Enrolling d') = {}" "speaks (Enrolling d') \<subseteq> speaks (Enrolling d)" by auto
  with Enrolling show ?thesis by (simp add: thread_step_def thread_done_def sound_def releases_def)
next
  case (Installing d)
  then have d: "install_ok (hub w) d" using t by simp
  show ?thesis
  proof (cases "\<exists>p e k. d = InstallDeleting p e k")
    case True
    then obtain p e k where del: "d = InstallDeleting p e k" by blast
    from w d [unfolded del] show ?thesis
    proof (cases rule: install_removes [where now = now and inp = "in_remote inp"])
      case (failed s)
      with Installing del d show ?thesis by (auto simp: thread_step_def thread_done_def sound_def releases_def intro: progress_weaken)
    next
      case (removed s)
      with Installing del d show ?thesis by (auto simp: thread_step_def thread_done_def releases_def)
    qed
  next
    case False
    with install_step_sound [OF w d, of now "in_remote inp"] obtain d' w' where
      "install_step B now (in_remote inp) d w = Some (d', w')" "install_sound w d d' w'" by blast
    with Installing show ?thesis by (auto simp: thread_step_def thread_done_def install_sound_def sound_def releases_def)
  qed
qed

end


section \<open>The desired state moves on\<close>

text \<open>A later desired state: of a later generation, or the same one.\<close>

definition ahead :: "Instance \<Rightarrow> Instance \<Rightarrow> bool" where
  "ahead i i' \<longleftrightarrow> DesiredGeneration i \<le> DesiredGeneration i' \<and>
     (DesiredGeneration i' = DesiredGeneration i \<longrightarrow> DesiredDigest i' = DesiredDigest i \<and> DesiredSpec i' = DesiredSpec i)"

lemma ahead_refl [simp]: "ahead i i"
  by (simp add: ahead_def)

lemma ahead_trans: "ahead i j \<Longrightarrow> ahead j k \<Longrightarrow> ahead i k"
  unfolding ahead_def by (metis antisym order_trans)

lemma follows_ahead: "follows i i' \<Longrightarrow> DesiredGeneration i \<noteq> - 1 \<Longrightarrow> ahead i i'"
  by (simp add: follows_def ahead_def)


section \<open>The invariant along runs\<close>

lemma plane_okD:
  assumes "plane_ok look (w, ts)"
  shows "world_ok look w" and "t \<in> set ts \<Longrightarrow> thread_ok (hub w) (enrolled (look (db w))) t"
    and "i < length ts \<Longrightarrow> j < length ts \<Longrightarrow> i \<noteq> j \<Longrightarrow> holds (ts ! i) = Some k \<Longrightarrow> holds (ts ! j) \<noteq> Some k"
proof -
  show "world_ok look w" "t \<in> set ts \<Longrightarrow> thread_ok (hub w) (enrolled (look (db w))) t"
    using assms by (simp_all add: plane_ok_def)
  have "holds (ts ! i) \<noteq> None \<longrightarrow> holds (ts ! i) \<noteq> holds (ts ! j)" if "i < length ts" "j < length ts" "i \<noteq> j"
    using assms that by (simp add: plane_ok_def)
  then show "i < length ts \<Longrightarrow> j < length ts \<Longrightarrow> i \<noteq> j \<Longrightarrow> holds (ts ! i) = Some k \<Longrightarrow> holds (ts ! j) \<noteq> Some k"
    by fastforce
qed

lemma thread_ok_holds: "thread_ok h m t \<Longrightarrow> holds t = Some k \<Longrightarrow> k < length (revocations h)"
  by (cases "(h, m, t)" rule: thread_ok.cases) (auto elim: deleter_ok.elims install_ok.elims)

text \<open>A change of the world every thread can live with.\<close>

lemma plane_ok_frame:
  assumes ok: "plane_ok look (w, ts)" and w': "world_ok look w'" and fr: "hub_frame {} (hub w) (hub w')"
    and dom: "dom (enrolled (look (db w))) \<subseteq> dom (enrolled (look (db w')))"
  shows "plane_ok look (w', ts)"
proof -
  have "thread_ok (hub w') (enrolled (look (db w'))) t" if "t \<in> set ts" for t
    using plane_okD(2) [OF ok that] fr by (rule thread_ok_frame) (use dom in auto)
  then show ?thesis using ok w' by (simp add: plane_ok_def)
qed

lemma initial_ok: "initial t \<Longrightarrow> thread_ok h m t \<and> holds t = None \<and> speaks t = enrols t"
  by (cases t rule: initial.cases)
    (auto simp: new_instance_def zero_Instance_def sane_def dest: arg_cong [where f = AppliedGeneration] arg_cong [where f = DesiredGeneration])

context serial_badger
begin

lemma plane_ok_run:
  assumes ok: "plane_ok look (w, ts)" and i: "i < length ts" and t: "thread_done w (ts ! i) w' t'"
  shows "plane_ok look (w', ts[i := t'])"
proof -
  note t' = t [unfolded thread_done_def]
  have hubok: "hub_ok (hub w)" using plane_okD(1) [OF ok] by (simp add: world_ok_def)
  have keep: "iid \<in> dom (enrolled (look (db w'))) \<or> pending (hub w') iid = None"
    if "iid \<in> dom (enrolled (look (db w)))" for iid
  proof -
    from t' consider (progress) "progress (enrols (ts ! i)) (speaks (ts ! i)) (look (db w)) (look (db w'))"
      | (removes) jid k where "k < length (revocations (hub w))" "revocations (hub w) ! k = (jid, False)"
          "hub w' = hub w" "removes jid (look (db w)) (look (db w'))"
      by blast
    then show ?thesis
    proof cases
      case progress
      with that progressD(2) show ?thesis by blast
    next
      case (removes jid k)
      then have "pending (hub w') jid = None" using revocation_blocks [OF hubok, of k jid] by simp
      with that removes show ?thesis by (auto simp: removes_def)
    qed
  qed
  have others: "thread_ok (hub w') (enrolled (look (db w'))) (ts ! j)" if j: "j < length ts" "j \<noteq> i" for j
  proof (rule thread_ok_frame)
    show "thread_ok (hub w) (enrolled (look (db w))) (ts ! j)" using j by (intro plane_okD(2) [OF ok]) simp
    show "hub_frame (releases (ts ! i)) (hub w) (hub w')" using t' by blast
    show "k \<notin> releases (ts ! i)" if "holds (ts ! j) = Some k" for k
      using plane_okD(3) [OF ok j(1) i j(2) that] releases_holds by blast
  qed (rule keep)
  then have all: "\<forall>t\<in>set (ts[i := t']). thread_ok (hub w') (enrolled (look (db w'))) t"
    using t' i by (auto simp: in_set_conv_nth nth_list_update)
  have fresh: "holds (ts ! j) \<noteq> holds t'" if "j < length ts" "j \<noteq> i" "holds t' \<noteq> None" for j
  proof -
    have "thread_ok (hub w) (enrolled (look (db w))) (ts ! j)" using that by (intro plane_okD(2) [OF ok]) simp
    then have "holds (ts ! j) \<noteq> Some (length (revocations (hub w)))" using thread_ok_holds by blast
    moreover have "holds t' = holds (ts ! i) \<Longrightarrow> holds (ts ! j) \<noteq> holds t'"
      using plane_okD(3) [OF ok that(1) i that(2)] that(3) by auto
    ultimately show ?thesis using t' that(3) by auto
  qed
  have "holds (ts[i := t'] ! j) \<noteq> holds (ts[i := t'] ! l)"
    if jl: "j < length ts" "l < length ts" "j \<noteq> l" and some: "holds (ts[i := t'] ! j) \<noteq> None" for j l
  proof (cases "j = i \<or> l = i")
    case True
    with fresh [of l] fresh [of j] jl some i show ?thesis by (cases "holds t'") auto
  next
    case False
    with plane_okD(3) [OF ok jl] some show ?thesis by auto
  qed
  then have "\<forall>j<length ts. \<forall>l<length ts. j \<noteq> l \<longrightarrow> holds (ts[i := t'] ! j) \<noteq> None \<longrightarrow> holds (ts[i := t'] ! j) \<noteq> holds (ts[i := t'] ! l)"
    by blast
  with all t' show ?thesis by (simp add: plane_ok_def)
qed

lemma plane_ok_step:
  assumes ok: "plane_ok look \<sigma>" and st: "sys_step B look \<sigma> \<sigma>'"
  shows "plane_ok look \<sigma>'"
  using st
proof (cases rule: sys_step.cases)
  case (spawn t w ts)
  with ok initial_ok [of t "hub w" "enrolled (look (db w))"] show ?thesis
    by (auto simp: plane_ok_def nth_append less_Suc_eq)
next
  case (run i ts now inp w t out w')
  have "thread_ok (hub w) (enrolled (look (db w))) (ts ! i)"
    using ok run by (auto intro: plane_okD(2))
  with thread_step_done [OF plane_okD(1), of w ts "ts ! i" now inp] ok run have "thread_done w (ts ! i) w' t" by auto
  with ok run show ?thesis by (simp add: plane_ok_run)
next
  case (stream w x b ts)
  with ok have "bus_ok (bus w)" by (simp add: plane_ok_def world_ok_def)
  with stream have "bus_ok b" by (auto intro: bus_step_ok)
  with ok stream show ?thesis by (simp add: plane_ok_def world_ok_def)
next
  case (operator w s ts)
  have "registry_ok (look (db w))" using ok operator by (simp add: plane_ok_def world_ok_def)
  then have "keeps_registry None (look (db w)) (look s)" using operator by (intro only_auth_keeps)
  with ok operator show ?thesis by (simp add: plane_ok_def world_ok_def keeps_registry_def)
qed

lemma plane_ok_reach:
  assumes "reach B look P \<sigma> \<sigma>'" and "plane_ok look \<sigma>"
  shows "plane_ok look \<sigma>'"
  using assms by (rule reach_induct_invariant) (rule plane_ok_step)

lemma run_done:
  assumes ok: "plane_ok look (w, ts)" and "i < length ts" and "thread_step B now inp (ts ! i) w = Some (t, out, w')"
  shows "thread_done w (ts ! i) w' t"
proof -
  have "thread_ok (hub w) (enrolled (look (db w))) (ts ! i)" using ok assms(2) by (auto intro: plane_okD(2))
  with thread_step_done [OF plane_okD(1) [OF ok], of "ts ! i" now inp] assms(3) show ?thesis by auto
qed

text \<open>What a step of the control plane does to the registry.\<close>

lemma step_registry:
  assumes ok: "plane_ok look \<sigma>" and st: "sys_step B look \<sigma> \<sigma>'"
  obtains (progress) "progress (\<Union>t\<in>set (snd \<sigma>). enrols t) UNIV (look (db (fst \<sigma>))) (look (db (fst \<sigma>')))"
    | (removes) jid where "removes jid (look (db (fst \<sigma>))) (look (db (fst \<sigma>')))"
proof -
  have reg: "registry_ok (look (db (fst \<sigma>)))" using ok by (cases \<sigma>) (simp add: plane_ok_def world_ok_def)
  from st show ?thesis
  proof (cases rule: sys_step.cases)
    case (run i ts now inp w t out w')
    with ok run_done have d: "thread_done w (ts ! i) w' t" by blast
    show ?thesis
    proof (cases "progress (enrols (ts ! i)) (speaks (ts ! i)) (look (db w)) (look (db w'))")
      case True
      have "enrols (ts ! i) \<subseteq> (\<Union>t\<in>set ts. enrols t)" using nth_mem [OF run(3)] by blast
      with True run show ?thesis by (intro progress) (auto elim: progress_weaken)
    next
      case False
      with d run show ?thesis unfolding thread_done_def by (auto intro: removes)
    qed
  next
    case (operator w s ts)
    have "keeps_registry None (look (db w)) (look s)" using operator reg by (intro only_auth_keeps) simp_all
    with operator reg show ?thesis by (intro progress) (auto intro: keeps_progress)
  qed (use reg progress in auto)
qed

text \<open>An instance that is gone: not enrolled, nobody has an event about it left to publish, and the events about it are among \<open>E\<close>.\<close>

definition gone :: "string \<Rightarrow> (u64 \<times> Event) set \<Rightarrow> 'a system \<Rightarrow> bool" where
  "gone iid E \<sigma> \<longleftrightarrow> plane_ok look \<sigma> \<and> iid \<notin> dom (enrolled (look (db (fst \<sigma>)))) \<and>
     (\<forall>t\<in>set (snd \<sigma>). iid \<in> speaks t \<longrightarrow> iid \<in> enrols t) \<and> mentions (look (db (fst \<sigma>))) iid \<subseteq> E"

lemma gone_step:
  assumes g: "gone iid E \<sigma>" and e: "\<forall>t\<in>set (snd \<sigma>). iid \<notin> enrols t" and st: "sys_step B look \<sigma> \<sigma>'"
  shows "gone iid E \<sigma>'"
proof -
  have ok: "plane_ok look \<sigma>" using g by (simp add: gone_def)
  have ok': "plane_ok look \<sigma>'" using ok st by (rule plane_ok_step)
  from st show ?thesis
  proof (cases rule: sys_step.cases)
    case (spawn t w ts)
    with g ok' initial_ok [of t] show ?thesis by (auto simp: gone_def)
  next
    case (run i ts now inp w t out w')
    with ok run_done have d: "thread_done w (ts ! i) w' t" by blast
    have x: "iid \<notin> enrols (ts ! i) \<union> speaks (ts ! i)" "iid \<notin> dom (enrolled (look (db w)))"
      "mentions (look (db w)) iid \<subseteq> E" "\<forall>t\<in>set ts. iid \<notin> speaks t"
      using g e run by (auto simp: gone_def)
    have "iid \<notin> dom (enrolled (look (db w'))) \<and> mentions (look (db w')) iid \<subseteq> mentions (look (db w)) iid \<and> iid \<notin> speaks t"
      using d x(1,2) unfolding thread_done_def by (auto simp: progress_def removes_def split: if_splits)
    with x ok' run show ?thesis
      by (auto simp: gone_def dest!: set_update_subset_insert [THEN subsetD])
  next
    case (stream w x b ts)
    with g ok' show ?thesis by (simp add: gone_def)
  next
    case (operator w s ts)
    have "registry_ok (look (db w))" using ok operator by (simp add: plane_ok_def world_ok_def)
    then have "keeps_registry None (look (db w)) (look s)" using operator by (intro only_auth_keeps)
    then have "enrolled (look s) = enrolled (look (db w))" "mentions (look s) iid \<subseteq> mentions (look (db w)) iid"
      by (simp_all add: keeps_registry_def)
    with g ok' operator show ?thesis unfolding gone_def by simp blast
  qed
qed

text \<open>The generations of every enrolled instance are in order.\<close>

definition all_sane :: "'a system \<Rightarrow> bool" where
  "all_sane \<sigma> \<longleftrightarrow> plane_ok look \<sigma> \<and> (\<forall>i\<in>ran (enrolled (look (db (fst \<sigma>)))). sane i)"

lemma progress_sane:
  assumes "progress X Y c c'" and "\<forall>i\<in>ran (enrolled c). sane i \<and> DesiredGeneration i \<noteq> - 1" and "i \<in> ran (enrolled c')"
  shows "sane i"
proof -
  obtain iid where "enrolled c' iid = Some i" using assms(3) by (auto simp: ran_def)
  with assms(1) consider "enrolled c iid = Some i" | j where "enrolled c iid = Some j" "follows j i" | "sane i"
    unfolding progress_def by blast
  then show ?thesis
  proof cases
    case (2 j)
    with assms(2) have "sane j" "DesiredGeneration j \<noteq> - 1" by (auto simp: ran_def)
    with 2 show ?thesis by (simp add: follows_def)
  qed (use assms(2) in \<open>auto simp: ran_def\<close>)
qed

lemma all_sane_step:
  assumes g: "all_sane \<sigma>" and bound: "\<forall>i\<in>ran (enrolled (look (db (fst \<sigma>)))). DesiredGeneration i \<noteq> - 1"
    and st: "sys_step B look \<sigma> \<sigma>'"
  shows "all_sane \<sigma>'"
proof -
  have ok: "plane_ok look \<sigma>" using g by (simp add: all_sane_def)
  have pre: "\<forall>i\<in>ran (enrolled (look (db (fst \<sigma>)))). sane i \<and> DesiredGeneration i \<noteq> - 1"
    using g bound by (simp add: all_sane_def)
  from ok st have "\<forall>i\<in>ran (enrolled (look (db (fst \<sigma>')))). sane i"
  proof (cases rule: step_registry)
    case progress
    then show ?thesis using progress_sane [OF _ pre] by blast
  next
    case (removes jid)
    then have "ran (enrolled (look (db (fst \<sigma>')))) \<subseteq> ran (enrolled (look (db (fst \<sigma>))))"
      by (auto simp: removes_def ran_def)
    with pre show ?thesis by blast
  qed
  with plane_ok_step [OF ok st] show ?thesis by (simp add: all_sane_def)
qed

text \<open>An instance whose desired state has moved on from \<open>i\<close>, or that is gone.\<close>

definition moved_on :: "string \<Rightarrow> Instance \<Rightarrow> 'a system \<Rightarrow> bool" where
  "moved_on iid i \<sigma> \<longleftrightarrow> plane_ok look \<sigma> \<and> (\<forall>i'. enrolled (look (db (fst \<sigma>))) iid = Some i' \<longrightarrow> ahead i i')"

lemma moved_on_step:
  assumes g: "moved_on iid i \<sigma>" and e: "\<forall>t\<in>set (snd \<sigma>). iid \<notin> enrols t"
    and bound: "\<forall>i\<in>ran (enrolled (look (db (fst \<sigma>)))). DesiredGeneration i \<noteq> - 1"
    and st: "sys_step B look \<sigma> \<sigma>'"
  shows "moved_on iid i \<sigma>'"
proof -
  let ?c = "enrolled (look (db (fst \<sigma>)))" and ?c' = "enrolled (look (db (fst \<sigma>')))"
  have ok: "plane_ok look \<sigma>" using g by (simp add: moved_on_def)
  have "ahead i i'" if i': "?c' iid = Some i'" for i'
    using ok st
  proof (cases rule: step_registry)
    case progress
    with i' e consider "?c iid = Some i'" | j where "?c iid = Some j" "follows j i'"
      unfolding progress_def by blast
    then show ?thesis
    proof cases
      case (2 j)
      then have "ahead i j" "ahead j i'" using g bound by (auto simp: moved_on_def ran_def intro: follows_ahead)
      then show ?thesis by (rule ahead_trans)
    qed (use g in \<open>simp add: moved_on_def\<close>)
  next
    case (removes jid)
    with i' g show ?thesis by (auto simp: removes_def moved_on_def split: if_splits)
  qed
  with plane_ok_step [OF ok st] show ?thesis by (simp add: moved_on_def)
qed

end


section \<open>What the control plane guarantees\<close>

definition start :: "'db \<Rightarrow> 'db host" where
  "start s = \<lparr>hub = NewHub, db = s, bus = New_bus\<rparr>"

lemma start_ok: "registry_ok (look s) \<Longrightarrow> plane_ok look (start s, [])"
  by (simp add: plane_ok_def world_ok_def start_def hub_ok_NewHub bus_ok_New) (simp add: NewHub_def)

text \<open>Threads run as a schedule says; with the messages handed to the agents.\<close>

fun sys_exec ::
    "'db badger \<Rightarrow> (nat \<times> instant \<times> thread_input) list \<Rightarrow> 'db host \<Rightarrow> thread list \<Rightarrow>
     (HostMessage list \<times> 'db host \<times> thread list) option" where
  "sys_exec B [] w ts = Some ([], w, ts)"
| "sys_exec B ((i, now, inp) # xs) w ts =
     (if i < length ts then
        (case thread_step B now inp (ts ! i) w of
           None \<Rightarrow> None
         | Some (t, out, w) \<Rightarrow> map_option (\<lambda>(out', w, ts). (out @ out', w, ts)) (sys_exec B xs w (ts[i := t])))
      else None)"

text \<open>
  C4.  No goroutine of the control plane ever panics: whatever connections, deletions, desired states,
  enrolments, installations, event streams and logins have run before, in whatever order, the next step of every one
  of them returns.
\<close>

theorem plane_never_panics:
  assumes "serial_badger B look rely" and "registry_ok (look s)"
    and "reach B look (\<lambda>_. True) (start s, []) (w, ts)" and "i < length ts"
  shows "thread_step B now inp (ts ! i) w \<noteq> None"
proof -
  have ok: "plane_ok look (w, ts)"
    using serial_badger.plane_ok_reach [OF assms(1,3) start_ok [of look s, OF assms(2)]] .
  then have "world_ok look w" "thread_ok (hub w) (enrolled (look (db w))) (ts ! i)"
    using assms(4) by (auto intro: plane_okD)
  from serial_badger.thread_step_done [OF assms(1) this] show ?thesis by blast
qed

text \<open>The hello and certificate of an agent called \<open>a\<close>.\<close>

definition example_input :: thread_input where
  "example_input = \<lparr>in_connect = \<lparr>in_first = Inr (HelloMessage \<lparr>HelloInstanceId = ''a'', HelloName = ''a'', HelloAgentVersion = ''1'',
       HelloCapabilities = Some []\<rparr>),
     in_peer = TLSInfo [[\<lparr>URIs = [''spiffe://ulcer/instance/a'']\<rparr>]], in_turn = TurnDisconnected,
     in_sending = PickResult None\<rparr>,
     in_remote = \<lparr>in_ran = True, in_cancelled = False, in_timeout = False, in_reconnected = False\<rparr>\<rparr>"

lemma reach_step1: "sys_step B look x y \<Longrightarrow> P x \<Longrightarrow> reach B look P x y"
  by (rule reach.step [OF reach.refl])

lemma reach_trans:
  assumes "reach B look P x y" and "reach B look P y z"
  shows "reach B look P x z"
  using assms(2,1) by (induction rule: reach.induct) (auto intro: reach.step)

lemma reach_spawn1: "initial t \<Longrightarrow> P (w, []) \<Longrightarrow> reach B look P (w, []) (w, [t])"
  using sys_step.spawn [of t B look w "[]"] by (auto intro: reach_step1)

lemma sys_exec_reach:
  assumes "sys_exec B xs w ts = Some (out, w', ts')"
  shows "reach B look (\<lambda>_. True) (w, ts) (w', ts')"
proof -
  have "reach B look (\<lambda>_. True) x (w, ts) \<Longrightarrow> reach B look (\<lambda>_. True) x (w', ts')" for x
    using assms
  proof (induction xs arbitrary: w ts out)
    case Nil
    then show ?case by simp
  next
    case (Cons a xs)
    obtain i now inp where a: "a = (i, now, inp)" by (cases a)
    with Cons.prems(2) obtain t o1 w1 o2 where i: "i < length ts" "thread_step B now inp (ts ! i) w = Some (t, o1, w1)"
      and rest: "sys_exec B xs w1 (ts[i := t]) = Some (o2, w', ts')"
      by (auto split: if_splits option.splits)
    from reach.step [OF Cons.prems(1) _ sys_step.run [OF i]] Cons.IH [OF _ rest] show ?case by simp
  qed
  from this [OF reach.refl] show ?thesis .
qed

theorem plane_never_panics_witness:
  "thread_step map_badger 5 example_input (Connecting Accepting) (start (example_registry 0)) \<noteq> None"
  using plane_never_panics [OF map_db.serial_badger_axioms example_registry_ok(1)
      reach_spawn1 [of "Connecting Accepting"], where i = 0 and now = 5 and inp = example_input] by simp

text \<open>
  C3.  In every reachable state of the control plane a connection that is attached, and in particular
  an instance that is reported online, belongs to an enrolled instance; after a deletion nothing of
  the instance stays connected.
\<close>

theorem attached_instances_enrolled:
  assumes "serial_badger B look rely" and "registry_ok (look s)"
    and "reach B look (\<lambda>_. True) (start s, []) (w, ts)"
    and "connections (hub w) iid \<noteq> None \<or> Online (hub w) iid"
  shows "enrolled (look (db w)) iid \<noteq> None"
proof -
  have "plane_ok look (w, ts)"
    using serial_badger.plane_ok_reach [OF assms(1,3) start_ok [of look s, OF assms(2)]] .
  with assms(4) show ?thesis by (auto simp: plane_ok_def world_ok_def Online_def split: option.splits)
qed

lemma example_connects:
  obtains s c where "sys_exec map_badger [(0, 5, example_input), (0, 6, example_input), (0, 7, example_input)]
      (start (example_registry 0)) [Connecting Accepting] = Some ([], \<lparr>hub = example_h2, db = s, bus = New_bus\<rparr>, [Connecting (Attached c)])"
    and "enrolled (map_look s) ''a'' = Some (snapshot c)" and "conflicts s = 0"
proof -
  define hello where "hello = \<lparr>HelloInstanceId = ''a'', HelloName = ''a'', HelloAgentVersion = ''1'', HelloCapabilities = Some []\<rparr>"
  let ?a = "start (example_registry 0)"
  have one: "connect_step map_badger 5 (in_connect example_input) Accepting ?a = Some (Reserving hello 0, [], ?a\<lparr>hub := example_h1\<rparr>)"
    by (simp add: connect_step_def connect_accept_def example_input_def GetHello_def authorizeInstance_def EqualFold_def
        example_states start_def quiet_def hello_def)
  obtain i s where upd: "UpdateInstance map_badger 6 ''a'' (hello_update 6 hello) (example_registry 0) = (Inr i, s)" "conflicts s = 0"
    by (simp add: registry_eval hello_update_def Let_def)
  have enr: "enrolled (map_look s) ''a'' = Some i"
    using map_db.UpdateInstance_refines [OF example_registry_ok(1) updates_ok(1) upd(1)] by simp
  define c where "c = \<lparr>hello_id = ''a'', reservation = 0, snapshot = i\<rparr>"
  have two: "connect_step map_badger 6 (in_connect example_input) (Reserving hello 0) (?a\<lparr>hub := example_h1\<rparr>) =
      Some (Updated c, [], ?a\<lparr>hub := example_h1, db := s\<rparr>)"
    using upd by (simp add: connect_step_def connect_update_def quiet_def hello_def c_def start_def)
  have three: "connect_step map_badger 7 (in_connect example_input) (Updated c) (?a\<lparr>hub := example_h1, db := s\<rparr>) =
      Some (Attached c, [], \<lparr>hub = example_h2, db = s, bus = New_bus\<rparr>)"
    by (simp add: connect_step_def connect_activate_def quiet_def c_def start_def example_states)
  show ?thesis
  proof (rule that [of s c])
    show "enrolled (map_look s) ''a'' = Some (snapshot c)" using enr by (simp add: c_def)
  qed (simp_all add: thread_step_def one two three upd(2))
qed

theorem attached_instances_enrolled_witness:
  "\<exists>w ts. reach map_badger map_look (\<lambda>_. True) (start (example_registry 0), []) (w, ts) \<and>
     Online (hub w) ''a'' \<and> enrolled (map_look (db w)) ''a'' \<noteq> None"
proof -
  obtain s c where ex: "sys_exec map_badger [(0, 5, example_input), (0, 6, example_input), (0, 7, example_input)]
      (start (example_registry 0)) [Connecting Accepting] = Some ([], \<lparr>hub = example_h2, db = s, bus = New_bus\<rparr>, [Connecting (Attached c)])"
    by (rule example_connects)
  have "reach map_badger map_look (\<lambda>_. True) (start (example_registry 0), []) (start (example_registry 0), [Connecting Accepting])"
    by (rule reach_spawn1) simp_all
  from reach_trans [OF this sys_exec_reach [OF ex]]
  have r: "reach map_badger map_look (\<lambda>_. True) (start (example_registry 0), [])
      (\<lparr>hub = example_h2, db = s, bus = New_bus\<rparr>, [Connecting (Attached c)])" .
  have on: "Online example_h2 ''a''" by (simp add: Online_def example_h1_def example_h2_def hub_eval)
  from attached_instances_enrolled [OF map_db.serial_badger_axioms example_registry_ok(1) r, of "''a''"] on
  have "enrolled (map_look s) ''a'' \<noteq> None" by simp
  with r on show ?thesis by (intro exI conjI) (assumption, simp_all)
qed

text \<open>
  C1.  Nothing is heard of a deleted instance: from any reachable state in which an instance is not
  enrolled and no deletion, enrolment or installation of it is under way, as long as nobody enrols it
  again, it stays unenrolled and offline, and no event about it is added to the ledger, whatever its agent, the
  operator and the API do.
\<close>

theorem deleted_instance_silenced:
  assumes "serial_badger B look rely" and "registry_ok (look s)"
    and "reach B look (\<lambda>_. True) (start s, []) (w, ts)"
    and "enrolled (look (db w)) iid = None" and "\<forall>t\<in>set ts. iid \<notin> speaks t"
    and "reach B look (\<lambda>\<sigma>. \<forall>t\<in>set (snd \<sigma>). iid \<notin> enrols t) (w, ts) (w', ts')"
  shows "enrolled (look (db w')) iid = None \<and> \<not> Online (hub w') iid \<and>
    mentions (look (db w')) iid \<subseteq> mentions (look (db w)) iid"
proof -
  have ok: "plane_ok look (w, ts)"
    using serial_badger.plane_ok_reach [OF assms(1,3) start_ok [of look s, OF assms(2)]] .
  then have start: "serial_badger.gone look iid (mentions (look (db w)) iid) (w, ts)"
    using assms(4,5) by (simp add: serial_badger.gone_def [OF assms(1)] domIff)
  have "serial_badger.gone look iid (mentions (look (db w)) iid) (w', ts')"
    using assms(6) start
    by (rule reach_induct_invariant) (rule serial_badger.gone_step [OF assms(1)])
  then show ?thesis
    by (auto simp: serial_badger.gone_def [OF assms(1)] plane_ok_def world_ok_def Online_def split: option.splits)
qed

theorem deleted_instance_silenced_witness:
  "\<exists>w ts. reach map_badger map_look (\<lambda>\<sigma>. \<forall>t\<in>set (snd \<sigma>). ''a'' \<notin> enrols t) (start empty_db, []) (w, ts) \<and>
     is_pending (hub w) 0 \<and> enrolled (map_look (db w)) ''a'' = None \<and> \<not> Online (hub w) ''a'' \<and>
     mentions (map_look (db w)) ''a'' = {}"
proof -
  let ?P = "\<lambda>\<sigma>. \<forall>t\<in>set (snd \<sigma>). ''a'' \<notin> enrols t" and ?w = "(start empty_db)\<lparr>hub := example_h1\<rparr>"
  have sp: "reach map_badger map_look ?P (start empty_db, []) (start empty_db, [Connecting Accepting])"
    by (rule reach_spawn1) simp_all
  obtain k where "thread_step map_badger 5 example_input (Connecting Accepting) (start empty_db) = Some (Connecting k, [], ?w)"
    by (simp add: thread_step_def connect_step_def connect_accept_def example_input_def GetHello_def authorizeInstance_def
        EqualFold_def example_states start_def quiet_def)
  then have "sys_step map_badger map_look (start empty_db, [Connecting Accepting]) (?w, [Connecting k])"
    using sys_step.run [of 0 "[Connecting Accepting]"] by fastforce
  then have r: "reach map_badger map_look ?P (start empty_db, []) (?w, [Connecting k])"
    by (intro reach.step [OF sp]) simp_all
  have "mentions (map_look empty_db) ''a'' = {}" by (simp add: mentions_def)
  with deleted_instance_silenced [OF map_db.serial_badger_axioms registry_ok_empty(1) reach.refl _ _ r]
  have "enrolled (map_look (db ?w)) ''a'' = None \<and> \<not> Online (hub ?w) ''a'' \<and> mentions (map_look (db ?w)) ''a'' = {}"
    by (simp add: start_def enrolled_def)
  moreover have "is_pending (hub ?w) 0" by (simp add: example_h1_def hub_eval)
  ultimately show ?thesis using r by blast
qed

text \<open>
  C8.  The host's record of an agent stays in order: along every run in which no desired generation
  reaches the largest 64-bit number, the applied generation of every instance is at most the desired
  one, and when they are equal and not 0 the digests agree.
\<close>

theorem generations_in_order:
  assumes "serial_badger B look rely" and "registry_ok (look s)" and "\<forall>i\<in>ran (enrolled (look s)). sane i"
    and "reach B look (\<lambda>\<sigma>. \<forall>i\<in>ran (enrolled (look (db (fst \<sigma>)))). DesiredGeneration i \<noteq> - 1) (start s, []) (w, ts)"
    and "enrolled (look (db w)) iid = Some i"
  shows "AppliedGeneration i \<le> DesiredGeneration i \<and>
    (AppliedGeneration i = DesiredGeneration i \<longrightarrow> 0 < AppliedGeneration i \<longrightarrow> AppliedDigest i = DesiredDigest i)"
proof -
  have "serial_badger.all_sane look (start s, [])"
    using start_ok [of look s, OF assms(2)] assms(3)
    by (simp add: serial_badger.all_sane_def [OF assms(1)]) (simp add: start_def)
  with assms(4) have "serial_badger.all_sane look (w, ts)"
    by (rule reach_induct_invariant) (rule serial_badger.all_sane_step [OF assms(1)])
  then show ?thesis using assms(5) by (auto simp: serial_badger.all_sane_def [OF assms(1)] sane_def ran_def)
qed

text \<open>The operator sets the desired state of the enrolled instance \<open>a\<close>.\<close>

abbreviation desired_a :: Instance where
  "desired_a \<equiv> (example_instance ''a'')\<lparr>DesiredGeneration := 1, DesiredDigest := ''d'', DesiredSpec := ''{}''\<rparr>"

lemma example_desired:
  obtains s where "desired_store map_badger 5 ''a'' (''{}'', ''d'') (example_registry 0) = (Inr desired_a, s)"
    and "enrolled (map_look s) ''a'' = Some desired_a"
    and "sys_step map_badger map_look (start (example_registry 0), [Setting (SetStart ''a'' (''{}'', ''d''))])
           ((start (example_registry 0))\<lparr>db := s\<rparr>, [Setting (SetStored desired_a)])"
proof -
  let ?s = "example_registry 0" and ?t = "Setting (SetStart ''a'' (''{}'', ''d''))"
  obtain s where upd: "UpdateInstance map_badger 5 ''a'' (desired_update ''{}'' ''d'') ?s = (Inr desired_a, s)"
    by (simp add: registry_eval desired_update_def example_instance_def zero_Instance_def)
  then have ds: "desired_store map_badger 5 ''a'' (''{}'', ''d'') ?s = (Inr desired_a, s)" by (simp add: desired_store_def)
  have "enrolled (map_look s) ''a'' = Some desired_a"
    using map_db.UpdateInstance_refines [OF example_registry_ok(1) updates_ok(7) upd] by simp
  moreover have "sys_step map_badger map_look (start ?s, [?t]) ((start ?s)\<lparr>db := s\<rparr>, [Setting (SetStored desired_a)])"
    using sys_step.run [of 0 "[?t]" map_badger 5 example_input "start ?s"] ds
    by (simp add: thread_step_def set_step_def start_def)
  ultimately show ?thesis by (rule that [OF ds])
qed

lemma example_bounded:
  "\<forall>i\<in>ran (enrolled (map_look (db (fst (start (example_registry 0), ts))))). DesiredGeneration i \<noteq> - 1"
  by (simp add: start_def ran_def example_instance_def zero_Instance_def)

theorem generations_in_order_witness:
  "\<exists>i. enrolled (map_look (snd (desired_store map_badger 5 ''a'' (''{}'', ''d'') (example_registry 0)))) ''a'' = Some i \<and>
     DesiredGeneration i = 1 \<and> AppliedGeneration i \<le> DesiredGeneration i"
proof -
  let ?s = "example_registry 0" and ?t = "Setting (SetStart ''a'' (''{}'', ''d''))"
  let ?P = "\<lambda>\<sigma>. \<forall>i\<in>ran (enrolled (map_look (db (fst \<sigma>)))). DesiredGeneration i \<noteq> - 1"
  obtain s where ds: "desired_store map_badger 5 ''a'' (''{}'', ''d'') ?s = (Inr desired_a, s)"
    and enr: "enrolled (map_look s) ''a'' = Some desired_a"
    and st: "sys_step map_badger map_look (start ?s, [?t]) ((start ?s)\<lparr>db := s\<rparr>, [Setting (SetStored desired_a)])"
    by (rule example_desired)
  from st have r: "reach map_badger map_look ?P (start ?s, []) ((start ?s)\<lparr>db := s\<rparr>, [Setting (SetStored desired_a)])"
    by (rule reach.step [where P = ?P, OF reach_spawn1 [of ?t ?P, OF _ example_bounded] example_bounded, rotated]) simp
  have "\<forall>i\<in>ran (enrolled (map_look ?s)). sane i"
    by (simp add: ran_def sane_def example_instance_def zero_Instance_def)
  from generations_in_order [OF map_db.serial_badger_axioms example_registry_ok(1) this r, of "''a''" desired_a] enr
  show ?thesis by (simp add: ds)
qed

text \<open>
  C7.  A generation never stands for two desired states: between any two moments of a run in which an
  instance is enrolled and nobody enrols it again, and in which no desired generation reaches the
  largest 64-bit number, its desired generation does not go back, and as long as it is the same the
  digest and the specification are the same.
\<close>

theorem generation_keeps_digest:
  assumes "serial_badger B look rely" and "registry_ok (look s)"
    and "reach B look (\<lambda>_. True) (start s, []) (w, ts)" and "enrolled (look (db w)) iid = Some i"
    and "reach B look (\<lambda>\<sigma>. (\<forall>t\<in>set (snd \<sigma>). iid \<notin> enrols t) \<and>
           (\<forall>j\<in>ran (enrolled (look (db (fst \<sigma>)))). DesiredGeneration j \<noteq> - 1)) (w, ts) (w', ts')"
    and "enrolled (look (db w')) iid = Some i'"
  shows "DesiredGeneration i \<le> DesiredGeneration i' \<and>
    (DesiredGeneration i' = DesiredGeneration i \<longrightarrow> DesiredDigest i' = DesiredDigest i \<and> DesiredSpec i' = DesiredSpec i)"
proof -
  have "plane_ok look (w, ts)"
    using serial_badger.plane_ok_reach [OF assms(1,3) start_ok [of look s, OF assms(2)]] .
  then have "serial_badger.moved_on look iid i (w, ts)"
    using assms(4) by (simp add: serial_badger.moved_on_def [OF assms(1)])
  with assms(5) have "serial_badger.moved_on look iid i (w', ts')"
    by (rule reach_induct_invariant) (use serial_badger.moved_on_step [OF assms(1)] in blast)
  then show ?thesis using assms(6) by (auto simp: serial_badger.moved_on_def [OF assms(1)] ahead_def)
qed

theorem generation_keeps_digest_witness:
  "\<exists>s. desired_store map_badger 5 ''a'' (''{}'', ''d'') (example_registry 0) = (Inr desired_a, s) \<and>
     enrolled (map_look s) ''a'' = Some desired_a \<and>
     DesiredGeneration (example_instance ''a'') \<le> DesiredGeneration desired_a"
proof -
  let ?s = "example_registry 0" and ?t = "Setting (SetStart ''a'' (''{}'', ''d''))"
  let ?P = "\<lambda>\<sigma>. (\<forall>t\<in>set (snd \<sigma>). ''a'' \<notin> enrols t) \<and>
           (\<forall>j\<in>ran (enrolled (map_look (db (fst \<sigma>)))). DesiredGeneration j \<noteq> - 1)"
  obtain s where ds: "desired_store map_badger 5 ''a'' (''{}'', ''d'') ?s = (Inr desired_a, s)"
    and enr: "enrolled (map_look s) ''a'' = Some desired_a"
    and st: "sys_step map_badger map_look (start ?s, [?t]) ((start ?s)\<lparr>db := s\<rparr>, [Setting (SetStored desired_a)])"
    by (rule example_desired)
  have r: "reach map_badger map_look ?P (start ?s, [?t]) ((start ?s)\<lparr>db := s\<rparr>, [Setting (SetStored desired_a)])"
    using st example_bounded by (intro reach_step1) simp_all
  have "enrolled (map_look (db (start ?s))) ''a'' = Some (example_instance ''a'')" by (simp add: start_def)
  from generation_keeps_digest [OF map_db.serial_badger_axioms example_registry_ok(1) reach_spawn1 this r, of desired_a] enr ds
  show ?thesis by simp
qed

end
