(* ===== verification/Race.thy ===== *)
theory Race
  imports PlaneRuns
begin

text \<open>
  A race of the control plane.  \<open>Connect\<close> sends the desired state of the instance it read before it
  attached; \<open>setDesired\<close> stores a newer one and sends it to whatever is attached.  When the second runs
  between the first's update and its activation, the agent gets the old state only, although it is
  connected and the API has answered.
\<close>

definition racing_instance :: Instance where
  "racing_instance = (example_instance ''a'')\<lparr>DesiredGeneration := 1, DesiredDigest := ''d1'', DesiredSpec := ''s1''\<rparr>"

definition racing_db :: map_db where
  "racing_db = db_of [(instanceKey ''a'', Doc (marshal_Instance racing_instance))] 0"

definition racing_schedule :: "(nat \<times> instant \<times> thread_input) list" where
  "racing_schedule = map (\<lambda>(i, now). (i, now, example_input)) [(0, 1), (0, 2), (1, 3), (1, 4), (0, 5), (0, 6), (0, 7), (1, 8)]"

lemma racing_db_ok [simp]:
  "registry_ok (map_look racing_db)" "enrolled (map_look racing_db) = [''a'' \<mapsto> racing_instance]"
  by (auto simp: registry_ok_def enrolled_def racing_db_def racing_instance_def fun_eq_iff split: if_splits)

definition example_hello :: InstanceHello where
  "example_hello = \<lparr>HelloInstanceId = ''a'', HelloName = ''a'', HelloAgentVersion = ''1'', HelloCapabilities = Some []\<rparr>"

definition greeted_instance :: Instance where
  "greeted_instance = racing_instance\<lparr>LastSeenAt := Some 2, AgentVersion := ''1'', Capabilities := Some []\<rparr>"

definition desired_instance :: Instance where
  "desired_instance = greeted_instance\<lparr>DesiredGeneration := 2, DesiredDigest := ''d2'', DesiredSpec := ''s2''\<rparr>"

definition racing_session :: session where
  "racing_session = \<lparr>hello_id = ''a'', reservation = 0, snapshot = greeted_instance\<rparr>"

lemma racing_updates:
  obtains s1 s2 where "UpdateInstance map_badger 2 ''a'' (hello_update 2 example_hello) racing_db = (Inr greeted_instance, s1)"
    and "UpdateInstance map_badger 3 ''a'' (desired_update ''s2'' ''d2'') s1 = (Inr desired_instance, s2)"
    and "registry_ok (map_look s2)" and "enrolled (map_look s2) ''a'' = Some desired_instance"
proof -
  let ?s1 = "put (instanceKey ''a'') (Doc (marshal_Instance greeted_instance), None) racing_db"
  let ?s2 = "put (instanceKey ''a'') (Doc (marshal_Instance desired_instance), None) ?s1"
  have one: "UpdateInstance map_badger 2 ''a'' (hello_update 2 example_hello) racing_db = (Inr greeted_instance, ?s1)"
    by (simp add: registry_eval racing_db_def hello_update_def example_hello_def greeted_instance_def racing_instance_def
        example_instance_def zero_Instance_def Let_def)
  have two: "UpdateInstance map_badger 3 ''a'' (desired_update ''s2'' ''d2'') ?s1 = (Inr desired_instance, ?s2)"
    by (simp add: registry_eval racing_db_def desired_update_def desired_instance_def)
      (simp add: greeted_instance_def racing_instance_def)
  have r1: "registry_ok (map_look ?s1)"
    using map_db.UpdateInstance_refines [OF racing_db_ok(1) updates_ok(1) one] by blast
  have "registry_ok (map_look ?s2) \<and> enrolled (map_look ?s2) ''a'' = Some desired_instance"
    using map_db.UpdateInstance_refines [OF r1 updates_ok(7) two] by simp
  then show ?thesis by (intro that [OF one two]) (rule conjunct1, assumption, rule conjunct2)
qed

lemma racing_steps:
  fixes s :: map_db and b :: Bus
  shows "thread_step map_badger 1 example_input (Connecting Accepting) (start s) =
      Some (Connecting (Reserving example_hello 0), [], \<lparr>hub = example_h1, db = s, bus = New_bus\<rparr>)"
    and "UpdateInstance map_badger 2 ''a'' (hello_update 2 example_hello) s = (Inr greeted_instance, s1) \<Longrightarrow>
      thread_step map_badger 2 example_input (Connecting (Reserving example_hello 0)) \<lparr>hub = h, db = s, bus = b\<rparr> =
      Some (Connecting (Updated racing_session), [], \<lparr>hub = h, db = s1, bus = b\<rparr>)"
    and "UpdateInstance map_badger 3 ''a'' (desired_update ''s2'' ''d2'') s = (Inr desired_instance, s2) \<Longrightarrow>
      thread_step map_badger 3 example_input (Setting (SetStart ''a'' (''s2'', ''d2''))) \<lparr>hub = h, db = s, bus = b\<rparr> =
      Some (Setting (SetStored desired_instance), [], \<lparr>hub = h, db = s2, bus = b\<rparr>)"
    and "thread_step map_badger 4 example_input (Setting (SetStored desired_instance)) \<lparr>hub = example_h1, db = s, bus = b\<rparr> =
      Some (Setting (SetSent desired_instance False), [], \<lparr>hub = example_h1, db = s, bus = b\<rparr>)"
    and "thread_step map_badger 5 example_input (Connecting (Updated racing_session)) \<lparr>hub = example_h1, db = s, bus = b\<rparr> =
      Some (Connecting (Attached racing_session), [], \<lparr>hub = example_h2, db = s, bus = b\<rparr>)"
    and "thread_step map_badger 7 example_input (Connecting (Greeting racing_session)) \<lparr>hub = h, db = s, bus = b\<rparr> =
      Some (Connecting (Serving racing_session), [desiredMessage greeted_instance], \<lparr>hub = h, db = s, bus = b\<rparr>)"
proof -
  show "thread_step map_badger 4 example_input (Setting (SetStored desired_instance)) \<lparr>hub = example_h1, db = s, bus = b\<rparr> =
      Some (Setting (SetSent desired_instance False), [], \<lparr>hub = example_h1, db = s, bus = b\<rparr>)"
  proof -
    have "connections example_h1 ''a'' = None" by (simp add: example_h1_def hub_eval)
    then have "Send (ID desired_instance) (desiredMessage desired_instance) example_h1 = Some (False, example_h1)"
      by (simp add: Send_def desired_instance_def greeted_instance_def racing_instance_def)
    then show ?thesis by (simp add: thread_step_def set_step_def)
  qed
qed (simp_all add: thread_step_def connect_step_def connect_accept_def example_input_def GetHello_def authorizeInstance_def
    EqualFold_def example_states start_def quiet_def example_hello_def connect_update_def racing_session_def
    set_step_def desired_store_def connect_activate_def connect_greet_def continue_def sendWhileConnected_def
    greeted_instance_def racing_instance_def)

lemma racing_events:
  assumes s: "registry_ok (map_look s)" and i: "enrolled (map_look s) ''a'' = Some i" and b: "bus_ok b"
  obtains s1 b1 s2 b2 r where
      "thread_step map_badger 6 example_input (Connecting (Attached racing_session)) \<lparr>hub = example_h2, db = s, bus = b\<rparr> =
        Some (Connecting (Greeting racing_session), [], \<lparr>hub = example_h2, db = s1, bus = b1\<rparr>)"
    and "thread_step map_badger 8 example_input (Setting (SetSent desired_instance False)) \<lparr>hub = example_h2, db = s1, bus = b1\<rparr> =
        Some (Setting (SetFinished r), [], \<lparr>hub = example_h2, db = s2, bus = b2\<rparr>)"
    and "enrolled (map_look s2) ''a'' = Some i"
proof -
  have free: "\<not> blocked_count example_h2 ''a'' > 0" by (simp add: example_h1_def example_h2_def hub_eval)
  have aid: "ID (snapshot racing_session) = ''a''"
    by (simp add: racing_session_def greeted_instance_def racing_instance_def)
  obtain p s1 b1 where pub: "publishIfEnrolled map_badger 6 example_h2 ''instance.connected'' ''a''
      [(''name'', JStr (Name (snapshot racing_session)))] (s, b) = Some (p, s1, b1)" "bus_ok b1"
    and keep: "keeps_registry (if p then Some ''a'' else None) (map_look s) (map_look s1)"
    and p: "p \<longleftrightarrow> \<not> blocked_count example_h2 ''a'' > 0 \<and> enrolled (map_look s) ''a'' \<noteq> None"
    by (rule map_db.publishIfEnrolled_keeps [OF s b]) (rule that)
  have s1: "registry_ok (map_look s1)" "enrolled (map_look s1) = enrolled (map_look s)"
    using keep by (simp_all add: keeps_registry_def)
  obtain q s2 b2 where ev: "publishIfEnrolled map_badger 8 example_h2 ''instance.desired'' (ID desired_instance)
      [(''generation'', JNum (uint (DesiredGeneration desired_instance))), (''delivered'', JBool False)] (s1, b1) = Some (q, s2, b2)"
      "bus_ok b2"
    and keep2: "keeps_registry (if q then Some (ID desired_instance) else None) (map_look s1) (map_look s2)"
    and "q \<longleftrightarrow> \<not> blocked_count example_h2 (ID desired_instance) > 0 \<and> enrolled (map_look s1) (ID desired_instance) \<noteq> None"
    by (rule map_db.publishIfEnrolled_keeps [OF s1(1) pub(2)]) (rule that)
  show ?thesis
  proof (rule that)
    show "thread_step map_badger 6 example_input (Connecting (Attached racing_session)) \<lparr>hub = example_h2, db = s, bus = b\<rparr> =
        Some (Connecting (Greeting racing_session), [], \<lparr>hub = example_h2, db = s1, bus = b1\<rparr>)"
      using pub(1) p free i by (simp add: thread_step_def connect_step_def connect_announce_def quiet_def aid)
    show "thread_step map_badger 8 example_input (Setting (SetSent desired_instance False)) \<lparr>hub = example_h2, db = s1, bus = b1\<rparr> =
        Some (Setting (SetFinished (desired_response desired_instance False q)), [], \<lparr>hub = example_h2, db = s2, bus = b2\<rparr>)"
      using ev by (simp add: thread_step_def set_step_def desired_event_def)
    show "enrolled (map_look s2) ''a'' = Some i" using keep2 s1(2) i by (simp add: keeps_registry_def)
  qed
qed

text \<open>
  C37.  A desired state can be lost: there is a schedule of a connecting agent and a \<open>setDesired\<close> in
  which both return, the instance is online and nothing waits in its channel, but the only desired
  state handed to its stream is generation 1 while the store holds generation 2.
\<close>

theorem desired_state_can_be_lost:
  "\<exists>w c r. sys_exec map_badger racing_schedule (start racing_db)
       [Connecting Accepting, Setting (SetStart ''a'' (''s2'', ''d2''))] =
     Some ([DesiredMessage \<lparr>DesiredInstanceId = ''a'', Generation = 1, SpecDigest = ''d1'', CanonicalSpecBytes = ''s1''\<rparr>],
       w, [Connecting (Serving c), Setting (SetFinished r)]) \<and>
     Online (hub w) ''a'' \<and> buffer (messages (conns (hub w) ! 0)) = [] \<and>
     (\<exists>i. enrolled (map_look (db w)) ''a'' = Some i \<and> DesiredGeneration i = 2)"
proof -
  obtain s1 s2 where upd: "UpdateInstance map_badger 2 ''a'' (hello_update 2 example_hello) racing_db = (Inr greeted_instance, s1)"
      "UpdateInstance map_badger 3 ''a'' (desired_update ''s2'' ''d2'') s1 = (Inr desired_instance, s2)"
    and s2: "registry_ok (map_look s2)" "enrolled (map_look s2) ''a'' = Some desired_instance"
    by (rule racing_updates)
  obtain s3 b3 s4 b4 r where ev:
      "thread_step map_badger 6 example_input (Connecting (Attached racing_session)) \<lparr>hub = example_h2, db = s2, bus = New_bus\<rparr> =
        Some (Connecting (Greeting racing_session), [], \<lparr>hub = example_h2, db = s3, bus = b3\<rparr>)"
      "thread_step map_badger 8 example_input (Setting (SetSent desired_instance False)) \<lparr>hub = example_h2, db = s3, bus = b3\<rparr> =
        Some (Setting (SetFinished r), [], \<lparr>hub = example_h2, db = s4, bus = b4\<rparr>)"
    and s4: "enrolled (map_look s4) ''a'' = Some desired_instance"
    by (rule racing_events [OF s2 bus_ok_New])
  have "sys_exec map_badger racing_schedule (start racing_db) [Connecting Accepting, Setting (SetStart ''a'' (''s2'', ''d2''))] =
      Some ([desiredMessage greeted_instance], \<lparr>hub = example_h2, db = s4, bus = b4\<rparr>,
        [Connecting (Serving racing_session), Setting (SetFinished r)])"
    by (simp add: racing_schedule_def racing_steps(1,4,5,6) racing_steps(2) [OF upd(1)] racing_steps(3) [OF upd(2)] ev)
  moreover have "desiredMessage greeted_instance =
      DesiredMessage \<lparr>DesiredInstanceId = ''a'', Generation = 1, SpecDigest = ''d1'', CanonicalSpecBytes = ''s1''\<rparr>"
    by (simp add: desiredMessage_def greeted_instance_def racing_instance_def)
  moreover have "Online example_h2 ''a''" "buffer (messages (conns example_h2 ! 0)) = []"
    by (simp_all add: Online_def example_h1_def example_h2_def hub_eval)
  moreover have "DesiredGeneration desired_instance = 2" by (simp add: desired_instance_def)
  ultimately show ?thesis using s4
    by (intro exI [of _ "\<lparr>hub = example_h2, db = s4, bus = b4\<rparr>"] exI [of _ racing_session] exI [of _ r]) simp
qed

end
