(* ===== verification/InstallRuns.thy ===== *)
theory InstallRuns
  imports Installer
begin

text \<open>
  What one installation does from its enrolment to its end, with the hub, the database and the remote
  machine as they happen to be at each step: the commands it runs, and that a machine it has touched is
  cleaned up when it fails.
\<close>

text \<open>The steps a goroutine has taken, the latest first, each with what the world did to it, and the state it is in.\<close>

inductive install_trace :: "'db badger \<Rightarrow> plan \<Rightarrow> (installing \<times> remote_input) list \<Rightarrow> installing \<Rightarrow> bool" for B p where
  ready: "install_trace B p [] (InstallReady p)"
| step: "install_trace B p tr d \<Longrightarrow> install_step B now inp d w = Some (d', w') \<Longrightarrow> install_trace B p ((d, inp) # tr) d'"

text \<open>
  The cleanup has been run: it succeeded, or it was run again on a new connection, or no new connection
  could be made.
\<close>

definition cleaned :: "plan \<Rightarrow> (installing \<times> remote_input) list \<Rightarrow> bool" where
  "cleaned p tr \<longleftrightarrow> (\<exists>e k inp. (InstallRevoked p e k True, inp) \<in> set tr \<and>
     (in_ran inp \<or> \<not> in_reconnected inp \<or> (\<exists>e k inp. (InstallCleaningAgain p e k, inp) \<in> set tr)))"

definition touched_remote :: "(installing \<times> remote_input) list \<Rightarrow> bool" where
  "touched_remote tr \<longleftrightarrow> (\<exists>q cs inp. (InstallRemote q cs, inp) \<in> set tr)"

text \<open>Where an installation of \<open>p\<close> can be after \<open>tr\<close>: it has kept its plan, and knows what it has touched.\<close>

fun follows_plan :: "plan \<Rightarrow> (installing \<times> remote_input) list \<Rightarrow> installing \<Rightarrow> bool" where
  "follows_plan p tr (InstallReady q) = (q = p \<and> \<not> touched_remote tr)"
| "follows_plan p tr (InstallEnrolled q) = (q = p \<and> \<not> touched_remote tr)"
| "follows_plan p tr (InstallStarting q) = (q = p \<and> \<not> touched_remote tr)"
| "follows_plan p tr (InstallPackages q) = (q = p \<and> \<not> touched_remote tr)"
| "follows_plan p tr (InstallRemote q cs) = (q = p \<and> suffix cs (plan_commands p))"
| "follows_plan p tr (InstallWaiting q) = (q = p)"
| "follows_plan p tr (InstallOnline q) = (q = p)"
| "follows_plan p tr (InstallFailing q e touched) = (q = p \<and> (touched_remote tr \<longrightarrow> touched))"
| "follows_plan p tr (InstallRevoked q e k touched) = (q = p \<and> (touched_remote tr \<longrightarrow> touched))"
| "follows_plan p tr (InstallCleaningAgain q e k) = (q = p \<and> (\<exists>e k inp. (InstallRevoked p e k True, inp) \<in> set tr))"
| "follows_plan p tr (InstallCleaned q e k) = (q = p \<and> (touched_remote tr \<longrightarrow> cleaned p tr))"
| "follows_plan p tr (InstallDeleting q e k) = (q = p \<and> (touched_remote tr \<longrightarrow> cleaned p tr))"
| "follows_plan p tr (InstallDeleted q e k) = (q = p \<and> (touched_remote tr \<longrightarrow> cleaned p tr))"
| "follows_plan p tr (InstallReleasing e k) = (touched_remote tr \<longrightarrow> cleaned p tr)"
| "follows_plan p tr (InstallFinished (Inl e)) = (touched_remote tr \<longrightarrow> cleaned p tr)"
| "follows_plan p tr (InstallFinished (Inr i)) = True"

lemma touched_remote_Cons [simp]:
  "touched_remote ((d, inp) # tr) \<longleftrightarrow> (\<exists>q cs. d = InstallRemote q cs) \<or> touched_remote tr"
  by (auto simp: touched_remote_def)

lemma cleaned_Cons: "cleaned p tr \<Longrightarrow> cleaned p (x # tr)"
  unfolding cleaned_def by (meson list.set_intros(2))

lemma cleaned_first: "in_ran inp \<or> \<not> in_reconnected inp \<Longrightarrow> cleaned p ((InstallRevoked p e k True, inp) # tr)"
  unfolding cleaned_def by (meson list.set_intros(1))

lemma cleaned_again: "(InstallRevoked p e k True, inp) \<in> set tr \<Longrightarrow> cleaned p ((InstallCleaningAgain p e' k', inp') # tr)"
  unfolding cleaned_def by (meson list.set_intros)

lemma install_step_follows:
  assumes d: "follows_plan p tr d" and st: "install_step B now inp d w = Some (d', w')"
  shows "follows_plan p ((d, inp) # tr) d'"
proof (cases d)
  case (InstallRemote q cs)
  with d st show ?thesis
    by (cases cs; cases "hd cs") (auto simp: install_step_def dest: suffix_ConsD split: if_splits)
next
  case (InstallOnline q)
  with d st show ?thesis
    by (auto simp: install_step_def install_succeed_def IfOnline_def install_publish_def split: if_splits option.splits sum.splits)
next
  case (InstallRevoked q e k touched)
  with d st show ?thesis
    by (auto simp: install_step_def intro: cleaned_first split: if_splits) blast+
next
  case (InstallCleaningAgain q e k)
  with d st show ?thesis by (auto simp: install_step_def intro: cleaned_again)
next
  case (InstallFinished r)
  with d st show ?thesis by (cases r) (auto simp: install_step_def intro: cleaned_Cons)
qed (use d st in \<open>auto simp: install_step_def install_publish_def waitOnline_def intro: cleaned_Cons split: sum.splits prod.splits if_splits\<close>)

lemma install_trace_follows: "install_trace B p tr d \<Longrightarrow> follows_plan p tr d"
  by (induction rule: install_trace.induct) (auto simp: touched_remote_def intro: install_step_follows)

lemma install_trace_all:
  assumes "install_trace B p tr d" and "(d', inp) \<in> set tr"
  shows "\<exists>tr'. follows_plan p tr' d'"
  using assms by (induction rule: install_trace.induct) (auto dest: install_trace_follows)

text \<open>
  C14.  A machine that was touched is cleaned up: when an installation that got past the packages on the
  remote machine ends in an error, it has run the cleanup there, which stops and removes the service
  and the container and deletes the unit and the credentials; that cleanup succeeded, or it was run once
  more on a new connection, or no new connection could be made.  And whatever an installation runs at any
  time is the installation of the packages, a command of its plan or the cleanup; but for the first, none
  of them holds a quote, an expansion, an escape or a line end.
\<close>

theorem touched_remote_cleaned:
  assumes "install_plan S cfg cancelled now iid callback r = Inr p" and "install_trace B p tr d"
  shows "(d = InstallFinished (Inl e) \<longrightarrow> (\<exists>q cs inp. (InstallRemote q cs, inp) \<in> set tr) \<longrightarrow>
      (\<exists>command t inp. cleanupRemote iid = Some command \<and> (t, inp) \<in> set tr \<and> install_runs t = Some (command, []) \<and>
        (in_ran inp \<or> \<not> in_reconnected inp \<or>
         (\<exists>e k inp'. (InstallCleaningAgain p e k, inp') \<in> set tr \<and> install_runs (InstallCleaningAgain p e k) = Some (command, []))))) \<and>
    (\<forall>(t, inp)\<in>set tr. \<forall>command content. install_runs t = Some (command, content) \<longrightarrow>
      command = packagesCommand \<or>
      list_all shell_plain command \<and> (Some (command, content) \<in> set (plan_commands p) \<or> cleanupRemote iid = Some command))"
proof -
  obtain environment unit credentials where "renderUnit iid (InstanceImage cfg) = Some unit"
    and p: "p = \<lparr>plan_instance = new_instance now iid (ReqName r),
       plan_commands = remote_commands iid (InstanceImage cfg) (install_files iid environment credentials unit)\<rparr>"
    using assms(1) by (rule install_plan_ok)
  then have safe: "safeUUID iid" "ValidImage (InstanceImage cfg)" by (auto simp: renderUnit_def split: if_splits)
  have pid: "plan_id p = iid" by (simp add: p plan_id_def new_instance_def)
  obtain command where clean: "cleanupRemote iid = Some command" "list_all shell_plain command"
    using plain_shell [OF safeUUID_plain [OF safe(1)]] safe(1)
    by (simp add: cleanupRemote_def Let_def shell_plain_def plain_char_def image_char_def label_char_def ascii_between_def)
  have run: "install_runs (InstallRevoked p e k True) = Some (command, [])" "install_runs (InstallCleaningAgain p e k) = Some (command, [])" for e k
    using clean(1) pid by (simp_all add: install_runs_def)
  show ?thesis
  proof (intro conjI impI ballI)
    assume "d = InstallFinished (Inl e)" "\<exists>q cs inp. (InstallRemote q cs, inp) \<in> set tr"
    with install_trace_follows [OF assms(2)] have "cleaned p tr" by (auto simp: touched_remote_def)
    then obtain e' k inp where c: "(InstallRevoked p e' k True, inp) \<in> set tr"
      "in_ran inp \<or> \<not> in_reconnected inp \<or> (\<exists>e k inp. (InstallCleaningAgain p e k, inp) \<in> set tr)"
      unfolding cleaned_def by blast
    show "\<exists>command t inp. cleanupRemote iid = Some command \<and> (t, inp) \<in> set tr \<and> install_runs t = Some (command, []) \<and>
        (in_ran inp \<or> \<not> in_reconnected inp \<or>
         (\<exists>e k inp'. (InstallCleaningAgain p e k, inp') \<in> set tr \<and> install_runs (InstallCleaningAgain p e k) = Some (command, [])))"
      using c run clean(1) by blast
  next
    fix x assume x: "x \<in> set tr"
    obtain t inp where ti: "x = (t, inp)" by fastforce
    obtain tr' where f: "follows_plan p tr' t" using install_trace_all [OF assms(2)] x ti by blast
    have plan: "list_all shell_plain c" if "Some (c, content) \<in> set (plan_commands p)" for c content
      using remote_commands_plain [OF safe, of environment credentials unit] that by (auto simp: p list_all_iff)
    have "c = packagesCommand \<or> list_all shell_plain c \<and> (Some (c, content) \<in> set (plan_commands p) \<or> cleanupRemote iid = Some c)"
      if "install_runs t = Some (c, content)" for c content
    proof (cases t)
      case (InstallRemote q cs)
      with f that have "Some (c, content) \<in> set (plan_commands p)"
        by (cases cs) (auto simp: install_runs_def dest: set_mono_suffix)
      with plan show ?thesis by blast
    next
      case (InstallRevoked q e k touched)
      with f that clean pid show ?thesis by (auto simp: install_runs_def split: if_splits)
    next
      case (InstallCleaningAgain q e k)
      with f that clean pid show ?thesis by (auto simp: install_runs_def)
    qed (use that in \<open>auto simp: install_runs_def\<close>)
    then show "case x of (t, inp) \<Rightarrow> \<forall>command content. install_runs t = Some (command, content) \<longrightarrow> command = packagesCommand \<or>
        list_all shell_plain command \<and> (Some (command, content) \<in> set (plan_commands p) \<or> cleanupRemote iid = Some command)"
      by (simp add: ti)
  qed
qed


text \<open>An installation whose first command on the machine fails.\<close>

definition quiet_host :: "map_db host" where
  "quiet_host = \<lparr>hub = NewHub, db = empty_db, bus = New_bus\<rparr>"

lemma quiet_publish: "\<exists>w'. install_publish map_badger 1 ty p extra st quiet_host = Some (st, w')"
proof -
  obtain r s where app: "AppendEvent map_badger 1
      \<lparr>EventID = 0, EventType = ty, ResourceID = plan_id p, At = zero_time, Data = (''name'', JStr (plan_name p)) # extra\<rparr> empty_db = (r, s)"
    by fastforce
  show ?thesis
  proof (cases r)
    case (Inr e)
    obtain b where "deliver e New_bus = Some b" using bus_ok_New by (rule deliver_offers)
    with app Inr show ?thesis by (simp add: install_publish_def publish_def Publish_def quiet_host_def)
  qed (use app in \<open>simp add: install_publish_def publish_def Publish_def quiet_host_def\<close>)
qed

definition quiet_step :: "installing \<Rightarrow> installing \<Rightarrow> bool" where
  "quiet_step d d' \<longleftrightarrow> (\<exists>inp w'. install_step map_badger 1 inp d quiet_host = Some (d', w'))"

lemma quiet_stepI: "install_step map_badger 1 inp d quiet_host = Some (d', w') \<Longrightarrow> quiet_step d d'"
  by (auto simp: quiet_step_def)

definition visits :: "plan \<Rightarrow> installing set \<Rightarrow> installing \<Rightarrow> bool" where
  "visits p ds d \<longleftrightarrow> (\<exists>tr. install_trace map_badger p tr d \<and> ds = fst ` set tr)"

lemma visits_ready: "visits p {} (InstallReady p)"
  unfolding visits_def by (intro exI [of _ "[]"]) (simp add: install_trace.ready)

lemma visits_step:
  assumes "visits p ds d" and "quiet_step d d'"
  shows "visits p (insert d ds) d'"
proof -
  obtain tr where "install_trace map_badger p tr d" "ds = fst ` set tr" using assms(1) by (auto simp: visits_def)
  moreover obtain inp w' where "install_step map_badger 1 inp d quiet_host = Some (d', w')" using assms(2) by (auto simp: quiet_step_def)
  ultimately show ?thesis
    unfolding visits_def by (intro exI [of _ "(d, inp) # tr"]) (auto intro: install_trace.step)
qed

lemma quiet_steps:
  "quiet_step (InstallReady p) (InstallEnrolled p)" "quiet_step (InstallEnrolled p) (InstallStarting p)"
  "quiet_step (InstallStarting p) (InstallPackages p)" "quiet_step (InstallPackages p) (InstallRemote p (plan_commands p))"
  "quiet_step (InstallRemote p (c # cs)) (InstallFailing p ErrInstall True)"
  "quiet_step (InstallFailing p e t) (InstallRevoked p e 0 t)" "quiet_step (InstallRevoked p e k t) (InstallCleaned p e k)"
  "quiet_step (InstallCleaned p e k) (InstallDeleting p e k)" "quiet_step (InstallDeleting p e k) (InstallReleasing e k)"
  "quiet_step (InstallReleasing e k) (InstallFinished (Inl e))"
proof -
  show "quiet_step (InstallReady p) (InstallEnrolled p)"
    by (simp add: quiet_step_def install_step_def quiet_host_def PutInstance_def Update_def map_badger_ops empty_db_def)
  show "quiet_step (InstallEnrolled p) (InstallStarting p)" "quiet_step (InstallStarting p) (InstallPackages p)"
    "quiet_step (InstallCleaned p e k) (InstallDeleting p e k)"
    using quiet_publish by (simp_all add: quiet_step_def install_step_def)
  show "quiet_step (InstallFailing p e t) (InstallRevoked p e 0 t)"
    by (simp add: quiet_step_def install_step_def quiet_host_def hub_eval)
  obtain s where "DeleteInstance map_badger 1 (plan_id p) empty_db = (Inl ErrNotFound, s)"
    using map_db.delete_missing [of empty_db "plan_id p" 1] registry_ok_empty
    by (cases "DeleteInstance map_badger 1 (plan_id p) empty_db") simp
  then show "quiet_step (InstallDeleting p e k) (InstallReleasing e k)"
    by (simp add: quiet_step_def install_step_def quiet_host_def)
  show "quiet_step (InstallRemote p (c # cs)) (InstallFailing p ErrInstall True)"
    by (rule quiet_stepI [where inp = "\<lparr>in_ran = False, in_cancelled = False, in_timeout = False, in_reconnected = False\<rparr>"])
      (cases c; simp add: install_step_def)
  show "quiet_step (InstallPackages p) (InstallRemote p (plan_commands p))"
    by (rule quiet_stepI [where inp = "\<lparr>in_ran = True, in_cancelled = False, in_timeout = False, in_reconnected = False\<rparr>"]) (simp add: install_step_def)
  show "quiet_step (InstallRevoked p e k t) (InstallCleaned p e k)"
    by (rule quiet_stepI [where inp = "\<lparr>in_ran = True, in_cancelled = False, in_timeout = False, in_reconnected = False\<rparr>"]) (simp add: install_step_def)
qed (simp_all add: quiet_step_def install_step_def)

lemma example_failing_trace:
  assumes "plan_commands p = c # cs"
  obtains tr inp where "install_trace map_badger p tr (InstallFinished (Inl ErrInstall))" and "(InstallRemote p (c # cs), inp) \<in> set tr"
proof -
  note remote = visits_step [OF visits_step [OF visits_step [OF visits_step [OF visits_ready
    quiet_steps(1)] quiet_steps(2)] quiet_steps(3)] quiet_steps(4), of p, unfolded assms]
  note all = visits_step [OF visits_step [OF visits_step [OF visits_step [OF visits_step [OF visits_step [OF remote
    quiet_steps(5)] quiet_steps(6)] quiet_steps(7)] quiet_steps(8)] quiet_steps(9)] quiet_steps(10)]
  then obtain tr where tr: "install_trace map_badger p tr (InstallFinished (Inl ErrInstall))" "InstallRemote p (c # cs) \<in> fst ` set tr"
    unfolding visits_def by blast
  from tr(2) obtain x where "x \<in> set tr" "fst x = InstallRemote p (c # cs)" by fastforce
  with tr(1) that [of tr "snd x"] show ?thesis by (metis prod.collapse)
qed

theorem touched_remote_cleaned_witness:
  "\<exists>callback p tr command t inp. install_plan example_ssh example_config False 5 example_uuid callback example_request = Inr p \<and>
     install_trace map_badger p tr (InstallFinished (Inl ErrInstall)) \<and>
     cleanupRemote example_uuid = Some command \<and> (t, inp) \<in> set tr \<and> install_runs t = Some (command, [])"
proof -
  obtain callback slots p where plan: "install_plan example_ssh example_config False 5 example_uuid callback example_request = Inr p"
    by (rule example_plan)
  from plan obtain c cs where "plan_commands p = c # cs"
    by (rule install_plan_ok) (simp add: remote_commands_def)
  then obtain tr inp where tr: "install_trace map_badger p tr (InstallFinished (Inl ErrInstall))" and "(InstallRemote p (c # cs), inp) \<in> set tr"
    by (rule example_failing_trace)
  with touched_remote_cleaned [OF plan tr, of ErrInstall] plan show ?thesis by blast
qed

end
