(* ===== verification/PlaneInstalls.thy ===== *)
theory PlaneInstalls
  imports PlaneRuns InstallRuns
begin

text \<open>
  Installations among the other goroutines of the control plane: an installation that returns an
  instance returns an enrolled one that is online, one that fails leaves nothing behind unless the
  database fails too, the instance it removes is cut off throughout, and every installation ends.
\<close>

section \<open>The end of an installation\<close>

context serial_badger
begin

lemma install_finishes:
  assumes w: "world_ok look w" and st: "install_step B now inp d w = Some (InstallFinished (Inr i), w')"
    and d: "\<And>r. d \<noteq> InstallFinished r"
  obtains p where "d = InstallOnline p" and "hub w' = hub w" and "Online (hub w) (plan_id p)"
    and "\<not> blocked_count (hub w) (plan_id p) > 0" and "enrolled (look (db w')) (plan_id p) = Some i"
proof -
  have "\<exists>p. d = InstallOnline p"
  proof (cases d)
    case (InstallRemote p cs)
    with st show ?thesis by (cases cs; cases "hd cs") (auto simp: install_step_def split: if_splits)
  qed (use st d in \<open>auto simp: install_step_def install_publish_def waitOnline_def split: sum.splits prod.splits if_splits\<close>)
  then obtain p where p: "d = InstallOnline p" by blast
  have reg: "registry_ok (look (db w))" "bus_ok (bus w)" using w by (simp_all add: world_ok_def)
  obtain c where c: "connections (hub w) (plan_id p) = Some c" "\<not> blocked_count (hub w) (plan_id p) > 0" "\<not> closed (conns (hub w) ! c)"
    and ok: "(case lookup_instance B now (plan_id p) (db w) of
        Inl e \<Rightarrow> Some (InstallFailing p ErrInstall True, w)
      | Inr i \<Rightarrow> install_publish B now ''instance.ssh_install.succeeded'' p [] (InstallFinished (Inr i)) w) =
      Some (InstallFinished (Inr i), w')"
    using st p by (auto simp: install_step_def install_succeed_def IfOnline_def split: if_splits option.splits)
  then have i: "enrolled (look (db w)) (plan_id p) = Some i"
    and pub: "install_publish B now ''instance.ssh_install.succeeded'' p [] (InstallFinished (Inr i)) w = Some (InstallFinished (Inr i), w')"
    by (auto simp: lookup_enrolled [OF reg(1)] install_publish_def split: option.splits)
  obtain s b where "publish B now ''instance.ssh_install.succeeded'' (plan_id p) [(''name'', JStr (plan_name p))] (db w, bus w) = Some (s, b)"
    "keeps_registry (Some (plan_id p)) (look (db w)) (look s)" using reg by (rule publish_keeps)
  with pub have "hub w' = hub w" "enrolled (look (db w')) = enrolled (look (db w))"
    by (auto simp: install_publish_def keeps_registry_def)
  with p c i show ?thesis by (intro that) (auto simp: Online_def)
qed

text \<open>An instance that is not enrolled stays so while nobody enrols it.\<close>

definition unenrolled :: "string \<Rightarrow> 'a system \<Rightarrow> bool" where
  "unenrolled iid \<sigma> \<longleftrightarrow> plane_ok look \<sigma> \<and> enrolled (look (db (fst \<sigma>))) iid = None"

lemma unenrolled_step:
  assumes g: "unenrolled iid \<sigma>" and e: "\<forall>t\<in>set (snd \<sigma>). iid \<notin> enrols t" and st: "sys_step B look \<sigma> \<sigma>'"
  shows "unenrolled iid \<sigma>'"
proof -
  have ok: "plane_ok look \<sigma>" using g by (simp add: unenrolled_def)
  from ok st have "enrolled (look (db (fst \<sigma>'))) iid = None"
  proof (cases rule: step_registry)
    case progress
    show ?thesis
    proof (cases "enrolled (look (db (fst \<sigma>'))) iid")
      case (Some i)
      with progress g e show ?thesis unfolding progress_def unenrolled_def by fastforce
    qed simp
  next
    case (removes jid)
    with g show ?thesis by (simp add: removes_def unenrolled_def)
  qed
  with plane_ok_step [OF ok st] show ?thesis by (simp add: unenrolled_def)
qed

lemma unenrolled_reach:
  assumes "reach B look (\<lambda>\<sigma>. \<forall>t\<in>set (snd \<sigma>). iid \<notin> enrols t) \<sigma> \<sigma>'" and "unenrolled iid \<sigma>"
  shows "unenrolled iid \<sigma>'"
  using assms by (rule reach_induct_invariant) (rule unenrolled_step)

lemma unenrolled_offline: "unenrolled iid \<sigma> \<Longrightarrow> \<not> Online (hub (fst \<sigma>)) iid"
  by (cases \<sigma>) (auto simp: unenrolled_def plane_ok_def world_ok_def Online_def split: option.splits)

text \<open>The deletion of a rollback, when the database does not fail.\<close>

lemma rollback_deletes:
  assumes ok: "plane_ok look (w, ts)" and i: "i < length ts" and t: "ts ! i = Installing (InstallDeleting p e k)"
    and st: "thread_step B now inp (ts ! i) w = Some (t', out, w')"
    and good: "fst (DeleteInstance B now (plan_id p) (db w)) \<in> insert (Inl ErrNotFound) (range Inr)"
  shows "unenrolled (plan_id p) (w', ts[i := t'])"
proof -
  have reg: "registry_ok (look (db w))" using plane_okD(1) [OF ok] by (simp add: world_ok_def)
  obtain r s where del: "DeleteInstance B now (plan_id p) (db w) = (r, s)" by fastforce
  have "enrolled (look s) (plan_id p) = None"
  proof (cases r)
    case (Inl x)
    with good del have "x = ErrNotFound" by auto
    then have "delete_attempts 8 B now (plan_id p) (db w) = (Inl ErrNotFound, s)" using del Inl by (simp add: DeleteInstance_def)
    with delete_attempts_missing [OF reg] delete_attempts_error show ?thesis by metis
  next
    case (Inr x)
    with DeleteInstance_refines [OF reg] del show ?thesis by auto
  qed
  moreover have "db w' = s" using st t del by (auto simp: thread_step_def install_step_def split: sum.splits)
  moreover have "plane_ok look (w', ts[i := t'])" by (rule plane_ok_run [OF ok i run_done [OF ok i st]])
  ultimately show ?thesis by (simp add: unenrolled_def)
qed

end

text \<open>An enrolled installation of \<open>p\<close> before the deletion of its rollback, and one after it.\<close>

fun before_delete :: "plan \<Rightarrow> installing \<Rightarrow> bool" where
  "before_delete p (InstallEnrolled q) = (q = p)"
| "before_delete p (InstallStarting q) = (q = p)"
| "before_delete p (InstallPackages q) = (q = p)"
| "before_delete p (InstallRemote q cs) = (q = p)"
| "before_delete p (InstallWaiting q) = (q = p)"
| "before_delete p (InstallOnline q) = (q = p)"
| "before_delete p (InstallFailing q e touched) = (q = p)"
| "before_delete p (InstallRevoked q e k touched) = (q = p)"
| "before_delete p (InstallCleaningAgain q e k) = (q = p)"
| "before_delete p (InstallCleaned q e k) = (q = p)"
| "before_delete p (InstallDeleting q e k) = (q = p)"
| "before_delete p _ = False"

fun after_delete :: "installing \<Rightarrow> bool" where
  "after_delete (InstallDeleted p e k) = True"
| "after_delete (InstallReleasing e k) = True"
| "after_delete (InstallFinished (Inl e)) = True"
| "after_delete _ = False"

lemma install_step_before:
  assumes d: "before_delete p d" and st: "install_step B now inp d w = Some (d', w')"
  shows "before_delete p d' \<or> (\<exists>e k. d = InstallDeleting p e k) \<or> (\<exists>i. d' = InstallFinished (Inr i))"
proof (cases d)
  case (InstallRemote q cs)
  with d st show ?thesis by (cases cs; cases "hd cs") (auto simp: install_step_def split: if_splits)
next
  case (InstallOnline q)
  with d st show ?thesis
    by (auto simp: install_step_def install_succeed_def IfOnline_def install_publish_def split: if_splits option.splits sum.splits)
qed (use d st in \<open>auto simp: install_step_def install_publish_def waitOnline_def split: sum.splits prod.splits if_splits\<close>)

lemma install_step_after: "after_delete d \<Longrightarrow> install_step B now inp d w = Some (d', w') \<Longrightarrow> after_delete d'"
  by (cases d rule: after_delete.cases) (auto simp: install_step_def install_publish_def)

lemma install_step_deleting:
  "install_step B now inp (InstallDeleting p e k) w = Some (d', w') \<Longrightarrow> after_delete d'"
  by (auto simp: install_step_def split: sum.splits prod.splits)

text \<open>
  The restriction on a run: nobody enrols the identifier, and when thread \<open>i\<close> comes to the deletion of its
  rollback the database lets it delete, or has no such instance.
\<close>

definition rollback_possible :: "'db badger \<Rightarrow> nat \<Rightarrow> string \<Rightarrow> 'db system \<Rightarrow> bool" where
  "rollback_possible B i iid \<sigma> \<longleftrightarrow> (\<forall>t\<in>set (snd \<sigma>). iid \<notin> enrols t) \<and>
     (\<forall>q e k now. snd \<sigma> ! i = Installing (InstallDeleting q e k) \<longrightarrow>
        fst (DeleteInstance B now iid (db (fst \<sigma>))) \<in> insert (Inl ErrNotFound) (range Inr))"

context serial_badger
begin

definition rolling_back :: "nat \<Rightarrow> plan \<Rightarrow> 'a system \<Rightarrow> bool" where
  "rolling_back i p \<sigma> \<longleftrightarrow> plane_ok look \<sigma> \<and> i < length (snd \<sigma>) \<and> (\<exists>d. snd \<sigma> ! i = Installing d \<and>
     (before_delete p d \<or> after_delete d \<and> enrolled (look (db (fst \<sigma>))) (plan_id p) = None \<or> (\<exists>x. d = InstallFinished (Inr x))))"

lemma rolling_back_other:
  assumes g: "rolling_back i p \<sigma>" and e: "\<forall>t\<in>set (snd \<sigma>). plan_id p \<notin> enrols t" and st: "sys_step B look \<sigma> \<sigma>'"
    and same: "snd \<sigma>' ! i = snd \<sigma> ! i" and len: "i < length (snd \<sigma>')"
  shows "rolling_back i p \<sigma>'"
proof -
  have "enrolled (look (db (fst \<sigma>'))) (plan_id p) = None" if "enrolled (look (db (fst \<sigma>))) (plan_id p) = None"
    using unenrolled_step [OF _ e st] g that by (simp add: unenrolled_def rolling_back_def)
  with g same len plane_ok_step [OF _ st] show ?thesis by (auto simp: rolling_back_def)
qed

lemma rolling_back_self:
  assumes g: "rolling_back i p (w, ts)" and possible: "rollback_possible B i (plan_id p) (w, ts)"
    and st: "thread_step B now inp (ts ! i) w = Some (t, out, w')"
  shows "rolling_back i p (w', ts[i := t])"
proof -
  obtain d where d: "ts ! i = Installing d" and i: "i < length ts" and ok: "plane_ok look (w, ts)"
    and at: "before_delete p d \<or> after_delete d \<and> enrolled (look (db w)) (plan_id p) = None \<or> (\<exists>x. d = InstallFinished (Inr x))"
    using g by (auto simp: rolling_back_def)
  obtain d' where t: "t = Installing d'" and ins: "install_step B now (in_remote inp) d w = Some (d', w')"
    using st d by (auto simp: thread_step_def)
  have step: "sys_step B look (w, ts) (w', ts[i := t])" using i st by (rule sys_step.run)
  have ok': "plane_ok look (w', ts[i := t])" by (rule plane_ok_step [OF ok step])
  have "before_delete p d' \<or> after_delete d' \<and> enrolled (look (db w')) (plan_id p) = None \<or> (\<exists>x. d' = InstallFinished (Inr x))"
    using at
  proof (elim disjE)
    assume before: "before_delete p d"
    show ?thesis
    proof (cases "\<exists>e k. d = InstallDeleting p e k")
      case True
      then obtain e k where del: "d = InstallDeleting p e k" by blast
      have "unenrolled (plan_id p) (w', ts[i := t])"
        using possible d del by (intro rollback_deletes [OF ok i _ st]) (auto simp: rollback_possible_def)
      then show ?thesis using install_step_deleting [OF ins [unfolded del]] by (simp add: unenrolled_def)
    next
      case False
      with install_step_before [OF before ins] show ?thesis by blast
    qed
  next
    assume after: "after_delete d \<and> enrolled (look (db w)) (plan_id p) = None"
    have "unenrolled (plan_id p) (w', ts[i := t])"
      using possible after ok by (intro unenrolled_step [OF _ _ step]) (auto simp: rollback_possible_def unenrolled_def)
    then show ?thesis using install_step_after [OF _ ins] after by (simp add: unenrolled_def)
  next
    assume "\<exists>x. d = InstallFinished (Inr x)"
    then show ?thesis using ins by (auto simp: install_step_def)
  qed
  with ok' i t show ?thesis by (simp add: rolling_back_def)
qed

lemma rolling_back_step:
  assumes possible: "rollback_possible B i (plan_id p) \<sigma>" and g: "rolling_back i p \<sigma>" and st: "sys_step B look \<sigma> \<sigma>'"
  shows "rolling_back i p \<sigma>'"
  using st
proof (cases rule: sys_step.cases)
  case (run j ts now inp w t out w')
  show ?thesis
  proof (cases "j = i")
    case True
    with run g possible show ?thesis using rolling_back_self by blast
  next
    case False
    with run g possible st show ?thesis by (intro rolling_back_other [OF g _ st]) (auto simp: rollback_possible_def rolling_back_def)
  qed
qed (use g possible in \<open>intro rolling_back_other [OF g _ st]; auto simp: rollback_possible_def rolling_back_def nth_append\<close>)+

lemma rolled_back_reach:
  assumes "reach B look (rollback_possible B i (plan_id p)) \<sigma> \<sigma>'" and "rolling_back i p \<sigma>"
  shows "rolling_back i p \<sigma>'"
  using assms by (rule reach_induct_invariant) (rule rolling_back_step)

end


section \<open>Installations end\<close>

text \<open>A bound on the steps an installation has left, once its timer has fired.\<close>

fun install_rank :: "installing \<Rightarrow> nat" where
  "install_rank (InstallReady p) = 14 + length (plan_commands p)"
| "install_rank (InstallEnrolled p) = 13 + length (plan_commands p)"
| "install_rank (InstallStarting p) = 12 + length (plan_commands p)"
| "install_rank (InstallPackages p) = 11 + length (plan_commands p)"
| "install_rank (InstallRemote p cs) = 10 + length cs"
| "install_rank (InstallWaiting p) = 9"
| "install_rank (InstallOnline p) = 8"
| "install_rank (InstallFailing p e touched) = 7"
| "install_rank (InstallRevoked p e k touched) = 6"
| "install_rank (InstallCleaningAgain p e k) = 5"
| "install_rank (InstallCleaned p e k) = 4"
| "install_rank (InstallDeleting p e k) = 3"
| "install_rank (InstallDeleted p e k) = 2"
| "install_rank (InstallReleasing e k) = 1"
| "install_rank (InstallFinished r) = 0"

lemma install_rank_0: "install_rank d = 0 \<longleftrightarrow> (\<exists>r. d = InstallFinished r)"
  by (cases d) simp_all

lemma install_step_rank:
  assumes st: "install_step B now inp d w = Some (d', w')" and timer: "in_timeout inp"
  shows "install_rank d' \<le> install_rank d - 1"
proof (cases d)
  case (InstallRemote p cs)
  with st show ?thesis by (cases cs; cases "hd cs") (auto simp: install_step_def split: if_splits)
next
  case (InstallOnline p)
  with st show ?thesis
    by (auto simp: install_step_def install_succeed_def IfOnline_def install_publish_def split: if_splits option.splits sum.splits)
qed (use st timer in \<open>auto simp: install_step_def install_publish_def waitOnline_def split: sum.splits prod.splits if_splits\<close>)

text \<open>The steps a schedule gives to a thread.\<close>

definition turns :: "nat \<Rightarrow> (nat \<times> instant \<times> thread_input) list \<Rightarrow> nat" where
  "turns i xs = length (filter (\<lambda>x. fst x = i) xs)"

lemma turns_simps [simp]:
  "turns i [] = 0" "turns i (x # xs) = (if fst x = i then Suc (turns i xs) else turns i xs)"
  by (simp_all add: turns_def)

context serial_badger
begin

lemma install_exec:
  assumes "plane_ok look (w, ts)" and "i < length ts" and "ts ! i = Installing d"
    and "\<forall>(j, now, inp)\<in>set xs. j < length ts \<and> (j = i \<longrightarrow> in_timeout (in_remote inp))"
  shows "\<exists>out w' ts' d'. sys_exec B xs w ts = Some (out, w', ts') \<and> ts' ! i = Installing d' \<and>
    install_rank d' \<le> install_rank d - turns i xs"
  using assms
proof (induction xs arbitrary: w ts d)
  case Nil
  then show ?case by simp
next
  case (Cons x xs)
  obtain j now inp where x: "x = (j, now, inp)" by (cases x)
  have j: "j < length ts" and timer: "j = i \<Longrightarrow> in_timeout (in_remote inp)" using Cons.prems(4) x by auto
  have "world_ok look w" "thread_ok (hub w) (enrolled (look (db w))) (ts ! j)"
    using Cons.prems(1) j by (auto intro: plane_okD)
  then obtain t out w' where st: "thread_step B now inp (ts ! j) w = Some (t, out, w')" and td: "thread_done w (ts ! j) w' t"
    using thread_step_done by blast
  have ok: "plane_ok look (w', ts[j := t])" by (rule plane_ok_run [OF Cons.prems(1) j td])
  obtain d1 where d1: "ts[j := t] ! i = Installing d1" "install_rank d1 \<le> install_rank d - (if j = i then 1 else 0)"
  proof (cases "j = i")
    case True
    with st Cons.prems(3) obtain d1 where "t = Installing d1" "install_step B now (in_remote inp) d w = Some (d1, w')"
      by (auto simp: thread_step_def)
    with True Cons.prems(2) install_step_rank [OF _ timer] show ?thesis by (intro that [of d1]) auto
  qed (use Cons.prems(3) that in auto)
  from Cons.IH [OF ok _ d1(1)] Cons.prems(2,4) obtain out' w'' ts' d' where
    "sys_exec B xs w' (ts[j := t]) = Some (out', w'', ts')" "ts' ! i = Installing d'"
    "install_rank d' \<le> install_rank d1 - turns i xs" by auto
  with st x j d1(2) show ?case by auto
qed

end


section \<open>What the control plane guarantees of installations\<close>

text \<open>An installation of the instance \<open>a\<close>, with an input that lets every step succeed and one that lets every step fail.\<close>

definition example_install :: plan where
  "example_install = \<lparr>plan_instance = new_instance 1 ''a'' ''a'', plan_commands = []\<rparr>"

definition failing_input :: thread_input where
  "failing_input = example_input\<lparr>in_remote := \<lparr>in_ran = False, in_cancelled = False, in_timeout = True, in_reconnected = False\<rparr>\<rparr>"

lemma example_install_simps [simp]:
  "plan_id example_install = ''a''" "plan_instance example_install = new_instance 1 ''a'' ''a''"
  "plan_commands example_install = []" "initial (Installing (InstallReady example_install))"
  "ID (new_instance now iid name) = iid" "Name (new_instance now iid name) = name" "CreatedAt (new_instance now iid name) = now"
  by (simp_all add: example_install_def plan_id_def new_instance_def)

lemma example_input_simps [simp]:
  "in_ran (in_remote example_input)" "\<not> in_cancelled (in_remote example_input)"
  "\<not> in_ran (in_remote failing_input)" "in_timeout (in_remote failing_input)"
  by (simp_all add: example_input_def failing_input_def)

lemma AppendEvent_conflicts: "conflicts s = 0 \<Longrightarrow> conflicts (snd (AppendEvent map_badger now e s)) = 0"
  by (simp add: AppendEvent_def Update_def map_badger_ops setUint64_def Let_def)

lemma publish_conflicts:
  assumes "conflicts s = 0" and "publish map_badger now ty rid d (s, b) = Some (s', b')"
  shows "conflicts s' = 0"
proof -
  obtain r s1 where app: "AppendEvent map_badger now \<lparr>EventID = 0, EventType = ty, ResourceID = rid, At = zero_time, Data = d\<rparr> s = (r, s1)"
    by fastforce
  with assms(2) have "s' = s1" by (auto simp: publish_def Publish_def split: sum.splits option.splits)
  with app AppendEvent_conflicts [OF assms(1)] show ?thesis by (metis snd_conv)
qed

lemma example_publish:
  assumes v: "world_ok map_look v" and c: "conflicts (db v) = 0"
  obtains v' where "install_publish map_badger now ty p extra st v = Some (st, v')" and "world_ok map_look v'" and "hub v' = hub v"
    and "enrolled (map_look (db v')) = enrolled (map_look (db v))" and "conflicts (db v') = 0"
proof -
  have "registry_ok (map_look (db v))" "bus_ok (bus v)" using v by (simp_all add: world_ok_def)
  then obtain s b where pub: "publish map_badger now ty (plan_id p) ((''name'', JStr (plan_name p)) # extra) (db v, bus v) = Some (s, b)"
    and "bus_ok b" "keeps_registry (Some (plan_id p)) (map_look (db v)) (map_look s)" by (rule map_db.publish_keeps)
  with v publish_conflicts [OF c pub] show ?thesis
    by (intro that [of "v\<lparr>db := s, bus := b\<rparr>"]) (auto simp: install_publish_def keeps_registry_def world_ok_def)
qed

lemma example_install_begins:
  assumes w: "world_ok map_look w" and c: "conflicts (db w) = 0" and i: "i < length ts" "ts ! i = Installing (InstallReady example_install)"
  obtains w' where "sys_exec map_badger [(i, 11, inp), (i, 12, inp), (i, 13, inp)] w ts =
      Some ([], w', ts[i := Installing (InstallPackages example_install)])"
    and "world_ok map_look w'" and "hub w' = hub w" and "enrolled (map_look (db w')) ''a'' = Some (new_instance 1 ''a'' ''a'')"
    and "conflicts (db w') = 0"
proof -
  let ?p = example_install
  have reg: "registry_ok (map_look (db w))" using w by (simp add: world_ok_def)
  obtain s where put: "PutInstance map_badger (new_instance 1 ''a'' ''a'') (db w) = (Inr (), s)" "conflicts s = 0"
    using c by (simp add: registry_eval PutInstance_def)
  have "registry_ok (map_look s)" "enrolled (map_look s) = (enrolled (map_look (db w)))(''a'' \<mapsto> new_instance 1 ''a'' ''a'')"
    using map_db.PutInstance_refines [OF reg put(1)] by (simp_all add: new_instance_def)
  then have w1: "world_ok map_look (w\<lparr>db := s\<rparr>)" "enrolled (map_look s) ''a'' = Some (new_instance 1 ''a'' ''a'')"
    using w by (auto simp: world_ok_def)
  have "conflicts (db (w\<lparr>db := s\<rparr>)) = 0" using put(2) by simp
  with w1(1) obtain w2 where
    w2: "install_publish map_badger 12 ''instance.enrolled'' ?p [(''method'', JStr ''ssh'')] (InstallStarting ?p) (w\<lparr>db := s\<rparr>) = Some (InstallStarting ?p, w2)"
      "world_ok map_look w2" "hub w2 = hub (w\<lparr>db := s\<rparr>)" "enrolled (map_look (db w2)) = enrolled (map_look (db (w\<lparr>db := s\<rparr>)))"
      "conflicts (db w2) = 0" by (rule example_publish)
  obtain w3 where
    w3: "install_publish map_badger 13 ''instance.ssh_install.started'' ?p [] (InstallPackages ?p) w2 = Some (InstallPackages ?p, w3)"
      "world_ok map_look w3" "hub w3 = hub w2" "enrolled (map_look (db w3)) = enrolled (map_look (db w2))" "conflicts (db w3) = 0"
    using w2(2,5) by (rule example_publish)
  show ?thesis
    by (rule that [of w3]) (use i put w1(2) w2 w3 in \<open>simp_all add: thread_step_def install_step_def\<close>)
qed

text \<open>
  C6.  A successful installation is one: in every run of the control plane, when an installation returns
  an instance, that instance is enrolled under the identifier of the installation, it is online and no
  deletion of it is under way.
\<close>

theorem installed_instance_online:
  assumes "serial_badger B look rely" and "registry_ok (look s)"
    and "reach B look (\<lambda>_. True) (start s, []) (w, ts)"
    and "i < length ts" and "ts ! i = Installing d" and "install_rank d > 0"
    and "thread_step B now inp (ts ! i) w = Some (Installing (InstallFinished (Inr inst)), out, w')"
  shows "\<exists>p. d = InstallOnline p \<and> enrolled (look (db w')) (plan_id p) = Some inst \<and> ID inst = plan_id p \<and>
    Online (hub w') (plan_id p) \<and> blocked_count (hub w') (plan_id p) = 0"
proof -
  note sb = assms(1)
  have ok: "plane_ok look (w, ts)"
    using serial_badger.plane_ok_reach [OF sb assms(3) start_ok [of look s, OF assms(2)]] .
  have st: "install_step B now (in_remote inp) d w = Some (InstallFinished (Inr inst), w')"
    using assms(5,7) by (auto simp: thread_step_def)
  have "d \<noteq> InstallFinished r" for r using assms(6) by auto
  then obtain p where p: "d = InstallOnline p" "hub w' = hub w" "Online (hub w) (plan_id p)"
    "\<not> blocked_count (hub w) (plan_id p) > 0" "enrolled (look (db w')) (plan_id p) = Some inst"
    using serial_badger.install_finishes [OF sb plane_okD(1) [OF ok] st] by metis
  have "world_ok look w'"
    using serial_badger.run_done [OF sb ok assms(4,7)] by (simp add: serial_badger.thread_done_def [OF sb])
  then have "ID inst = plan_id p" "hub_ok (hub w')" using p(5) enrolled_cell(2) by (auto simp: world_ok_def)
  with p show ?thesis by (auto simp: hub_ok_def revoked_ok_def)
qed

text \<open>The agent \<open>a\<close> is connected, and its installation, which found it so, is about to return.\<close>

lemma example_connected:
  obtains w t where "reach map_badger map_look (\<lambda>_. True) (start (example_registry 0), []) (w, [t])"
    and "Online (hub w) ''a''" and "conflicts (db w) = 0"
proof -
  obtain s c where ex: "sys_exec map_badger [(0, 5, example_input), (0, 6, example_input), (0, 7, example_input)]
      (start (example_registry 0)) [Connecting Accepting] = Some ([], \<lparr>hub = example_h2, db = s, bus = New_bus\<rparr>, [Connecting (Attached c)])"
    and "conflicts s = 0"
    by (rule example_connects)
  moreover have "Online example_h2 ''a''" by (simp add: Online_def example_h1_def example_h2_def hub_eval)
  moreover have "reach map_badger map_look (\<lambda>_. True) (start (example_registry 0), []) (start (example_registry 0), [Connecting Accepting])"
    by (rule reach_spawn1) simp_all
  ultimately show ?thesis
    by (intro that [of "\<lparr>hub = example_h2, db = s, bus = New_bus\<rparr>" "Connecting (Attached c)"] reach_trans [OF _ sys_exec_reach [OF ex]]) simp_all
qed

lemma example_installing:
  obtains w t where "reach map_badger map_look (\<lambda>_. True) (start (example_registry 0), []) (w, [t, Installing (InstallOnline example_install)])"
    and "Online (hub w) ''a''" and "enrolled (map_look (db w)) ''a'' = Some (new_instance 1 ''a'' ''a'')" and "world_ok map_look w"
proof -
  let ?p = example_install and ?R = "reach map_badger map_look (\<lambda>_. True)"
  obtain w t where r: "?R (start (example_registry 0), []) (w, [t])" and on: "Online (hub w) ''a''" and c: "conflicts (db w) = 0"
    by (rule example_connected)
  have sp: "?R (start (example_registry 0), []) (w, [t, Installing (InstallReady ?p)])"
    using reach.step [OF r _ sys_step.spawn [of "Installing (InstallReady ?p)"]] by simp
  have "world_ok map_look w"
    using map_db.plane_ok_reach [OF sp start_ok [of map_look, OF example_registry_ok(1)]] by (rule plane_okD)
  then obtain w1 where one: "sys_exec map_badger [(1, 11, example_input), (1, 12, example_input), (1, 13, example_input)] w [t, Installing (InstallReady ?p)] =
      Some ([], w1, [t, Installing (InstallReady ?p)][1 := Installing (InstallPackages ?p)])"
    and w1: "world_ok map_look w1" "hub w1 = hub w" "enrolled (map_look (db w1)) ''a'' = Some (new_instance 1 ''a'' ''a'')"
    using example_install_begins [OF _ c, of 1 "[t, Installing (InstallReady ?p)]" example_input] by auto
  have "sys_exec map_badger [(1, 14, example_input), (1, 15, example_input), (1, 16, example_input)] w1 [t, Installing (InstallPackages ?p)] =
      Some ([], w1, [t, Installing (InstallOnline ?p)])"
    using on w1(2) by (simp add: thread_step_def install_step_def waitOnline_def)
  from reach_trans [OF sp reach_trans [OF sys_exec_reach [OF one]]] sys_exec_reach [OF this] w1 on show ?thesis
    by (intro that [of w1 t]) auto
qed

theorem installed_instance_online_witness:
  "\<exists>w ts w'. reach map_badger map_look (\<lambda>_. True) (start (example_registry 0), []) (w, ts) \<and>
     thread_step map_badger 17 example_input (ts ! 1) w = Some (Installing (InstallFinished (Inr (new_instance 1 ''a'' ''a''))), [], w') \<and>
     Online (hub w') ''a'' \<and> enrolled (map_look (db w')) ''a'' = Some (new_instance 1 ''a'' ''a'')"
proof -
  let ?p = example_install and ?i = "new_instance 1 ''a'' ''a''"
  obtain w t where r: "reach map_badger map_look (\<lambda>_. True) (start (example_registry 0), []) (w, [t, Installing (InstallOnline ?p)])"
    and on: "Online (hub w) ''a''" and enr: "enrolled (map_look (db w)) ''a'' = Some ?i" and w: "world_ok map_look w"
    by (rule example_installing)
  have free: "\<not> blocked_count (hub w) ''a'' > 0"
    using w on by (auto simp: world_ok_def hub_ok_def revoked_ok_def Online_def split: option.splits)
  have "lookup_instance map_badger 17 ''a'' (db w) = Inr ?i"
    using w enr map_db.lookup_enrolled [of "db w" 17 "''a''"] by (simp add: world_ok_def)
  moreover obtain w' where "install_publish map_badger 17 ''instance.ssh_install.succeeded'' ?p [] (InstallFinished (Inr ?i)) w =
      Some (InstallFinished (Inr ?i), w')" using w by (rule map_db.install_publish_sound)
  ultimately have st: "thread_step map_badger 17 example_input ([t, Installing (InstallOnline ?p)] ! 1) w =
      Some (Installing (InstallFinished (Inr ?i)), [], w')"
    using on free by (auto simp: thread_step_def install_step_def install_succeed_def IfOnline_def Online_def split: option.splits)
  from installed_instance_online [OF map_db.serial_badger_axioms example_registry_ok(1) r _ _ _ st] r st
  show ?thesis by (intro exI [of _ w] exI [of _ "[t, Installing (InstallOnline ?p)]"] exI [of _ w']) auto
qed

text \<open>
  C2.  A failed installation leaves nothing behind: take any run of the control plane in which a goroutine
  has enrolled the instance of its installation, and any way it can go on, whatever the other goroutines
  and the agent already started on the remote machine do, as long as nobody enrols the same identifier and
  the database does not refuse the deletion of the rollback for a reason of its own.  Whenever the
  installation has returned an error, the instance is not enrolled and offline.
\<close>

theorem failed_install_rolled_back:
  assumes "serial_badger B look rely" and "registry_ok (look s)"
    and "reach B look (\<lambda>_. True) (start s, []) (w, ts)"
    and "i < length ts" and "ts ! i = Installing (InstallEnrolled p)"
    and "reach B look (rollback_possible B i (plan_id p)) (w, ts) (w', ts')"
    and "ts' ! i = Installing (InstallFinished (Inl e))"
  shows "enrolled (look (db w')) (plan_id p) = None \<and> \<not> Online (hub w') (plan_id p)"
proof -
  note sb = assms(1)
  have "plane_ok look (w, ts)"
    using serial_badger.plane_ok_reach [OF sb assms(3) start_ok [of look s, OF assms(2)]] .
  then have "serial_badger.rolling_back look i p (w, ts)"
    using assms(4,5) by (simp add: serial_badger.rolling_back_def [OF sb])
  from serial_badger.rolled_back_reach [OF sb assms(6) this]
  have "serial_badger.unenrolled look (plan_id p) (w', ts')"
    using assms(7) by (auto simp: serial_badger.rolling_back_def [OF sb] serial_badger.unenrolled_def [OF sb])
  then show ?thesis
    using serial_badger.unenrolled_offline [OF sb] by (fastforce simp: serial_badger.unenrolled_def [OF sb])
qed

text \<open>The packages of the installation of \<open>a\<close> cannot be installed.\<close>

lemma rolling_step:
  assumes "reach map_badger map_look (rollback_possible map_badger 0 ''a'') x (w, [Installing d])"
    and "\<And>p. d \<noteq> InstallReady p" and "\<And>p e k. d \<noteq> InstallDeleting p e k"
    and "install_step map_badger now (in_remote failing_input) d w = Some (d', w')"
  shows "reach map_badger map_look (rollback_possible map_badger 0 ''a'') x (w', [Installing d'])"
proof -
  have "enrols (Installing d) = {}" using assms(2) by (cases d) auto
  then have "rollback_possible map_badger 0 ''a'' (w, [Installing d])" using assms(3) by (simp add: rollback_possible_def)
  moreover have "sys_step map_badger map_look (w, [Installing d]) (w', [Installing d][0 := Installing d'])"
    using assms(4) by (intro sys_step.run) (simp_all add: thread_step_def)
  ultimately show ?thesis using assms(1) by (auto intro: reach.step)
qed

lemma example_enrolled:
  obtains w where "reach map_badger map_look (\<lambda>_. True) (start empty_db, []) (w, [Installing (InstallEnrolled example_install)])"
    and "world_ok map_look w" and "hub w = NewHub" and "enrolled (map_look (db w)) ''a'' = Some (new_instance 1 ''a'' ''a'')" and "conflicts (db w) = 0"
proof -
  let ?p = example_install
  have sp: "reach map_badger map_look (\<lambda>_. True) (start empty_db, []) (start empty_db, [Installing (InstallReady ?p)])"
    by (rule reach_spawn1) simp_all
  obtain s where put: "PutInstance map_badger (new_instance 1 ''a'' ''a'') empty_db = (Inr (), s)" "conflicts s = 0"
    by (simp add: registry_eval PutInstance_def empty_db_def)
  have reg: "registry_ok (map_look s)" "enrolled (map_look s) ''a'' = Some (new_instance 1 ''a'' ''a'')"
    using map_db.PutInstance_refines [OF registry_ok_empty(1) put(1)] by simp_all
  have "sys_step map_badger map_look (start empty_db, [Installing (InstallReady ?p)])
      ((start empty_db)\<lparr>db := s\<rparr>, [Installing (InstallReady ?p)][0 := Installing (InstallEnrolled ?p)])"
    using put(1) by (intro sys_step.run) (simp_all add: thread_step_def install_step_def start_def)
  with sp have r: "reach map_badger map_look (\<lambda>_. True) (start empty_db, []) ((start empty_db)\<lparr>db := s\<rparr>, [Installing (InstallEnrolled ?p)])"
    by (auto intro: reach.step)
  from r have "plane_ok map_look ((start empty_db)\<lparr>db := s\<rparr>, [Installing (InstallEnrolled ?p)])"
    by (rule map_db.plane_ok_reach) (rule start_ok [of map_look empty_db, OF registry_ok_empty(1)])
  with r reg put(2) show ?thesis by (intro that) (auto simp: start_def intro: plane_okD)
qed

lemma example_rollback:
  assumes w: "world_ok map_look w" "hub w = NewHub" "enrolled (map_look (db w)) ''a'' = Some (new_instance 1 ''a'' ''a'')" "conflicts (db w) = 0"
  shows "\<exists>w'. reach map_badger map_look (rollback_possible map_badger 0 ''a'') (w, [Installing (InstallEnrolled example_install)])
    (w', [Installing (InstallFinished (Inl ErrInstall))])"
proof -
  let ?p = example_install and ?R = "reach map_badger map_look (rollback_possible map_badger 0 ''a'') (w, [Installing (InstallEnrolled example_install)])"
  obtain w1 where w1: "install_publish map_badger 12 ''instance.enrolled'' ?p [(''method'', JStr ''ssh'')] (InstallStarting ?p) w = Some (InstallStarting ?p, w1)"
    "world_ok map_look w1" "hub w1 = hub w" "enrolled (map_look (db w1)) = enrolled (map_look (db w))" "conflicts (db w1) = 0"
    using w(1,4) by (rule example_publish)
  obtain w2 where w2: "install_publish map_badger 13 ''instance.ssh_install.started'' ?p [] (InstallPackages ?p) w1 = Some (InstallPackages ?p, w2)"
    "world_ok map_look w2" "hub w2 = hub w1" "enrolled (map_look (db w2)) = enrolled (map_look (db w1))" "conflicts (db w2) = 0"
    using w1(2,5) by (rule example_publish)
  define h where "h = snd (the (Revoke ''a'' NewHub))"
  have rev: "Revoke ''a'' (hub w2) = Some (0, h)" using w(2) w1(3) w2(3) by (simp add: h_def hub_eval)
  have "hub_ok h" using hub_step_ok [OF hub_step.revoke [OF rev]] w2(2) by (simp add: world_ok_def)
  moreover have none: "connections h = Map.empty" by (simp add: h_def hub_eval)
  ultimately have "world_ok map_look (w2\<lparr>hub := h\<rparr>)" using w2(2) by (simp add: world_ok_def)
  moreover have "conflicts (db (w2\<lparr>hub := h\<rparr>)) = 0" using w2(5) by simp
  ultimately obtain w3 where w3: "install_publish map_badger 17 ''instance.ssh_install.failed'' ?p [] (InstallDeleting ?p ErrInstall 0) (w2\<lparr>hub := h\<rparr>) =
      Some (InstallDeleting ?p ErrInstall 0, w3)" "world_ok map_look w3" "hub w3 = hub (w2\<lparr>hub := h\<rparr>)"
      "enrolled (map_look (db w3)) = enrolled (map_look (db (w2\<lparr>hub := h\<rparr>)))" "conflicts (db w3) = 0"
    by (rule example_publish)
  have "?R (w1, [Installing (InstallStarting ?p)])"
    by (rule rolling_step [OF reach.refl, of _ 12]) (use w1(1) in \<open>simp_all add: install_step_def\<close>)
  then have "?R (w2, [Installing (InstallPackages ?p)])"
    by (rule rolling_step [of _ _ _ 13]) (use w2(1) in \<open>simp_all add: install_step_def\<close>)
  then have "?R (w2, [Installing (InstallFailing ?p ErrInstall False)])"
    by (rule rolling_step [of _ _ _ 14]) (simp_all add: install_step_def)
  then have "?R (w2\<lparr>hub := h\<rparr>, [Installing (InstallRevoked ?p ErrInstall 0 False)])"
    by (rule rolling_step [of _ _ _ 15]) (use rev in \<open>simp_all add: install_step_def\<close>)
  then have "?R (w2\<lparr>hub := h\<rparr>, [Installing (InstallCleaned ?p ErrInstall 0)])"
    by (rule rolling_step [of _ _ _ 16]) (simp_all add: install_step_def)
  then have at: "?R (w3, [Installing (InstallDeleting ?p ErrInstall 0)])"
    by (rule rolling_step [of _ _ _ 17]) (use w3(1) in \<open>simp_all add: install_step_def\<close>)
  have reg: "registry_ok (map_look (db w3))" "enrolled (map_look (db w3)) ''a'' = Some (new_instance 1 ''a'' ''a'')"
    using w3(2,4) w(3) w1(4) w2(4) by (simp_all add: world_ok_def)
  have del: "\<exists>s. DeleteInstance map_badger now ''a'' (db w3) = (Inr (new_instance 1 ''a'' ''a''), s)" for now
    using map_db.delete_attempts_succeed [OF reg, of 8 now] w3(5) by (cases "DeleteInstance map_badger now ''a'' (db w3)") (auto simp: DeleteInstance_def)
  then obtain s where s: "DeleteInstance map_badger 18 ''a'' (db w3) = (Inr (new_instance 1 ''a'' ''a''), s)" by blast
  have "rollback_possible map_badger 0 ''a'' (w3, [Installing (InstallDeleting ?p ErrInstall 0)])"
    using del by (simp add: rollback_possible_def) (metis fst_conv rangeI)
  moreover have "sys_step map_badger map_look (w3, [Installing (InstallDeleting ?p ErrInstall 0)])
      (w3\<lparr>db := s\<rparr>, [Installing (InstallDeleting ?p ErrInstall 0)][0 := Installing (InstallDeleted ?p ErrInstall 0)])"
    using s by (intro sys_step.run [of _ _ _ 18 failing_input]) (simp_all add: thread_step_def install_step_def)
  ultimately have deleted: "?R (w3\<lparr>db := s\<rparr>, [Installing (InstallDeleted ?p ErrInstall 0)])" using at by (auto intro: reach.step)
  obtain w4 where w4: "install_publish map_badger 19 ''instance.deleted'' ?p [(''rollback'', JBool True)] (InstallReleasing ErrInstall 0) (w3\<lparr>db := s\<rparr>) =
      Some (InstallReleasing ErrInstall 0, w4)"
    by (rule map_db.install_publish_sound [of "w3\<lparr>db := s\<rparr>"]) (use w3(2,3) none map_db.DeleteInstance_refines [OF reg(1) s] in \<open>auto simp: world_ok_def\<close>)
  from deleted have "?R (w4, [Installing (InstallReleasing ErrInstall 0)])"
    by (rule rolling_step [of _ _ _ 19]) (use w4 in \<open>simp_all add: install_step_def\<close>)
  then have "?R (w4\<lparr>hub := release 0 (hub w4)\<rparr>, [Installing (InstallFinished (Inl ErrInstall))])"
    by (rule rolling_step [of _ _ _ 20]) (simp_all add: install_step_def)
  then show ?thesis by blast
qed

theorem failed_install_rolled_back_witness:
  "\<exists>w w'. reach map_badger map_look (\<lambda>_. True) (start empty_db, []) (w, [Installing (InstallEnrolled example_install)]) \<and>
     enrolled (map_look (db w)) ''a'' \<noteq> None \<and>
     reach map_badger map_look (rollback_possible map_badger 0 ''a'') (w, [Installing (InstallEnrolled example_install)])
       (w', [Installing (InstallFinished (Inl ErrInstall))]) \<and>
     enrolled (map_look (db w')) ''a'' = None \<and> \<not> Online (hub w') ''a''"
proof -
  obtain w where r: "reach map_badger map_look (\<lambda>_. True) (start empty_db, []) (w, [Installing (InstallEnrolled example_install)])"
    and w: "world_ok map_look w" "hub w = NewHub" "enrolled (map_look (db w)) ''a'' = Some (new_instance 1 ''a'' ''a'')" "conflicts (db w) = 0"
    by (rule example_enrolled)
  obtain w' where r': "reach map_badger map_look (rollback_possible map_badger 0 ''a'') (w, [Installing (InstallEnrolled example_install)])
      (w', [Installing (InstallFinished (Inl ErrInstall))])" using example_rollback [OF w] by blast
  have "enrolled (map_look (db w')) ''a'' = None \<and> \<not> Online (hub w') ''a''"
    using failed_install_rolled_back [OF map_db.serial_badger_axioms registry_ok_empty(1) r, of 0 example_install w'
        "[Installing (InstallFinished (Inl ErrInstall))]" ErrInstall] r' by simp
  with r r' w(3) show ?thesis by blast
qed

text \<open>
  C5.  Every installation ends: once its timer has fired, in whatever way the other goroutines are
  scheduled between, it returns after at most as many of its own steps as \<open>install_rank\<close> says, which is
  at most 14 more than the commands it has to run; and no goroutine panics on the way.
\<close>

theorem install_terminates:
  assumes "serial_badger B look rely" and "registry_ok (look s)"
    and "reach B look (\<lambda>_. True) (start s, []) (w, ts)"
    and "i < length ts" and "ts ! i = Installing d"
    and "\<forall>(j, now, inp)\<in>set xs. j < length ts \<and> (j = i \<longrightarrow> in_timeout (in_remote inp))"
    and "install_rank d \<le> turns i xs"
  shows "\<exists>out w' ts' r. sys_exec B xs w ts = Some (out, w', ts') \<and> ts' ! i = Installing (InstallFinished r)"
proof -
  have ok: "plane_ok look (w, ts)"
    using serial_badger.plane_ok_reach [OF assms(1,3) start_ok [of look s, OF assms(2)]] .
  from serial_badger.install_exec [OF assms(1) ok assms(4-6)] obtain out w' ts' d' where
    run: "sys_exec B xs w ts = Some (out, w', ts')" "ts' ! i = Installing d'" and "install_rank d' \<le> install_rank d - turns i xs"
    by blast
  with assms(7) have "install_rank d' = 0" by simp
  with run show ?thesis unfolding install_rank_0 by auto
qed

theorem install_terminates_witness:
  "\<exists>out w' ts' r. sys_exec map_badger (replicate 14 (0, 5, failing_input)) (start empty_db) [Installing (InstallReady example_install)] =
     Some (out, w', ts') \<and> ts' ! 0 = Installing (InstallFinished r)"
  using install_terminates [OF map_db.serial_badger_axioms registry_ok_empty(1) reach_spawn1 [of "Installing (InstallReady example_install)"],
      of 0 "InstallReady example_install" "replicate 14 (0, 5, failing_input)"]
  by (simp add: turns_def)

end
