(* ===== verification/Pki.thy ===== *)
theory Pki
  imports Control Render Os
begin

text \<open>
  \<open>internal/pki/pki.go\<close>: the certificate authority of the host, its files, and the certificates it issues.
  Go's \<open>crypto/x509\<close>, \<open>crypto/ed25519\<close>, \<open>encoding/pem\<close> and \<open>net/url\<close>, with the calendar of \<open>time\<close>, are the
  record \<open>crypto\<close>; the locale \<open>x509_laws\<close> has what the code relies on.
\<close>

section \<open>Certificates and the library\<close>

datatype key_usage = DigitalSignature | CertSign | CRLSign

datatype ext_usage = ClientAuth | ServerAuth

record template =
  SerialNumber :: int
  CommonName :: string
  NotBefore :: instant
  NotAfter :: instant
  KeyUsage :: "key_usage set"
  ExtKeyUsage :: "ext_usage list"
  IsCA :: bool
  MaxPathLenZero :: bool
  TemplateURIs :: "string list"
  DNSNames :: "string list"
  IPAddresses :: "Addr list"

definition blank_template :: template where
  "blank_template = \<lparr>SerialNumber = 0, CommonName = [], NotBefore = 0, NotAfter = 0, KeyUsage = {}, ExtKeyUsage = [], IsCA = False,
     MaxPathLenZero = False, TemplateURIs = [], DNSNames = [], IPAddresses = []\<rparr>"

text \<open>
  A private key is a \<open>'key\<close>, which stands for the pair; \<open>GenerateKey\<close> and \<open>rand_serial\<close> give what the
  \<open>i\<close>-th use of the random source gives.  \<open>CreateCertificate t parent key signer\<close> is the DER text of a
  certificate with the contents \<open>t\<close> for the public key of \<open>key\<close>; the parent is a certificate, or the
  template itself.  \<open>ParsePKCS8\<close> gives an Ed25519 key (\<open>Some (Some k)\<close>) or one of another kind.
  \<open>parse_url\<close> is the text of the parsed URL, \<open>add_years\<close> is \<open>AddDate\<close> with years only.
\<close>

record ('key, 'cert) crypto =
  GenerateKey :: "nat \<Rightarrow> 'key option"
  rand_serial :: "nat \<Rightarrow> int option"
  CreateCertificate :: "template \<Rightarrow> 'cert option \<Rightarrow> 'key \<Rightarrow> 'key \<Rightarrow> string option"
  ParseCertificate :: "string \<Rightarrow> 'cert option"
  MarshalPKCS8 :: "'key \<Rightarrow> string option"
  ParsePKCS8 :: "string \<Rightarrow> 'key option option"
  pem_encode :: "string \<Rightarrow> string \<Rightarrow> string"
  pem_decode :: "string \<Rightarrow> string option"
  parse_url :: "string \<Rightarrow> string option"
  add_years :: "nat \<Rightarrow> instant \<Rightarrow> instant"

record ('key, 'cert) Authority =
  auth_dir :: string
  ca :: 'cert
  caKey :: 'key
  certPool :: "'cert list"

record Bundle =
  CertificatePEM :: string
  BundleKeyPEM :: string
  CAPEM :: string

record CredentialFiles =
  Certificate :: string
  PrivateKey :: string
  CA :: string

datatype pki_error = PkiOs os_error | PkiCrypto | PkiPEM | PkiNotEd25519 | PkiURL | PkiPanic


section \<open>Files\<close>

definition Stat :: "fs \<Rightarrow> string \<Rightarrow> os_error + unit" where
  "Stat f p = map_sum id (\<lambda>_. ()) (ReadFile f p)"

definition writePair :: "string \<Rightarrow> string \<Rightarrow> string \<Rightarrow> string \<Rightarrow> fs \<Rightarrow> (pki_error + unit) \<times> fs" where
  "writePair certPath keyPath certPEM keyPEM f = (case WriteFile f certPath certPEM of
       (Inl e, f) \<Rightarrow> (Inl (PkiOs e), f)
     | (Inr _, f) \<Rightarrow> (case WriteFile f keyPath keyPEM of
           (Inl e, f) \<Rightarrow> (Inl (PkiOs e), f)
         | (Inr _, f) \<Rightarrow> (Inr (), f)))"

definition read_file :: "fs \<Rightarrow> string \<Rightarrow> pki_error + string" where
  "read_file f p = map_sum PkiOs id (ReadFile f p)"


section \<open>Issuing\<close>

definition of_crypto :: "'a option \<Rightarrow> pki_error + 'a" where
  "of_crypto x = (case x of None \<Rightarrow> Inl PkiCrypto | Some y \<Rightarrow> Inr y)"

definition randomSerial :: "('key, 'cert) crypto \<Rightarrow> nat \<Rightarrow> pki_error + int" where
  "randomSerial C i = (case rand_serial C i of None \<Rightarrow> Inl PkiPanic | Some n \<Rightarrow> Inr n)"

definition issue_cert ::
    "('key, 'cert) crypto \<Rightarrow> nat \<Rightarrow> ('key, 'cert) Authority \<Rightarrow> template \<Rightarrow> pki_error + string \<times> string" where
  "issue_cert C i a t =
     bindE (of_crypto (GenerateKey C i)) (\<lambda>key.
     bindE (of_crypto (CreateCertificate C t (Some (ca a)) key (caKey a))) (\<lambda>der.
     bindE (of_crypto (MarshalPKCS8 C key)) (\<lambda>keyDER.
     Inr (pem_encode C ''CERTIFICATE'' der, pem_encode C ''PRIVATE KEY'' keyDER))))"

text \<open>\<open>net.ParseIP\<close> accepts the addresses \<open>netip.ParseAddr\<close> accepts, without zones, which \<open>ParseAddr\<close> here refuses too.\<close>

definition issueServer ::
    "('key, 'cert) crypto \<Rightarrow> nat \<Rightarrow> instant \<Rightarrow> ('key, 'cert) Authority \<Rightarrow> string \<Rightarrow> pki_error + string \<times> string" where
  "issueServer C i now a publicName =
     bindE (randomSerial C i) (\<lambda>serial.
     let t = blank_template\<lparr>SerialNumber := serial, CommonName := publicName, NotBefore := now - 5 * minute,
           NotAfter := add_years C 1 now, KeyUsage := {DigitalSignature}, ExtKeyUsage := [ServerAuth]\<rparr>
     in issue_cert C i a (case ParseAddr publicName of
          Some address \<Rightarrow> t\<lparr>IPAddresses := [address]\<rparr>
        | None \<Rightarrow> t\<lparr>DNSNames := [publicName]\<rparr>))"

definition instance_template :: "('key, 'cert) crypto \<Rightarrow> int \<Rightarrow> instant \<Rightarrow> string \<Rightarrow> string \<Rightarrow> template" where
  "instance_template C serial now iid uri =
     blank_template\<lparr>SerialNumber := serial, CommonName := ''ulcer-instance-'' @ iid, NotBefore := now - 5 * minute,
       NotAfter := add_years C 1 now, KeyUsage := {DigitalSignature}, ExtKeyUsage := [ClientAuth], TemplateURIs := [uri]\<rparr>"

definition IssueInstanceFiles ::
    "('key, 'cert) crypto \<Rightarrow> nat \<Rightarrow> instant \<Rightarrow> fs \<Rightarrow> ('key, 'cert) Authority \<Rightarrow> string \<Rightarrow> pki_error + CredentialFiles" where
  "IssueInstanceFiles C i now f a iid = (case parse_url C (''spiffe://ulcer/instance/'' @ iid) of
       None \<Rightarrow> Inl PkiURL
     | Some uri \<Rightarrow>
         bindE (randomSerial C i) (\<lambda>serial.
         bindE (issue_cert C i a (instance_template C serial now iid uri)) (\<lambda>(cert, key).
         bindE (read_file f (Join [auth_dir a, ''ca.crt''])) (\<lambda>caPEM.
         Inr \<lparr>Certificate = cert, PrivateKey = key, CA = caPEM\<rparr>))))"

definition IssueInstance ::
    "('key, 'cert) crypto \<Rightarrow> nat \<Rightarrow> instant \<Rightarrow> fs \<Rightarrow> ('key, 'cert) Authority \<Rightarrow> string \<Rightarrow> pki_error + Bundle" where
  "IssueInstance C i now f a iid = bindE (IssueInstanceFiles C i now f a iid) (\<lambda>fs.
     Inr \<lparr>CertificatePEM = Certificate fs, BundleKeyPEM = PrivateKey fs, CAPEM = CA fs\<rparr>)"

definition ClientPool :: "('key, 'cert) Authority \<Rightarrow> 'cert list" where
  "ClientPool a = certPool a"


section \<open>The authority\<close>

definition ca_template :: "('key, 'cert) crypto \<Rightarrow> int \<Rightarrow> instant \<Rightarrow> template" where
  "ca_template C serial now =
     blank_template\<lparr>SerialNumber := serial, CommonName := ''ulcer local instance authority'', NotBefore := now - 5 * minute,
       NotAfter := add_years C 10 now, KeyUsage := {CertSign, CRLSign}, IsCA := True, MaxPathLenZero := True\<rparr>"

text \<open>The certificate and key of a new authority, in PEM.\<close>

definition new_authority :: "('key, 'cert) crypto \<Rightarrow> nat \<Rightarrow> instant \<Rightarrow> pki_error + string \<times> string" where
  "new_authority C i now =
     bindE (of_crypto (GenerateKey C i)) (\<lambda>key.
     bindE (randomSerial C i) (\<lambda>serial.
     bindE (of_crypto (CreateCertificate C (ca_template C serial now) None key key)) (\<lambda>der.
     bindE (of_crypto (MarshalPKCS8 C key)) (\<lambda>keyDER.
     Inr (pem_encode C ''CERTIFICATE'' der, pem_encode C ''PRIVATE KEY'' keyDER)))))"

text \<open>The second half of \<open>loadOrCreateAuthority\<close>: reading the two files.\<close>

definition load_authority :: "('key, 'cert) crypto \<Rightarrow> string \<Rightarrow> fs \<Rightarrow> pki_error + ('key, 'cert) Authority" where
  "load_authority C dir f =
     bindE (read_file f (Join [dir, ''ca.crt''])) (\<lambda>certPEM.
     bindE (read_file f (Join [dir, ''ca.key''])) (\<lambda>keyPEM.
     case (pem_decode C certPEM, pem_decode C keyPEM) of
       (Some certBlock, Some keyBlock) \<Rightarrow>
         bindE (of_crypto (ParseCertificate C certBlock)) (\<lambda>cert.
         bindE (of_crypto (ParsePKCS8 C keyBlock)) (\<lambda>keyAny.
         case keyAny of
           None \<Rightarrow> Inl PkiNotEd25519
         | Some key \<Rightarrow> Inr \<lparr>auth_dir = dir, ca = cert, caKey = key, certPool = [cert]\<rparr>))
     | _ \<Rightarrow> Inl PkiPEM))"

definition loadOrCreateAuthority ::
    "('key, 'cert) crypto \<Rightarrow> nat \<Rightarrow> instant \<Rightarrow> string \<Rightarrow> fs \<Rightarrow> (pki_error + ('key, 'cert) Authority) \<times> fs" where
  "loadOrCreateAuthority C i now dir f =
     (if Stat f (Join [dir, ''ca.crt'']) = Inl NotExist then
        (case new_authority C i now of
           Inl e \<Rightarrow> (Inl e, f)
         | Inr (certPEM, keyPEM) \<Rightarrow>
             (case writePair (Join [dir, ''ca.crt'']) (Join [dir, ''ca.key'']) certPEM keyPEM f of
                (Inl e, f) \<Rightarrow> (Inl e, f)
              | (Inr _, f) \<Rightarrow> (load_authority C dir f, f)))
      else (load_authority C dir f, f))"

text \<open>What \<open>Ensure\<close> returns once the files are there.\<close>

definition read_bundle :: "string \<Rightarrow> fs \<Rightarrow> pki_error + Bundle" where
  "read_bundle dir f =
     bindE (read_file f (Join [dir, ''host.crt''])) (\<lambda>serverCert.
     bindE (read_file f (Join [dir, ''host.key''])) (\<lambda>serverKey.
     bindE (read_file f (Join [dir, ''ca.crt''])) (\<lambda>caPEM.
     Inr \<lparr>CertificatePEM = serverCert, BundleKeyPEM = serverKey, CAPEM = caPEM\<rparr>)))"

text \<open>The certificate of the host, if there is none.\<close>

definition create_host ::
    "('key, 'cert) crypto \<Rightarrow> nat \<Rightarrow> instant \<Rightarrow> string \<Rightarrow> ('key, 'cert) Authority \<Rightarrow> string \<Rightarrow> fs \<Rightarrow> (pki_error + unit) \<times> fs" where
  "create_host C i now dir authority publicName f =
     (if Stat f (Join [dir, ''host.crt'']) = Inl NotExist then
        (case issueServer C i now authority publicName of
           Inl e \<Rightarrow> (Inl e, f)
         | Inr (cert, key) \<Rightarrow> writePair (Join [dir, ''host.crt'']) (Join [dir, ''host.key'']) cert key f)
      else (Inr (), f))"

definition Ensure ::
    "('key, 'cert) crypto \<Rightarrow> nat \<Rightarrow> instant \<Rightarrow> string \<Rightarrow> string \<Rightarrow> fs \<Rightarrow>
     (pki_error + ('key, 'cert) Authority \<times> Bundle) \<times> fs" where
  "Ensure C i now dataDir publicName f =
     (let dir = Join [dataDir, ''pki''] in
      case MkdirAll f dir of
        Inl e \<Rightarrow> (Inl (PkiOs e), f)
      | Inr f \<Rightarrow> (case loadOrCreateAuthority C i now dir f of
            (Inl e, f) \<Rightarrow> (Inl e, f)
          | (Inr authority, f) \<Rightarrow> (case create_host C (Suc i) now dir authority publicName f of
                (Inl e, f) \<Rightarrow> (Inl e, f)
              | (Inr _, f) \<Rightarrow> (bindE (read_bundle dir f) (\<lambda>b. Inr (authority, b)), f))))"


section \<open>Paths\<close>

lemma split_path_last:
  assumes "CHR ''/'' \<notin> set w"
  shows "split_path (d @ CHR ''/'' # w) = split_path d @ [w]"
proof (induction d)
  case Nil
  have "split_path w = [w]" using assms by (induction w) auto
  then show ?case by simp
next
  case (Cons c d)
  have "split_path d \<noteq> []" by (induction d) (auto split: list.splits)
  with Cons show ?case by (cases "split_path d") auto
qed

lemma join_path_snoc: "ws \<noteq> [] \<Longrightarrow> join_path (ws @ [w]) = join_path ws @ CHR ''/'' # w"
  by (induction ws rule: join_path.induct) auto

text \<open>A file in a directory keeps its name.\<close>

lemma Join_suffix:
  assumes "CHR ''/'' \<notin> set w" and "w \<notin> {[], ''.'', ''..''}"
  shows "suffix w (Join [d, w])"
proof -
  have suf: "suffix w (Clean p)" if split: "split_path p = us @ [w]" and p: "p \<noteq> []" for p us
  proof -
    define rooted where "rooted = (p \<noteq> [] \<and> hd p = CHR ''/'')"
    have "foldl (clean_step rooted) [] (us @ [w]) = w # foldl (clean_step rooted) [] us"
      using assms(2) by (simp add: clean_step_def)
    then obtain xs where "rev (foldl (clean_step rooted) [] (split_path p)) = xs @ [w]"
      using split by simp
    moreover have "suffix w (join_path (xs @ [w]))"
      by (cases "xs = []") (simp_all add: join_path_snoc suffix_def)
    then obtain y where "join_path (xs @ [w]) = y @ w" by (auto simp: suffix_def)
    ultimately have "Clean p = (if rooted then CHR ''/'' # y @ w else y @ w)"
      using assms(2) by (cases rooted) (simp_all add: Clean_def rooted_def [symmetric] Let_def)
    then show ?thesis by (auto simp: suffix_def)
  qed
  show ?thesis
  proof (cases "d = []")
    case True
    have "split_path w = [] @ [w]" using assms(1) by (induction w) auto
    with True suf assms(2) show ?thesis by (simp add: Join_def)
  next
    case False
    then have "Join [d, w] = Clean (d @ CHR ''/'' # w)" using assms(2) by (simp add: Join_def)
    then show ?thesis using suf [OF split_path_last [OF assms(1)]] by simp
  qed
qed

lemma Join_distinct:
  assumes "CHR ''/'' \<notin> set v" "v \<notin> {[], ''.'', ''..''}" "CHR ''/'' \<notin> set w" "w \<notin> {[], ''.'', ''..''}"
    and "\<not> suffix v w" "\<not> suffix w v"
  shows "Join [d, v] \<noteq> Join [d', w]"
  using Join_suffix [OF assms(1,2), of d] Join_suffix [OF assms(3,4), of d'] assms(5,6) suffix_same_cases by metis

lemma pki_paths [simp]:
  "Join [d, ''ca.crt''] \<noteq> Join [d, ''ca.key'']" "Join [d, ''ca.key''] \<noteq> Join [d, ''ca.crt'']"
  "Join [d, ''ca.crt''] \<noteq> Join [d, ''host.crt'']" "Join [d, ''host.crt''] \<noteq> Join [d, ''ca.crt'']"
  "Join [d, ''ca.crt''] \<noteq> Join [d, ''host.key'']" "Join [d, ''host.key''] \<noteq> Join [d, ''ca.crt'']"
  "Join [d, ''ca.key''] \<noteq> Join [d, ''host.crt'']" "Join [d, ''host.crt''] \<noteq> Join [d, ''ca.key'']"
  "Join [d, ''ca.key''] \<noteq> Join [d, ''host.key'']" "Join [d, ''host.key''] \<noteq> Join [d, ''ca.key'']"
  "Join [d, ''host.crt''] \<noteq> Join [d, ''host.key'']" "Join [d, ''host.key''] \<noteq> Join [d, ''host.crt'']"
  by (rule Join_distinct; simp add: suffix_def)+


section \<open>Starting again\<close>

lemma read_file_ok [simp]: "read_file f p = Inr d \<longleftrightarrow> \<not> failing f p \<and> files f p = Some d"
  by (auto simp: read_file_def ReadFile_def split: option.splits)

lemma Stat_missing [simp]: "Stat f p = Inl NotExist \<longleftrightarrow> \<not> failing f p \<and> files f p = None"
  by (auto simp: Stat_def ReadFile_def split: option.splits)

lemma writePair_ok:
  assumes "writePair c k x y f = (Inr u, f')" and "c \<noteq> k"
  shows "f' = f\<lparr>files := (files f)(c \<mapsto> x, k \<mapsto> y)\<rparr>" and "\<not> failing f c" "\<not> failing f k"
  using assms by (auto simp: writePair_def WriteFile_def split: sum.splits if_splits)

text \<open>What is read of the authority and of the bundle is what is in the files.\<close>

lemma load_authority_cong:
  assumes "files f' (Join [dir, ''ca.crt'']) = files f (Join [dir, ''ca.crt''])" "files f' (Join [dir, ''ca.key'']) = files f (Join [dir, ''ca.key''])"
    and "failing f' = failing f"
  shows "load_authority C dir f' = load_authority C dir f"
  using assms by (simp add: load_authority_def read_file_def ReadFile_def)

lemma load_authority_ok:
  assumes "load_authority C dir f = Inr a"
  shows "\<not> failing f (Join [dir, ''ca.crt''])" and "files f (Join [dir, ''ca.crt'']) \<noteq> None"
  using assms by (auto simp: load_authority_def bind_simps)

lemma loadOrCreateAuthority_ok:
  assumes "loadOrCreateAuthority C i now dir f = (Inr a, f')"
  shows "load_authority C dir f' = Inr a" and "failing f' = failing f"
    and "\<And>p. p \<noteq> Join [dir, ''ca.crt''] \<Longrightarrow> p \<noteq> Join [dir, ''ca.key''] \<Longrightarrow> files f' p = files f p"
  using assms
  by (auto simp: loadOrCreateAuthority_def writePair_def WriteFile_def split: if_splits sum.splits prod.splits)

lemma create_host_ok:
  assumes "create_host C i now dir a publicName f = (Inr u, f')"
  shows "failing f' = failing f" and "\<And>p. p \<noteq> Join [dir, ''host.crt''] \<Longrightarrow> p \<noteq> Join [dir, ''host.key''] \<Longrightarrow> files f' p = files f p"
  using assms by (auto simp: create_host_def dest!: writePair_ok(1) split: if_splits sum.splits)

lemma Ensure_parts:
  assumes "Ensure C i now dataDir publicName f = (Inr (a, b), f')"
  obtains f1 where "MkdirAll f (Join [dataDir, ''pki'']) = Inr f"
    and "loadOrCreateAuthority C i now (Join [dataDir, ''pki'']) f = (Inr a, f1)"
    and "create_host C (Suc i) now (Join [dataDir, ''pki'']) a publicName f1 = (Inr (), f')"
    and "read_bundle (Join [dataDir, ''pki'']) f' = Inr b"
  using assms by (auto simp: Ensure_def Let_def MkdirAll_def bind_simps split: sum.splits prod.splits if_splits)

lemma Ensure_ok:
  assumes en: "Ensure C i now dataDir publicName f = (Inr (a, b), f')"
  defines "dir \<equiv> Join [dataDir, ''pki'']"
  shows "load_authority C dir f' = Inr a" and "read_bundle dir f' = Inr b" and "MkdirAll f' dir = Inr f'"
proof -
  from en obtain f1 where mk: "MkdirAll f dir = Inr f" and loaded: "loadOrCreateAuthority C i now dir f = (Inr a, f1)"
    and created: "create_host C (Suc i) now dir a publicName f1 = (Inr (), f')" and got: "read_bundle dir f' = Inr b"
    unfolding dir_def by (rule Ensure_parts)
  note load = loadOrCreateAuthority_ok [OF loaded]
  note f' = create_host_ok [OF created]
  show "load_authority C dir f' = Inr a" using load_authority_cong [of f' dir f1 C] f' load(1) by simp
  show "read_bundle dir f' = Inr b" by (rule got)
  show "MkdirAll f' dir = Inr f'" using mk f'(1) load(2) by (simp add: MkdirAll_def split: if_splits)
qed

lemma Ensure_frame:
  assumes "Ensure C i now dataDir publicName f = (Inr x, f')"
    and "\<And>w. w \<in> {''ca.crt'', ''ca.key'', ''host.crt'', ''host.key''} \<Longrightarrow> p \<noteq> Join [Join [dataDir, ''pki''], w]"
  shows "failing f' = failing f" and "files f' p = files f p"
proof -
  obtain a b where x: "x = (a, b)" by fastforce
  define dir where "dir = Join [dataDir, ''pki'']"
  from assms(1) [unfolded x] obtain f1 where loaded: "loadOrCreateAuthority C i now dir f = (Inr a, f1)"
    and created: "create_host C (Suc i) now dir a publicName f1 = (Inr (), f')" unfolding dir_def by (rule Ensure_parts)
  note load = loadOrCreateAuthority_ok [OF loaded]
  note host = create_host_ok [OF created]
  have p: "p \<noteq> Join [dir, ''ca.crt'']" "p \<noteq> Join [dir, ''ca.key'']" "p \<noteq> Join [dir, ''host.crt'']" "p \<noteq> Join [dir, ''host.key'']"
    unfolding dir_def by (rule assms(2); simp)+
  show "failing f' = failing f" using load(2) host(1) by simp
  show "files f' p = files f p" using load(3) [OF p(1,2)] host(2) [OF p(3,4)] by simp
qed

lemma Ensure_again:
  assumes "load_authority C (Join [dataDir, ''pki'']) f = Inr a" and "read_bundle (Join [dataDir, ''pki'']) f = Inr b"
    and "MkdirAll f (Join [dataDir, ''pki'']) = Inr f"
  shows "Ensure C i now dataDir publicName f = (Inr (a, b), f)"
proof -
  have "files f (Join [Join [dataDir, ''pki''], ''host.crt'']) \<noteq> None"
    using assms(2) by (auto simp: read_bundle_def bind_simps)
  with assms load_authority_ok [OF assms(1)] show ?thesis
    by (auto simp: Ensure_def loadOrCreateAuthority_def create_host_def Let_def)
qed

text \<open>
  The authority survives a restart: once \<open>Ensure\<close> has succeeded, calling it again on the files it
  left, at any time, with any random numbers and even another public name, changes no file and returns
  the same authority and the same certificate of the host.
\<close>

theorem authority_survives_restart:
  assumes "Ensure C i now dataDir publicName f = (Inr (a, b), f')"
  shows "Ensure C j later dataDir otherName f' = (Inr (a, b), f')"
  using Ensure_again [OF Ensure_ok [OF assms]] .


section \<open>Certificates\<close>

text \<open>A certificate keeps the times of its template in whole seconds.\<close>

definition on_wire :: "template \<Rightarrow> template" where
  "on_wire t = t\<lparr>NotBefore := NotBefore t - NotBefore t mod second, NotAfter := NotAfter t - NotAfter t mod second\<rparr>"

lemma on_wire_simps [simp]:
  "SerialNumber (on_wire t) = SerialNumber t" "CommonName (on_wire t) = CommonName t" "KeyUsage (on_wire t) = KeyUsage t"
  "ExtKeyUsage (on_wire t) = ExtKeyUsage t" "IsCA (on_wire t) = IsCA t" "TemplateURIs (on_wire t) = TemplateURIs t"
  "DNSNames (on_wire t) = DNSNames t" "IPAddresses (on_wire t) = IPAddresses t"
  by (simp_all add: on_wire_def)

text \<open>
  What the code relies on: a certificate that is created can be parsed, has the contents of its template
  and the signature of its signer; the two kinds of PEM text and PKCS8 decode to what was encoded; and the
  URI of an identifier in the form of a UUID parses to itself.
\<close>

definition x509_ok :: "('key, 'cert) crypto \<Rightarrow> ('cert \<Rightarrow> template) \<Rightarrow> ('cert \<Rightarrow> 'key) \<Rightarrow> ('cert \<Rightarrow> 'key \<Rightarrow> bool) \<Rightarrow> bool" where
  "x509_ok C contents key_of signed_by \<longleftrightarrow>
     (\<forall>t parent key signer der. CreateCertificate C t parent key signer = Some der \<longrightarrow>
        (\<exists>c. ParseCertificate C der = Some c \<and> contents c = on_wire t \<and> key_of c = key \<and> signed_by c signer)) \<and>
     (\<forall>ty\<in>{''CERTIFICATE'', ''PRIVATE KEY''}. \<forall>der. pem_decode C (pem_encode C ty der) = Some der) \<and>
     (\<forall>key der. MarshalPKCS8 C key = Some der \<longrightarrow> ParsePKCS8 C der = Some (Some key)) \<and>
     (\<forall>iid. safeUUID iid \<longrightarrow> parse_url C (''spiffe://ulcer/instance/'' @ iid) = Some (''spiffe://ulcer/instance/'' @ iid))"

lemma x509_okD:
  assumes "x509_ok C contents key_of signed_by"
  shows "CreateCertificate C t parent key signer = Some der \<Longrightarrow>
      \<exists>c. ParseCertificate C der = Some c \<and> contents c = on_wire t \<and> key_of c = key \<and> signed_by c signer"
    and "pem_decode C (pem_encode C ''CERTIFICATE'' der) = Some der" "pem_decode C (pem_encode C ''PRIVATE KEY'' der) = Some der"
    and "MarshalPKCS8 C key = Some der \<Longrightarrow> ParsePKCS8 C der = Some (Some key)"
    and "safeUUID iid \<Longrightarrow> parse_url C (''spiffe://ulcer/instance/'' @ iid) = Some (''spiffe://ulcer/instance/'' @ iid)"
  using assms unfolding x509_ok_def by blast+

text \<open>The certificate \<open>c\<close> and the key \<open>k\<close> in two PEM texts.\<close>

definition pem_pair :: "('key, 'cert) crypto \<Rightarrow> string \<Rightarrow> string \<Rightarrow> 'cert \<Rightarrow> 'key \<Rightarrow> bool" where
  "pem_pair C cert key c k \<longleftrightarrow> Option.bind (pem_decode C cert) (ParseCertificate C) = Some c \<and>
     Option.bind (pem_decode C key) (ParsePKCS8 C) = Some (Some k)"

lemma issue_cert_ok:
  assumes lib: "x509_ok C contents key_of signed_by" and iss: "issue_cert C i a t = Inr (cert, key)"
  obtains c where "pem_pair C cert key c (key_of c)" and "contents c = on_wire t" and "signed_by c (caKey a)"
proof -
  obtain k der kd where "CreateCertificate C t (Some (ca a)) k (caKey a) = Some der" "MarshalPKCS8 C k = Some kd"
    "cert = pem_encode C ''CERTIFICATE'' der" "key = pem_encode C ''PRIVATE KEY'' kd"
    using iss by (auto simp: issue_cert_def of_crypto_def bind_simps split: option.splits)
  with x509_okD(1) [OF lib, of t "Some (ca a)" k "caKey a" der] that show ?thesis
    by (auto simp: pem_pair_def x509_okD(2-4) [OF lib])
qed

lemma IssueInstanceFiles_ok:
  assumes lib: "x509_ok C contents key_of signed_by" and iid: "safeUUID iid" and iss: "IssueInstanceFiles C i now f a iid = Inr fs"
  obtains c serial where "pem_pair C (Certificate fs) (PrivateKey fs) c (key_of c)" and "signed_by c (caKey a)"
    and "contents c = on_wire (instance_template C serial now iid (''spiffe://ulcer/instance/'' @ iid))"
proof -
  obtain serial cert key where made: "issue_cert C i a (instance_template C serial now iid (''spiffe://ulcer/instance/'' @ iid)) = Inr (cert, key)"
    and fs: "Certificate fs = cert" "PrivateKey fs = key"
    using iss [unfolded IssueInstanceFiles_def x509_okD(5) [OF lib iid]] by (auto simp: bind_simps split: prod.splits)
  from lib made show ?thesis by (rule issue_cert_ok) (rule that, simp_all add: fs)
qed

lemma Ensure_fresh:
  assumes lib: "x509_ok C contents key_of signed_by" and en: "Ensure C i now dataDir publicName f = (Inr (a, b), f')"
    and new: "files f (Join [Join [dataDir, ''pki''], ''ca.crt'']) = None" "files f (Join [Join [dataDir, ''pki''], ''host.crt'']) = None"
  shows "key_of (ca a) = caKey a \<and> IsCA (contents (ca a)) \<and> certPool a = [ca a]"
    and "\<exists>c. pem_pair C (CertificatePEM b) (BundleKeyPEM b) c (key_of c) \<and> signed_by c (caKey a) \<and>
      ExtKeyUsage (contents c) = [ServerAuth] \<and>
      (case ParseAddr publicName of Some ip \<Rightarrow> IPAddresses (contents c) = [ip] | None \<Rightarrow> DNSNames (contents c) = [publicName])"
proof -
  define dir where "dir = Join [dataDir, ''pki'']"
  from en obtain f1 where loaded: "loadOrCreateAuthority C i now dir f = (Inr a, f1)"
    and created: "create_host C (Suc i) now dir a publicName f1 = (Inr (), f')" and got: "read_bundle dir f' = Inr b"
    unfolding dir_def by (rule Ensure_parts)
  note load = loadOrCreateAuthority_ok [OF loaded]
  have ok: "\<not> failing f (Join [dir, ''ca.crt''])" using load_authority_ok(1) [OF load(1)] load(2) by simp
  then obtain certPEM keyPEM where na: "new_authority C i now = Inr (certPEM, keyPEM)"
    and w: "writePair (Join [dir, ''ca.crt'']) (Join [dir, ''ca.key'']) certPEM keyPEM f = (Inr (), f1)" and la: "load_authority C dir f1 = Inr a"
    using loaded new(1) by (auto simp: loadOrCreateAuthority_def dir_def split: sum.splits prod.splits)
  obtain k serial der kd where "CreateCertificate C (ca_template C serial now) None k k = Some der" "MarshalPKCS8 C k = Some kd"
    "certPEM = pem_encode C ''CERTIFICATE'' der" "keyPEM = pem_encode C ''PRIVATE KEY'' kd"
    using na by (auto simp: new_authority_def of_crypto_def bind_simps split: option.splits)
  with x509_okD(1) [OF lib, of "ca_template C serial now" None k k der]
  obtain c where c: "pem_pair C certPEM keyPEM c k" "contents c = on_wire (ca_template C serial now)" "key_of c = k"
    by (auto simp: pem_pair_def x509_okD(2-4) [OF lib])
  have "files f1 (Join [dir, ''ca.crt'']) = Some certPEM" "files f1 (Join [dir, ''ca.key'']) = Some keyPEM"
    using writePair_ok(1) [OF w] by simp_all
  with la c(1) have "ca a = c" "caKey a = k" "certPool a = [c]"
    by (auto simp: load_authority_def bind_simps of_crypto_def pem_pair_def bind_eq_Some_conv split: option.splits)
  with c show "key_of (ca a) = caKey a \<and> IsCA (contents (ca a)) \<and> certPool a = [ca a]" by (simp add: ca_template_def)
  have "files f1 (Join [dir, ''host.crt'']) = None" using load(3) [of "Join [dir, ''host.crt'']"] new(2) by (simp add: dir_def)
  moreover have "\<not> failing f1 (Join [dir, ''host.crt''])"
    using got created by (auto simp: create_host_def read_bundle_def bind_simps split: if_splits)
  ultimately obtain cert key where iss: "issueServer C (Suc i) now a publicName = Inr (cert, key)"
    and w2: "writePair (Join [dir, ''host.crt'']) (Join [dir, ''host.key'']) cert key f1 = (Inr (), f')"
    using created by (auto simp: create_host_def split: sum.splits)
  have b: "CertificatePEM b = cert" "BundleKeyPEM b = key"
    using got writePair_ok(1) [OF w2] by (auto simp: read_bundle_def bind_simps)
  from iss obtain t where t: "issue_cert C (Suc i) a t = Inr (cert, key)" "ExtKeyUsage t = [ServerAuth]"
    "case ParseAddr publicName of Some ip \<Rightarrow> IPAddresses t = [ip] | None \<Rightarrow> DNSNames t = [publicName]"
    by (cases "ParseAddr publicName") (auto simp: issueServer_def bind_simps Let_def)
  from lib t(1) obtain d where "pem_pair C cert key d (key_of d)" "contents d = on_wire t" "signed_by d (caKey a)" by (rule issue_cert_ok)
  with t b show "\<exists>c. pem_pair C (CertificatePEM b) (BundleKeyPEM b) c (key_of c) \<and> signed_by c (caKey a) \<and>
      ExtKeyUsage (contents c) = [ServerAuth] \<and>
      (case ParseAddr publicName of Some ip \<Rightarrow> IPAddresses (contents c) = [ip] | None \<Rightarrow> DNSNames (contents c) = [publicName])" by (intro exI [of _ d]) (auto split: option.splits)
qed

text \<open>Lower case hexadecimal digits and hyphens are told apart without their case.\<close>

lemma upper_char_inj:
  assumes "hex_char c \<or> c = CHR ''-''" and "hex_char d \<or> d = CHR ''-''" and "upper_char c = upper_char d"
  shows "c = d"
proof -
  have up: "of_char (upper_char x) = (if 97 \<le> (of_char x :: nat) \<and> of_char x \<le> (122 :: nat) then of_char x - 32 else of_char x :: nat)" for x
    by (auto simp: upper_char_def Let_def)
  have range: "of_char x = (45 :: nat) \<or> 48 \<le> (of_char x :: nat) \<and> of_char x \<le> (57 :: nat) \<or> 97 \<le> (of_char x :: nat) \<and> of_char x \<le> (102 :: nat)"
    if "hex_char x \<or> x = CHR ''-''" for x
    using that by (auto simp: hex_char_def ascii_between_def)
  have arith: "n = m" if "(if 97 \<le> n \<and> n \<le> 122 then n - 32 else n) = (if 97 \<le> m \<and> m \<le> 122 then m - 32 else m)"
    "n = 45 \<or> 48 \<le> n \<and> n \<le> 57 \<or> 97 \<le> n \<and> n \<le> 102" "m = 45 \<or> 48 \<le> m \<and> m \<le> 57 \<or> 97 \<le> m \<and> m \<le> 102" for n m :: nat
    using that by (auto split: if_splits)
  have "of_char (upper_char c) = (of_char (upper_char d) :: nat)" using assms(3) by simp
  then have "of_char c = (of_char d :: nat)"
    using arith [OF _ range [OF assms(1)] range [OF assms(2)]] unfolding up by blast
  then show ?thesis by (metis char_of_char)
qed

lemma safeUUID_fold:
  assumes "safeUUID iid" and "safeUUID jid" and "ToUpper iid = ToUpper jid"
  shows "iid = jid"
proof -
  have h: "\<forall>c\<in>set iid. hex_char c \<or> c = CHR ''-''" "\<forall>c\<in>set jid. hex_char c \<or> c = CHR ''-''"
    using safeUUID_chars [OF assms(1)] safeUUID_chars [OF assms(2)] by (simp_all add: list_all_iff)
  have "map upper_char iid = map upper_char jid" using assms(3) by (simp add: ToUpper_def)
  then show ?thesis using h
  proof (induction iid arbitrary: jid)
    case (Cons c iid)
    then obtain d ds where "jid = d # ds" by (cases jid) auto
    with Cons upper_char_inj [of c d] show ?case by auto
  qed simp
qed

text \<open>The identity in a certificate is the one the control server compares, and the authority file is handed out as it is.\<close>

lemma authorize_template:
  assumes "safeUUID jid" and "safeUUID iid"
  shows "authorizeInstance (TLSInfo [[\<lparr>URIs = TemplateURIs (on_wire (instance_template C serial now iid (''spiffe://ulcer/instance/'' @ iid)))\<rparr>]]) jid = None
    \<longleftrightarrow> jid = iid"
  using safeUUID_fold [OF assms] by (auto simp: instance_template_def authorizeInstance_def EqualFold_def ToUpper_def)

lemma IssueInstanceFiles_CA:
  assumes "IssueInstanceFiles C i now f a iid = Inr fs"
  shows "ReadFile f (Join [auth_dir a, ''ca.crt'']) = Inr (CA fs)"
  using assms by (cases "ReadFile f (Join [auth_dir a, ''ca.crt''])") (auto simp: IssueInstanceFiles_def read_file_def bind_simps split: option.splits)

text \<open>
  A certificate speaks for one instance: what \<open>IssueInstanceFiles\<close> issues for an identifier is a
  certificate and the key that belongs to it, signed by the authority, for clients only and not to sign
  others, and an agent that presents it is authorised by the control server for that identifier and for no
  other one in the form of a UUID.
\<close>

theorem certificate_binds_instance:
  assumes "x509_ok C contents key_of signed_by" and "safeUUID iid" and "IssueInstanceFiles C i now f a iid = Inr fs"
  shows "\<exists>c. pem_pair C (Certificate fs) (PrivateKey fs) c (key_of c) \<and> signed_by c (caKey a) \<and>
    ExtKeyUsage (contents c) = [ClientAuth] \<and> \<not> IsCA (contents c) \<and>
    (\<forall>jid. safeUUID jid \<longrightarrow>
       (authorizeInstance (TLSInfo [[\<lparr>URIs = TemplateURIs (contents c)\<rparr>]]) jid = None \<longleftrightarrow> jid = iid))"
proof -
  from assms obtain c serial where "pem_pair C (Certificate fs) (PrivateKey fs) c (key_of c)" "signed_by c (caKey a)"
    and c: "contents c = on_wire (instance_template C serial now iid (''spiffe://ulcer/instance/'' @ iid))" by (rule IssueInstanceFiles_ok)
  moreover have "authorizeInstance (TLSInfo [[\<lparr>URIs = TemplateURIs (contents c)\<rparr>]]) jid = None \<longleftrightarrow> jid = iid" if "safeUUID jid" for jid
    unfolding c using that assms(2) by (rule authorize_template)
  ultimately show ?thesis by (auto simp: c instance_template_def blank_template_def)
qed

text \<open>
  C40.  A creation that is interrupted locks the host out: the certificate is written before the key, and
  only the certificate is looked for.  When there is neither and the key of a new authority cannot be
  written, so that no key file or only one that is no PEM text is left, that start fails; and every start on
  the files it leaves fails too, whether the file system works again or not, and leaves them as they are,
  so that none ever succeeds until someone deletes the certificate.
\<close>

theorem interrupted_authority_locks_out:
  assumes "files f (Join [Join [dataDir, ''pki''], ''ca.crt'']) = None" and "files f (Join [Join [dataDir, ''pki''], ''ca.key'']) = None"
    and "\<not> failing f (Join [dataDir, ''pki''])" and "\<not> failing f (Join [Join [dataDir, ''pki''], ''ca.crt''])"
    and "failing f (Join [Join [dataDir, ''pki''], ''ca.key''])"
    and "\<forall>t. torn f (Join [Join [dataDir, ''pki''], ''ca.key'']) = Some t \<longrightarrow> pem_decode C t = None"
    and "new_authority C i now = Inr (certPEM, keyPEM)"
  shows "\<exists>e f'. Ensure C i now dataDir publicName f = (Inl e, f') \<and>
    (\<forall>g. files g = files f' \<longrightarrow> (\<forall>j later otherName. \<exists>e'. Ensure C j later dataDir otherName g = (Inl e', g)))"
proof -
  define dir where "dir = Join [dataDir, ''pki'']"
  let ?e = "PkiOs (OsFailure (Join [dir, ''ca.key'']))"
  obtain f' where load: "loadOrCreateAuthority C i now dir f = (Inl ?e, f')"
    and cert: "files f' (Join [dir, ''ca.crt'']) = Some certPEM"
    and key: "\<And>d. files f' (Join [dir, ''ca.key'']) = Some d \<Longrightarrow> pem_decode C d = None"
    using assms by (cases "torn f (Join [dir, ''ca.key''])") (auto simp: loadOrCreateAuthority_def writePair_def WriteFile_def dir_def)
  have "Ensure C i now dataDir publicName f = (Inl ?e, f')"
    using load assms(3) by (simp add: Ensure_def Let_def MkdirAll_def dir_def)
  moreover have "\<exists>e'. Ensure C j later dataDir otherName g = (Inl e', g)" if "files g = files f'" for g j later otherName
  proof -
    have "Stat g (Join [dir, ''ca.crt'']) \<noteq> Inl NotExist" using cert that by simp
    moreover have "load_authority C dir g \<noteq> Inr x" for x
      using key that by (auto simp: load_authority_def bind_simps split: option.splits)
    then obtain e' where "load_authority C dir g = Inl e'" by (cases "load_authority C dir g") auto
    ultimately show ?thesis by (auto simp: Ensure_def Let_def MkdirAll_def loadOrCreateAuthority_def dir_def)
  qed
  ultimately show ?thesis by blast
qed

text \<open>
  A new authority is consistent: when \<open>Ensure\<close> finds no files and succeeds, the authority it returns
  holds the key of its own certificate, which may sign others and is the only one clients are checked
  against, and the certificate of the host belongs to its key, is signed by the authority and names the
  public name, as an address when it is one.
\<close>

theorem new_authority_consistent:
  assumes "x509_ok C contents key_of signed_by" and "Ensure C i now dataDir publicName f = (Inr (a, b), f')"
    and "files f (Join [Join [dataDir, ''pki''], ''ca.crt'']) = None" "files f (Join [Join [dataDir, ''pki''], ''host.crt'']) = None"
  shows "key_of (ca a) = caKey a \<and> IsCA (contents (ca a)) \<and> ClientPool a = [ca a] \<and>
    (\<exists>c. pem_pair C (CertificatePEM b) (BundleKeyPEM b) c (key_of c) \<and> signed_by c (caKey a) \<and>
      ExtKeyUsage (contents c) = [ServerAuth] \<and>
      (case ParseAddr publicName of Some ip \<Rightarrow> IPAddresses (contents c) = [ip] | None \<Rightarrow> DNSNames (contents c) = [publicName]))"
  using Ensure_fresh [OF assms] by (simp add: ClientPool_def)


section \<open>An example\<close>

text \<open>
  A library that can create one certificate of each kind, told apart by their first letter: the one of the
  authority, of the host \<open>ulcer.example\<close>, and of one instance.  Keys are numbers up to 1.
\<close>

datatype example_cert = AuthorityCert | HostCert | InstanceCert

fun example_letter :: "example_cert \<Rightarrow> string" where
  "example_letter AuthorityCert = ''a''"
| "example_letter HostCert = ''h''"
| "example_letter InstanceCert = ''i''"

definition example_blank :: "(nat, example_cert) crypto" where
  "example_blank = \<lparr>GenerateKey = (\<lambda>i. if i < 2 then Some i else None), rand_serial = (\<lambda>i. Some 7),
     CreateCertificate = (\<lambda>t parent key signer. None),
     ParseCertificate = (\<lambda>der. find (\<lambda>c. example_letter c = der) [AuthorityCert, HostCert, InstanceCert]),
     MarshalPKCS8 = (\<lambda>k. if k = 0 then Some ''0'' else if k = 1 then Some ''1'' else None),
     ParsePKCS8 = (\<lambda>der. if der = ''0'' then Some (Some 0) else if der = ''1'' then Some (Some 1) else None),
     pem_encode = (\<lambda>ty der. der), pem_decode = Some, parse_url = Some, add_years = (\<lambda>n t. t + int n * 365 * 24 * hour)\<rparr>"

fun example_template :: "example_cert \<Rightarrow> template" where
  "example_template AuthorityCert = ca_template example_blank 7 5"
| "example_template HostCert = blank_template\<lparr>SerialNumber := 7, CommonName := ''ulcer.example'', NotBefore := 5 - 5 * minute,
     NotAfter := add_years example_blank 1 5, KeyUsage := {DigitalSignature}, ExtKeyUsage := [ServerAuth], DNSNames := [''ulcer.example'']\<rparr>"
| "example_template InstanceCert = instance_template example_blank 7 5 example_uuid (''spiffe://ulcer/instance/'' @ example_uuid)"

definition example_contents :: "example_cert \<Rightarrow> template" where
  "example_contents c = on_wire (example_template c)"

definition example_key :: "example_cert \<Rightarrow> nat" where
  "example_key c = (if c = AuthorityCert then 0 else 1)"

definition example_crypto :: "(nat, example_cert) crypto" where
  "example_crypto = example_blank\<lparr>CreateCertificate := (\<lambda>t parent key signer.
     map_option example_letter (find (\<lambda>c. example_template c = t \<and> example_key c = key \<and> signer = 0) [AuthorityCert, HostCert, InstanceCert]))\<rparr>"

lemma example_crypto_ok: "x509_ok example_crypto example_contents example_key (\<lambda>c k. k = 0)"
  unfolding x509_ok_def
proof (intro conjI allI impI)
  fix t parent key signer der
  assume "CreateCertificate example_crypto t parent key signer = Some der"
  then obtain c where "find (\<lambda>c. example_template c = t \<and> example_key c = key \<and> signer = 0) [AuthorityCert, HostCert, InstanceCert] = Some c"
    and "der = example_letter c"
    by (auto simp: example_crypto_def simp del: find.simps)
  then have "example_template c = t" "example_key c = key" "signer = 0" "der = example_letter c"
    by (auto simp: find_Some_iff simp del: find.simps)
  then show "\<exists>c. ParseCertificate example_crypto der = Some c \<and> example_contents c = on_wire t \<and> example_key c = key \<and> signer = 0"
    by (cases c) (auto simp: example_crypto_def example_blank_def example_contents_def)
qed (auto simp: example_crypto_def example_blank_def split: if_splits)

definition no_pki :: fs where
  "no_pki = \<lparr>files = Map.empty, failing = (\<lambda>_. False), torn = (\<lambda>_. None)\<rparr>"

definition example_authority :: "(nat, example_cert) Authority" where
  "example_authority = \<lparr>auth_dir = Join [''/data'', ''pki''], ca = AuthorityCert, caKey = 0, certPool = [AuthorityCert]\<rparr>"

lemma example_crypto_simps [simp]:
  "GenerateKey example_crypto i = (if i < 2 then Some i else None)" "rand_serial example_crypto i = Some 7"
  "MarshalPKCS8 example_crypto k = (if k = 0 then Some ''0'' else if k = 1 then Some ''1'' else None)"
  "ParsePKCS8 example_crypto d = (if d = ''0'' then Some (Some 0) else if d = ''1'' then Some (Some 1) else None)"
  "pem_encode example_crypto ty d = d" "pem_decode example_crypto d = Some d" "parse_url example_crypto u = Some u"
  "add_years example_crypto = add_years example_blank"
  "ca_template example_crypto = ca_template example_blank" "instance_template example_crypto = instance_template example_blank"
  by (simp_all add: example_crypto_def example_blank_def ca_template_def instance_template_def fun_eq_iff)

lemma example_certs:
  "CreateCertificate example_crypto (ca_template example_blank 7 5) None 0 0 = Some ''a''"
  "CreateCertificate example_crypto (example_template HostCert) (Some AuthorityCert) 1 0 = Some ''h''"
  "CreateCertificate example_crypto (example_template InstanceCert) (Some AuthorityCert) 1 0 = Some ''i''"
  "ParseCertificate example_crypto ''a'' = Some AuthorityCert"
proof -
  have "CommonName (example_template HostCert) \<noteq> CommonName (example_template InstanceCert)"
    by (simp add: instance_template_def)
  then show "CreateCertificate example_crypto (ca_template example_blank 7 5) None 0 0 = Some ''a''"
    "CreateCertificate example_crypto (example_template HostCert) (Some AuthorityCert) 1 0 = Some ''h''"
    "CreateCertificate example_crypto (example_template InstanceCert) (Some AuthorityCert) 1 0 = Some ''i''"
    by (auto simp: example_crypto_def example_key_def simp del: example_template.simps(2,3))
  show "ParseCertificate example_crypto ''a'' = Some AuthorityCert" by (simp add: example_crypto_def example_blank_def)
qed

lemma example_new_authority: "new_authority example_crypto 0 5 = Inr (''a'', ''0'')"
  by (simp add: new_authority_def of_crypto_def randomSerial_def example_certs)

lemma example_Ensure:
  obtains b f where "Ensure example_crypto 0 5 ''/data'' ''ulcer.example'' no_pki = (Inr (example_authority, b), f)"
proof -
  let ?dir = "Join [''/data'', ''pki'']"
  let ?f = "no_pki\<lparr>files := (files no_pki)(Join [?dir, ''ca.crt''] \<mapsto> ''a'', Join [?dir, ''ca.key''] \<mapsto> ''0'')\<rparr>"
  have auth: "loadOrCreateAuthority example_crypto 0 5 ?dir no_pki = (Inr example_authority, ?f)"
    by (simp add: loadOrCreateAuthority_def no_pki_def example_new_authority writePair_def WriteFile_def load_authority_def
        of_crypto_def example_certs example_authority_def read_file_def ReadFile_def)
  have "ParseAddr ''ulcer.example'' = None" by code_simp
  then have "issueServer example_crypto (Suc 0) 5 example_authority ''ulcer.example'' = Inr (''h'', ''1'')"
    using example_certs(2)
    by (simp add: issueServer_def randomSerial_def issue_cert_def of_crypto_def example_authority_def)
  then have "create_host example_crypto (Suc 0) 5 ?dir example_authority ''ulcer.example'' ?f =
      (Inr (), ?f\<lparr>files := (files ?f)(Join [?dir, ''host.crt''] \<mapsto> ''h'', Join [?dir, ''host.key''] \<mapsto> ''1'')\<rparr>)"
    by (simp add: create_host_def no_pki_def writePair_def WriteFile_def)
  with auth have "\<exists>b f. Ensure example_crypto 0 5 ''/data'' ''ulcer.example'' no_pki = (Inr (example_authority, b), f)"
    by (simp add: Ensure_def Let_def MkdirAll_def no_pki_def read_bundle_def read_file_def ReadFile_def)
  with that show ?thesis by blast
qed

theorem authority_survives_restart_witness:
  "\<exists>b f. Ensure example_crypto 0 5 ''/data'' ''ulcer.example'' no_pki = (Inr (example_authority, b), f) \<and>
     Ensure example_crypto 9 77 ''/data'' ''other.example'' f = (Inr (example_authority, b), f)"
proof -
  obtain b f where "Ensure example_crypto 0 5 ''/data'' ''ulcer.example'' no_pki = (Inr (example_authority, b), f)" by (rule example_Ensure)
  with authority_survives_restart [OF this] show ?thesis by blast
qed

definition example_pki_files :: fs where
  "example_pki_files = no_pki\<lparr>files := [Join [Join [''/data'', ''pki''], ''ca.crt''] \<mapsto> ''a'']\<rparr>"

lemma example_issued:
  "IssueInstanceFiles example_crypto 1 5 example_pki_files example_authority example_uuid = Inr \<lparr>Certificate = ''i'', PrivateKey = ''1'', CA = ''a''\<rparr>"
  using example_certs(3)
  by (simp add: example_pki_files_def IssueInstanceFiles_def randomSerial_def issue_cert_def of_crypto_def example_authority_def read_file_def ReadFile_def no_pki_def)

theorem certificate_binds_instance_witness:
  "\<exists>fs. IssueInstanceFiles example_crypto 1 5 example_pki_files example_authority example_uuid = Inr fs \<and>
     pem_pair example_crypto (Certificate fs) (PrivateKey fs) InstanceCert 1 \<and>
     authorizeInstance (TLSInfo [[\<lparr>URIs = TemplateURIs (example_contents InstanceCert)\<rparr>]]) example_uuid = None"
proof -
  note iss = example_issued
  from certificate_binds_instance [OF example_crypto_ok example_uuid_safe iss] obtain c where
    c: "pem_pair example_crypto ''i'' ''1'' c (example_key c)"
      "\<forall>jid. safeUUID jid \<longrightarrow> (authorizeInstance (TLSInfo [[\<lparr>URIs = TemplateURIs (example_contents c)\<rparr>]]) jid = None \<longleftrightarrow> jid = example_uuid)"
    by auto
  have "ParseCertificate example_crypto ''i'' = Some InstanceCert" by (simp add: example_crypto_def example_blank_def)
  with c(1) have "c = InstanceCert" by (simp add: pem_pair_def)
  with iss c example_uuid_safe show ?thesis by (simp add: example_key_def)
qed

theorem interrupted_authority_locks_out_witness:
  "\<exists>e f' e'. Ensure example_crypto 0 5 ''/data'' ''ulcer.example'' (no_pki\<lparr>failing := \<lambda>p. p = Join [Join [''/data'', ''pki''], ''ca.key'']\<rparr>) = (Inl e, f') \<and>
     Ensure example_crypto 0 6 ''/data'' ''ulcer.example'' (f'\<lparr>failing := \<lambda>_. False\<rparr>) = (Inl e', f'\<lparr>failing := \<lambda>_. False\<rparr>)"
proof -
  have "Join [''/data'', ''pki''] \<noteq> Join [Join [''/data'', ''pki''], ''ca.key'']" by code_simp
  with interrupted_authority_locks_out [of "no_pki\<lparr>failing := \<lambda>p. p = Join [Join [''/data'', ''pki''], ''ca.key'']\<rparr>" "''/data''"
      example_crypto 0 5 "''a''" "''0''" "''ulcer.example''"] example_new_authority
  obtain e f' where one: "Ensure example_crypto 0 5 ''/data'' ''ulcer.example'' (no_pki\<lparr>failing := \<lambda>p. p = Join [Join [''/data'', ''pki''], ''ca.key'']\<rparr>) = (Inl e, f')"
    and all: "\<forall>g. files g = files f' \<longrightarrow> (\<forall>j later otherName. \<exists>e'. Ensure example_crypto j later ''/data'' otherName g = (Inl e', g))"
    by (auto simp: no_pki_def)
  from all have "\<exists>e'. Ensure example_crypto 0 6 ''/data'' ''ulcer.example'' (f'\<lparr>failing := \<lambda>_. False\<rparr>) = (Inl e', f'\<lparr>failing := \<lambda>_. False\<rparr>)"
    by simp
  with one show ?thesis by blast
qed

theorem new_authority_consistent_witness:
  "\<exists>b f c. Ensure example_crypto 0 5 ''/data'' ''ulcer.example'' no_pki = (Inr (example_authority, b), f) \<and>
     pem_pair example_crypto (CertificatePEM b) (BundleKeyPEM b) c (example_key c) \<and> DNSNames (example_contents c) = [''ulcer.example'']"
proof -
  obtain b f where en: "Ensure example_crypto 0 5 ''/data'' ''ulcer.example'' no_pki = (Inr (example_authority, b), f)" by (rule example_Ensure)
  have "ParseAddr ''ulcer.example'' = None" by code_simp
  with new_authority_consistent [OF example_crypto_ok en] en show ?thesis by (auto simp: no_pki_def)
qed

end
