(* ===== verification/Agent.thy ===== *)
theory Agent
  imports Operator Grpc
begin

text \<open>
  The agent of an instance, \<open>internal/instance/state.go\<close> and \<open>internal/instance/client.go\<close>.  Its
  state is one document in a Badger database of its own (in memory).  \<open>spec_of\<close> is what
  \<open>json.Unmarshal\<close> makes of the bytes of a specification (its engine and desired phase, or an
  error), \<open>sha256_hex\<close> the hexadecimal SHA-256.  The network is explicit: what the agent receives is
  an input of a step, and whether a message could be sent is given with it.
\<close>

section \<open>The state of the agent\<close>

definition stateKey :: string where
  "stateKey = ''runtime/state''"

record runtimeState =
  RunGeneration :: u64
  RunDigest :: string
  RunPhase :: string
  RunReason :: string

definition idle_state :: runtimeState where
  "idle_state = \<lparr>RunGeneration = 0, RunDigest = [], RunPhase = ''idle'', RunReason = []\<rparr>"

definition marshal_runtimeState :: "runtimeState \<Rightarrow> json" where
  "marshal_runtimeState st = JObj (
     [(''applied_generation'', JNum (uint (RunGeneration st))), (''spec_digest'', JStr (RunDigest st)),
      (''phase'', JStr (RunPhase st))] @ omit_string ''reason'' (RunReason st))"

text \<open>A missing member leaves what the state had before, which is the idle state.\<close>

definition unmarshal_runtimeState :: "json \<Rightarrow> json_error + runtimeState" where
  "unmarshal_runtimeState j =
     bindE (members j) (\<lambda>ms.
     bindE (read_u64 ms ''applied_generation'') (\<lambda>gen.
     bindE (read_string ms ''spec_digest'') (\<lambda>dig.
     bindE (case member ms ''phase'' of
         None \<Rightarrow> Inr (RunPhase idle_state) | Some JNull \<Rightarrow> Inr (RunPhase idle_state) | Some _ \<Rightarrow> read_string ms ''phase'') (\<lambda>phase.
     bindE (read_string ms ''reason'') (\<lambda>reason.
     Inr \<lparr>RunGeneration = gen, RunDigest = dig, RunPhase = phase, RunReason = reason\<rparr>)))))"

lemma unmarshal_marshal_runtimeState [simp]: "unmarshal_runtimeState (marshal_runtimeState st) = Inr st"
  by (cases st) (simp add: marshal_runtimeState_def unmarshal_runtimeState_def members_def read_defs)

definition load :: "'db badger \<Rightarrow> instant \<Rightarrow> 'db \<Rightarrow> store_error + runtimeState" where
  "load B now s = (case txn_get B s now stateKey of
       Inl ErrKeyNotFound \<Rightarrow> Inr idle_state
     | Inl e \<Rightarrow> Inl (StoreBadger e)
     | Inr it \<Rightarrow> bindE (ofB it) (decode unmarshal_runtimeState))"

record agent_spec =
  SpecEngine :: string
  SpecPhase :: string

definition apply_desired ::
    "'db badger \<Rightarrow> (string \<Rightarrow> string) \<Rightarrow> (string \<Rightarrow> json_error + agent_spec) \<Rightarrow> instant \<Rightarrow> DesiredState \<Rightarrow> 'db \<Rightarrow>
     (store_error + runtimeState) \<times> 'db" where
  "apply_desired B sha256_hex spec_of now desired s = (case load B now s of
       Inl e \<Rightarrow> (Inl e, s)
     | Inr state \<Rightarrow>
         if Generation desired < RunGeneration state then (Inl (StoreFailure ''desired generation regressed''), s)
         else if Generation desired = RunGeneration state \<and> RunDigest state \<noteq> [] \<and> SpecDigest desired \<noteq> RunDigest state
           then (Inl (StoreFailure ''digest changed without a new generation''), s)
         else if sha256_hex (CanonicalSpecBytes desired) \<noteq> SpecDigest desired
           then (Inl (StoreFailure ''canonical spec does not match its digest''), s)
         else case spec_of (CanonicalSpecBytes desired) of
             Inl e \<Rightarrow> (Inl (StoreJson e), s)
           | Inr spec \<Rightarrow>
               let state = state\<lparr>RunGeneration := Generation desired, RunDigest := SpecDigest desired,
                     RunPhase := ''unsupported'',
                     RunReason := ''adapter '' @ SpecEngine spec @ '' is catalogued but not enabled in this build''\<rparr>;
                   state = (if SpecPhase spec = ''stopped'' then state\<lparr>RunPhase := ''stopped'', RunReason := []\<rparr> else state)
               in Update B StoreBadger s (\<lambda>txn.
                    bindE (ofB (txn_set B txn stateKey (Doc (marshal_runtimeState state)))) (\<lambda>txn. Inr (state, txn))))"


section \<open>The control stream\<close>

text \<open>What one turn of the loop of \<open>connect\<close> selects.\<close>

datatype agent_input =
    CtxDone
  | Heartbeat
  | RecvFailed rpc_error
  | RecvClosed "rpc_error option" bool
  | FromHost HostMessage

definition receiveError :: "rpc_error \<Rightarrow> rpc_error" where
  "receiveError err = (if err = EOF then Plain ''host closed control stream'' else err)"

definition status_message :: "string \<Rightarrow> runtimeState \<Rightarrow> InstanceMessage" where
  "status_message iid st = StatusMessage
     \<lparr>StatusInstanceId = iid, StatusAppliedGeneration = RunGeneration st, StatusSpecDigest = RunDigest st,
      StatusPhase = RunPhase st, StatusReason = RunReason st\<rparr>"

text \<open>
  \<open>sendStatus\<close>; \<open>send_err\<close> is the error of \<open>stream.Send\<close>, if any.  The result is the error it
  returns and the message handed to the stream.
\<close>

definition sendStatus ::
    "'db badger \<Rightarrow> instant \<Rightarrow> string \<Rightarrow> rpc_error option \<Rightarrow> 'db \<Rightarrow> rpc_error option \<times> InstanceMessage list" where
  "sendStatus B now iid send_err s = (case load B now s of
       Inl e \<Rightarrow> (Some (Plain ''load''), [])
     | Inr st \<Rightarrow> (send_err, [status_message iid st]))"

text \<open>
  One turn: \<open>Some err\<close> ends the connection with that error.  \<open>RecvClosed\<close> carries what is in
  \<open>receiveErrors\<close> and whether the context is done.
\<close>

definition connect_turn ::
    "'db badger \<Rightarrow> (string \<Rightarrow> string) \<Rightarrow> (string \<Rightarrow> json_error + agent_spec) \<Rightarrow> instant \<Rightarrow> string \<Rightarrow> rpc_error option \<Rightarrow>
     agent_input \<Rightarrow> 'db \<Rightarrow> rpc_error option \<times> InstanceMessage list \<times> 'db" where
  "connect_turn B sha256_hex spec_of now iid send_err input s = (case input of
       CtxDone \<Rightarrow> (Some ContextCanceled, [], s)
     | Heartbeat \<Rightarrow> (case sendStatus B now iid send_err s of (e, out) \<Rightarrow> (e, out, s))
     | RecvFailed err \<Rightarrow> (Some (receiveError err), [], s)
     | RecvClosed (Some err) ctx \<Rightarrow> (Some (receiveError err), [], s)
     | RecvClosed None ctx \<Rightarrow> (Some (if ctx then ContextCanceled else Plain ''host closed control stream''), [], s)
     | FromHost (DesiredMessage d) \<Rightarrow>
         if DesiredInstanceId d \<noteq> iid then (Some (Plain ''desired state identity mismatch''), [], s)
         else (case apply_desired B sha256_hex spec_of now d s of
             (Inl e, s) \<Rightarrow> (Some (Plain ''apply desired state''), [], s)
           | (Inr st, s) \<Rightarrow> (case sendStatus B now iid send_err s of (e, out) \<Rightarrow> (e, out, s)))
     | FromHost _ \<Rightarrow> (None, [], s))"

text \<open>The loop of \<open>connect\<close> over the inputs it selects, until one of them ends it.\<close>

fun connect_loop ::
    "'db badger \<Rightarrow> (string \<Rightarrow> string) \<Rightarrow> (string \<Rightarrow> json_error + agent_spec) \<Rightarrow> string \<Rightarrow>
     (instant \<times> rpc_error option \<times> agent_input) list \<Rightarrow> 'db \<Rightarrow> rpc_error option \<times> InstanceMessage list \<times> 'db" where
  "connect_loop B sha256_hex spec_of iid [] s = (None, [], s)"
| "connect_loop B sha256_hex spec_of iid ((now, send_err, input) # inputs) s =
     (case connect_turn B sha256_hex spec_of now iid send_err input s of
        (Some err, out, s) \<Rightarrow> (Some err, out, s)
      | (None, out, s) \<Rightarrow> (case connect_loop B sha256_hex spec_of iid inputs s of (err, out', s) \<Rightarrow> (err, out @ out', s)))"


text \<open>
  The whole of \<open>connect\<close>: the errors of creating the client, opening the stream and sending the hello
  are given.
\<close>

definition hello_message :: "string \<Rightarrow> string \<Rightarrow> string \<Rightarrow> InstanceMessage" where
  "hello_message iid name version = HelloMessage
     \<lparr>HelloInstanceId = iid, HelloName = name, HelloAgentVersion = version, HelloCapabilities = Some [''desired-state-v1'']\<rparr>"

definition connect_agent ::
    "'db badger \<Rightarrow> (string \<Rightarrow> string) \<Rightarrow> (string \<Rightarrow> json_error + agent_spec) \<Rightarrow> string \<Rightarrow> string \<Rightarrow> string \<Rightarrow>
     rpc_error option \<Rightarrow> rpc_error option \<Rightarrow> rpc_error option \<Rightarrow>
     (instant \<times> rpc_error option \<times> agent_input) list \<Rightarrow> 'db \<Rightarrow> rpc_error option \<times> InstanceMessage list \<times> 'db" where
  "connect_agent B sha256_hex spec_of iid name version client_err open_err hello_err inputs s =
     (if client_err \<noteq> None then (client_err, [], s)
      else if open_err \<noteq> None then (open_err, [], s)
      else if hello_err \<noteq> None then (hello_err, [hello_message iid name version], s)
      else case connect_loop B sha256_hex spec_of iid inputs s of
          (err, out, s) \<Rightarrow> (err, hello_message iid name version # out, s))"


section \<open>Reconnecting\<close>

definition identityRejected :: "rpc_error option \<Rightarrow> bool" where
  "identityRejected err \<longleftrightarrow> status_code err = Unauthenticated \<or> status_code err = PermissionDenied"

datatype run_result =
    IdentityRejected rpc_error
  | Stopped rpc_error

definition next_backoff :: "duration \<Rightarrow> duration" where
  "next_backoff backoff = (if backoff < 30 * second then backoff * 2 else backoff)"

text \<open>
  The loop of \<open>Run\<close> over the results of its connections, each with whether the context ended while
  the agent waited.  The result is how it ended, if it did, and the pauses it made.
\<close>

fun run_loop :: "duration \<Rightarrow> (rpc_error option \<times> bool) list \<Rightarrow> run_result option \<times> duration list" where
  "run_loop backoff [] = (None, [])"
| "run_loop backoff ((err, ctx_done) # rest) =
     (if identityRejected err then (Some (IdentityRejected (the err)), [])
      else if err = Some ContextCanceled then (Some (Stopped ContextCanceled), [])
      else if ctx_done then (Some (Stopped ContextCanceled), [])
      else case run_loop (next_backoff backoff) rest of (r, pauses) \<Rightarrow> (r, backoff # pauses))"

definition Run :: "(rpc_error option \<times> bool) list \<Rightarrow> run_result option \<times> duration list" where
  "Run conns = run_loop second conns"


section \<open>Applying a desired state\<close>

lemma stateKey_not_session [simp]: "\<not> prefix sessionPrefix stateKey"
  by (simp add: key_defs stateKey_def)

text \<open>The state the database holds; in an agent's database nothing else is stored.\<close>

definition agent_state :: "contents \<Rightarrow> runtimeState" where
  "agent_state c = (case c 0 stateKey of
       Some (Doc j) \<Rightarrow> (case unmarshal_runtimeState j of Inr st \<Rightarrow> st | Inl _ \<Rightarrow> idle_state)
     | _ \<Rightarrow> idle_state)"

definition agent_ok :: "contents \<Rightarrow> bool" where
  "agent_ok c \<longleftrightarrow> timeless c \<and> (\<forall>v. c 0 stateKey = Some v \<longrightarrow> (\<exists>st. v = Doc (marshal_runtimeState st)))"

context reliable_badger
begin

lemma load_state:
  assumes "agent_ok (look s)"
  shows "load B now s = Inr (agent_state (look s))"
proof -
  have "look s now stateKey = look s 0 stateKey"
    by (rule timelessD) (use assms in \<open>simp_all add: agent_ok_def\<close>)
  then show ?thesis
    using assms by (cases "look s 0 stateKey") (auto simp: load_def agent_state_def agent_ok_def get_total get_total_none)
qed

end

lemma agent_state_upd:
  assumes "agent_ok c" and "\<And>t. c' t = (c t)(stateKey \<mapsto> Doc (marshal_runtimeState st))"
  shows "agent_ok c' \<and> agent_state c' = st"
proof -
  have "timeless c'" using timeless_eq [OF _ assms(2)] assms(1) by (simp add: agent_ok_def)
  then show ?thesis by (auto simp: agent_ok_def agent_state_def assms(2))
qed

text \<open>What a desired state is applied to: the specification of \<open>apply\<close>.\<close>

definition applied_state :: "DesiredState \<Rightarrow> agent_spec \<Rightarrow> runtimeState" where
  "applied_state d spec = \<lparr>RunGeneration = Generation d, RunDigest = SpecDigest d,
     RunPhase = (if SpecPhase spec = ''stopped'' then ''stopped'' else ''unsupported''),
     RunReason = (if SpecPhase spec = ''stopped'' then []
       else ''adapter '' @ SpecEngine spec @ '' is catalogued but not enabled in this build'')\<rparr>"

definition acceptable :: "(string \<Rightarrow> string) \<Rightarrow> (string \<Rightarrow> json_error + agent_spec) \<Rightarrow> runtimeState \<Rightarrow> DesiredState \<Rightarrow> bool" where
  "acceptable sha256_hex spec_of st d \<longleftrightarrow> RunGeneration st \<le> Generation d \<and>
     (Generation d = RunGeneration st \<and> RunDigest st \<noteq> [] \<longrightarrow> SpecDigest d = RunDigest st) \<and>
     sha256_hex (CanonicalSpecBytes d) = SpecDigest d \<and> \<not> isl (spec_of (CanonicalSpecBytes d))"

lemma runtimeState_all:
  "st\<lparr>RunGeneration := g, RunDigest := d, RunPhase := p, RunReason := r\<rparr> =
     \<lparr>RunGeneration = g, RunDigest = d, RunPhase = p, RunReason = r\<rparr>"
  by (cases st) simp

context serial_badger
begin

lemma apply_desired_cases:
  assumes ok: "agent_ok (look s)" and ap: "apply_desired B sha256_hex spec_of now d s = (r, s')"
  obtains (failed) e where "r = Inl e" and "look s' = look s"
      and "acceptable sha256_hex spec_of (agent_state (look s)) d \<Longrightarrow> e = StoreBadger ErrConflict"
    | (applied) spec where "r = Inr (applied_state d spec)" and "agent_ok (look s')"
      and "agent_state (look s') = applied_state d spec" and "spec_of (CanonicalSpecBytes d) = Inr spec"
      and "acceptable sha256_hex spec_of (agent_state (look s)) d"
proof (cases "acceptable sha256_hex spec_of (agent_state (look s)) d")
  case False
  then have "\<exists>e. r = Inl e" "s' = s"
    using ap by (auto simp: apply_desired_def load_state [OF ok] acceptable_def not_less split: if_splits sum.splits)
  with False show ?thesis by (auto intro: failed)
next
  case True
  then obtain spec where spec: "spec_of (CanonicalSpecBytes d) = Inr spec"
    by (cases "spec_of (CanonicalSpecBytes d)") (auto simp: acceptable_def)
  define body where "body = (\<lambda>txn. bindE (ofB (txn_set B txn stateKey (Doc (marshal_runtimeState (applied_state d spec)))))
    (\<lambda>txn. Inr (applied_state d spec, txn)))"
  have upd: "Update B StoreBadger s body = (r, s')"
  proof -
    have "apply_desired B sha256_hex spec_of now d s = Update B StoreBadger s body"
      using True spec unfolding body_def
      by (cases "SpecPhase spec = ''stopped''")
        (auto simp: apply_desired_def load_state [OF ok] acceptable_def applied_state_def runtimeState_all not_less Let_def)
    then show ?thesis using ap by simp
  qed
  obtain txn where txn: "txn_set B s stateKey (Doc (marshal_runtimeState (applied_state d spec))) = Inr txn"
    using set_total by blast
  have body: "body s = Inr (applied_state d spec, txn)" by (simp add: body_def txn)
  show ?thesis
  proof (cases r)
    case (Inl e)
    have "e = StoreBadger ErrConflict"
      using Update_total [where body = body, OF body, of StoreBadger] upd Inl by auto
    then show ?thesis using Inl upd by (auto intro: failed dest: Update_same)
  next
    case (Inr st)
    from upd [unfolded Inr] obtain txn' where "body s = Inr (st, txn')" "look s' = look txn'"
      by (rule Update_ok)
    then have "st = applied_state d spec" "\<And>t. look s' t = (look s t)(stateKey \<mapsto> Doc (marshal_runtimeState (applied_state d spec)))"
      using body set_value [OF txn] by auto
    with Inr True spec agent_state_upd [OF ok] show ?thesis by (auto intro: applied)
  qed
qed

end

text \<open>A later state of the agent: no smaller generation, and the digest of a generation stays.\<close>

definition advances :: "runtimeState \<Rightarrow> runtimeState \<Rightarrow> bool" where
  "advances st st' \<longleftrightarrow> RunGeneration st \<le> RunGeneration st' \<and>
     (RunGeneration st' = RunGeneration st \<and> RunDigest st \<noteq> [] \<longrightarrow> RunDigest st' = RunDigest st)"

lemma advances_refl [simp]: "advances st st"
  by (simp add: advances_def)

lemma advances_trans: "advances a b \<Longrightarrow> advances b c \<Longrightarrow> advances a c"
  by (auto simp: advances_def)

lemma acceptable_advances: "acceptable sha256_hex spec_of st d \<Longrightarrow> advances st (applied_state d spec)"
  by (auto simp: acceptable_def advances_def applied_state_def)

text \<open>The states the messages sent report, in order.\<close>

definition reports_progress :: "string \<Rightarrow> runtimeState \<Rightarrow> runtimeState \<Rightarrow> InstanceMessage list \<Rightarrow> bool" where
  "reports_progress iid st st' out \<longleftrightarrow> (\<exists>sts. out = map (status_message iid) sts \<and> sorted_wrt advances (st # sts @ [st']))"

lemma reports_progress_append:
  assumes "reports_progress iid a b out" and "reports_progress iid b c out'"
  shows "reports_progress iid a c (out @ out')"
proof -
  from assms obtain xs ys where xs: "out = map (status_message iid) xs" "sorted_wrt advances (a # xs @ [b])"
    and ys: "out' = map (status_message iid) ys" "sorted_wrt advances (b # ys @ [c])"
    by (auto simp: reports_progress_def)
  have "sorted_wrt advances (a # (xs @ ys) @ [c])"
    using xs(2) ys(2) by (auto simp: sorted_wrt_append intro: advances_trans)
  with xs(1) ys(1) show ?thesis unfolding reports_progress_def by (intro exI [of _ "xs @ ys"]) simp
qed

context serial_badger
begin

lemma connect_turn_advances:
  assumes ok: "agent_ok (look s)" and turn: "connect_turn B sha256_hex spec_of now iid send_err input s = (err, out, s')"
  shows "agent_ok (look s') \<and> reports_progress iid (agent_state (look s)) (agent_state (look s')) out"
proof -
  have idle: "reports_progress iid st st []" for st by (simp add: reports_progress_def)
  have status: "reports_progress iid st st' [status_message iid st']" if "advances st st'" for st st'
    using that unfolding reports_progress_def by (intro exI [of _ "[st']"]) simp
  show ?thesis
  proof (cases "\<exists>d. input = FromHost (DesiredMessage d) \<and> DesiredInstanceId d = iid")
    case False
    then have "s' = s \<and> (out = [] \<or> out = [status_message iid (agent_state (look s))])"
      using turn by (cases input) (auto simp: connect_turn_def sendStatus_def load_state [OF ok] split: HostMessage.splits
          option.splits prod.splits if_splits)
    then show ?thesis
      using ok idle [of "agent_state (look s)"] status [OF advances_refl [of "agent_state (look s)"]] by metis
  next
    case True
    then obtain d where d: "input = FromHost (DesiredMessage d)" "DesiredInstanceId d = iid" by blast
    obtain r s1 where ap: "apply_desired B sha256_hex spec_of now d s = (r, s1)" by fastforce
    from ok ap show ?thesis
    proof (cases rule: apply_desired_cases)
      case (failed e)
      then have "s' = s1" "out = []" using turn d ap by (auto simp: connect_turn_def)
      then show ?thesis using ok failed(2) idle [of "agent_state (look s)"] by metis
    next
      case (applied spec)
      then have "s' = s1" "out = [status_message iid (agent_state (look s1))]"
        using turn d ap by (auto simp: connect_turn_def sendStatus_def load_state split: prod.splits)
      then show ?thesis
        using applied(2,3) status [OF acceptable_advances [OF applied(5), of spec]] by simp
    qed
  qed
qed

lemma connect_loop_advances:
  assumes "agent_ok (look s)" and "connect_loop B sha256_hex spec_of iid inputs s = (err, out, s')"
  shows "agent_ok (look s') \<and> reports_progress iid (agent_state (look s)) (agent_state (look s')) out"
  using assms
proof (induction inputs arbitrary: s out)
  case Nil
  then show ?case by (simp add: reports_progress_def)
next
  case (Cons x inputs)
  obtain now send_err input where x: "x = (now, send_err, input)" by (cases x)
  obtain e o1 s1 where turn: "connect_turn B sha256_hex spec_of now iid send_err input s = (e, o1, s1)"
    using prod_cases3 by blast
  note one = connect_turn_advances [OF Cons.prems(1) turn]
  show ?case
  proof (cases e)
    case (Some err1)
    with Cons.prems(2) turn one show ?thesis by (simp add: x)
  next
    case None
    obtain e2 o2 s2 where rest: "connect_loop B sha256_hex spec_of iid inputs s1 = (e2, o2, s2)"
      using prod_cases3 by blast
    with Cons.prems(2) turn None have eq: "s' = s2" "err = e2" "out = o1 @ o2" by (simp_all add: x)
    moreover have "agent_ok (look s2) \<and> reports_progress iid (agent_state (look s1)) (agent_state (look s2)) o2"
      using one Cons.IH [of s1 o2] rest eq by simp
    ultimately show ?thesis using one reports_progress_append by blast
  qed
qed

end


section \<open>What the agent guarantees\<close>

definition example_desired :: "u64 \<Rightarrow> string \<Rightarrow> DesiredState" where
  "example_desired g spec = \<lparr>DesiredInstanceId = ''a'', Generation = g, SpecDigest = spec, CanonicalSpecBytes = spec\<rparr>"

definition example_spec_of :: "string \<Rightarrow> json_error + agent_spec" where
  "example_spec_of bytes = Inr \<lparr>SpecEngine = ''xray'', SpecPhase = bytes\<rparr>"

lemma agent_ok_empty [simp]: "agent_ok (map_look empty_db)" "agent_state (map_look empty_db) = idle_state"
  by (auto simp: agent_ok_def agent_state_def timeless_def)

text \<open>
  \<open>apply\<close> on every branch: a desired state whose generation does not go back, whose digest is
  the one the generation already has, if it has one, and the digest of its bytes, and whose bytes are
  a specification, is applied and stored (unless the commit meets a conflict); any other is refused
  and changes nothing.
\<close>

theorem agent_applies_desired:
  assumes "serial_badger B look rely" and "agent_ok (look s)"
    and "apply_desired B sha256_hex spec_of now d s = (r, s')"
  shows "(acceptable sha256_hex spec_of (agent_state (look s)) d \<longrightarrow>
      r = Inl (StoreBadger ErrConflict) \<and> look s' = look s \<or>
      (\<exists>spec. spec_of (CanonicalSpecBytes d) = Inr spec \<and> r = Inr (applied_state d spec) \<and>
        agent_state (look s') = applied_state d spec \<and> agent_ok (look s'))) \<and>
    (\<not> acceptable sha256_hex spec_of (agent_state (look s)) d \<longrightarrow> isl r \<and> look s' = look s)"
  using serial_badger.apply_desired_cases [OF assms] by (cases rule: serial_badger.apply_desired_cases [OF assms]) auto

theorem agent_applies_desired_witness:
  "\<exists>s'. apply_desired map_badger id example_spec_of 5 (example_desired 1 ''stopped'') empty_db =
     (Inr \<lparr>RunGeneration = 1, RunDigest = ''stopped'', RunPhase = ''stopped'', RunReason = []\<rparr>, s') \<and>
   agent_state (map_look s') = \<lparr>RunGeneration = 1, RunDigest = ''stopped'', RunPhase = ''stopped'', RunReason = []\<rparr>"
proof -
  let ?r = "apply_desired map_badger id example_spec_of 5 (example_desired 1 ''stopped'') empty_db"
  have acc: "acceptable id example_spec_of idle_state (example_desired 1 ''stopped'')"
    by (simp add: acceptable_def idle_state_def example_desired_def example_spec_of_def)
  have "fst ?r \<noteq> Inl (StoreBadger ErrConflict)"
    by (simp add: apply_desired_def load_def map_badger_simps idle_state_def example_desired_def example_spec_of_def Update_def Let_def)
  with agent_applies_desired [OF map_db.serial_badger_axioms agent_ok_empty(1) surjective_pairing,
      where sha256_hex = id and spec_of = example_spec_of and now = 5 and d = "example_desired 1 ''stopped''",
      unfolded agent_ok_empty(2)] acc
  have "\<exists>spec. example_spec_of (CanonicalSpecBytes (example_desired 1 ''stopped'')) = Inr spec \<and>
      fst ?r = Inr (applied_state (example_desired 1 ''stopped'') spec) \<and>
      agent_state (map_look (snd ?r)) = applied_state (example_desired 1 ''stopped'') spec"
    by blast
  then have "fst ?r = Inr \<lparr>RunGeneration = 1, RunDigest = ''stopped'', RunPhase = ''stopped'', RunReason = []\<rparr>"
    "agent_state (map_look (snd ?r)) = \<lparr>RunGeneration = 1, RunDigest = ''stopped'', RunPhase = ''stopped'', RunReason = []\<rparr>"
    by (auto simp: applied_state_def example_desired_def example_spec_of_def)
  then show ?thesis by (metis prod.collapse)
qed

text \<open>
  C27.  Along a connection, whatever the host sends and whichever sends fail, the agent's generation
  never goes back and a generation never changes its digest; and every status the agent sends is
  such a later state, in order.
\<close>

theorem agent_never_regresses:
  assumes "serial_badger B look rely" and "agent_ok (look s)"
    and "connect_loop B sha256_hex spec_of iid inputs s = (err, out, s')"
  shows "\<exists>sts. out = map (status_message iid) sts \<and>
    sorted_wrt advances (agent_state (look s) # sts @ [agent_state (look s')])"
  using serial_badger.connect_loop_advances [OF assms] by (simp add: reports_progress_def)

theorem agent_never_regresses_witness:
  "\<exists>sts. fst (snd (connect_loop map_badger id example_spec_of ''a''
      [(1, None, FromHost (DesiredMessage (example_desired 2 ''stopped''))), (2, None, Heartbeat),
       (3, None, FromHost (DesiredMessage (example_desired 1 ''stopped'')))] empty_db)) = map (status_message ''a'') sts \<and>
    sorted_wrt advances (idle_state # sts)"
proof -
  let ?in = "[(1, None, FromHost (DesiredMessage (example_desired 2 ''stopped''))), (2, None, Heartbeat),
       (3, None, FromHost (DesiredMessage (example_desired 1 ''stopped'')))]"
  obtain err out s' where "connect_loop map_badger id example_spec_of ''a'' ?in empty_db = (err, out, s')"
    using prod_cases3 by blast
  moreover from agent_never_regresses [OF map_db.serial_badger_axioms agent_ok_empty(1) this, unfolded agent_ok_empty(2)]
  obtain sts where "out = map (status_message ''a'') sts" "sorted_wrt advances (idle_state # sts @ [agent_state (map_look s')])"
    by blast
  ultimately show ?thesis by (intro exI [of _ sts]) (simp add: sorted_wrt_append)
qed

lemma run_loop_stops:
  "fst (run_loop backoff conns) = Some (IdentityRejected e) \<Longrightarrow>
   \<exists>xs ys d. conns = xs @ (Some e, d) # ys \<and> identityRejected (Some e) \<and>
     (\<forall>(err, done)\<in>set xs. \<not> identityRejected err) \<and> length (snd (run_loop backoff conns)) = length xs"
proof (induction backoff conns rule: run_loop.induct)
  case (1 backoff)
  then show ?case by simp
next
  case (2 backoff err ctx_done rest)
  show ?case
  proof (cases "identityRejected err")
    case True
    with 2 have "err = Some e" by (cases err) (auto simp: identityRejected_def status_code_def)
    with True show ?thesis by (intro exI [of _ "[]"] exI [of _ rest] exI [of _ ctx_done]) simp
  next
    case False
    with "2.prems" have "err \<noteq> Some ContextCanceled" "\<not> ctx_done"
      "fst (run_loop (next_backoff backoff) rest) = Some (IdentityRejected e)"
      by (auto split: if_splits prod.splits)
    with "2.IH" [OF False] obtain xs ys d where "rest = xs @ (Some e, d) # ys" "identityRejected (Some e)"
      "\<forall>(err, done)\<in>set xs. \<not> identityRejected err"
      "length (snd (run_loop (next_backoff backoff) rest)) = length xs" by auto
    with False \<open>err \<noteq> Some ContextCanceled\<close> \<open>\<not> ctx_done\<close> show ?thesis
      by (intro exI [of _ "(err, ctx_done) # xs"] exI [of _ ys] exI [of _ d]) (auto split: prod.splits)
  qed
qed

lemma run_loop_pauses:
  "i < length (snd (run_loop backoff conns)) \<Longrightarrow> snd (run_loop backoff conns) ! i = (next_backoff ^^ i) backoff"
proof (induction backoff conns arbitrary: i rule: run_loop.induct)
  case (1 backoff)
  then show ?case by simp
next
  case (2 backoff err ctx_done rest)
  then show ?case
    by (cases i) (auto simp: funpow_swap1 split: if_splits prod.splits)
qed

lemma next_backoff_steps: "(next_backoff ^^ i) second = second * 2 ^ min i 5"
proof (induction i)
  case 0
  then show ?case by simp
next
  case (Suc i)
  consider "i = 0" | "i = 1" | "i = 2" | "i = 3" | "i = 4" | "5 \<le> i" by linarith
  then have "next_backoff (second * 2 ^ min i 5) = second * 2 ^ min (Suc i) 5"
    by cases (simp_all add: next_backoff_def)
  with Suc show ?case by simp
qed

text \<open>
  Reconnecting: a connection the host ends with \<open>Unauthenticated\<close> or \<open>PermissionDenied\<close> is the
  last one, and nothing else is taken for it; and the agent's pauses between connections are 1, 2, 4,
  8, 16 and then always 32 seconds.
\<close>

theorem agent_reconnects:
  "(fst (Run conns) = Some (IdentityRejected e) \<longrightarrow>
     (\<exists>xs ys d. conns = xs @ (Some e, d) # ys \<and> identityRejected (Some e) \<and>
       (\<forall>(err, done)\<in>set xs. \<not> identityRejected err) \<and> length (snd (Run conns)) = length xs)) \<and>
   (\<forall>i<length (snd (Run conns)). snd (Run conns) ! i = second * 2 ^ min i 5)"
  using run_loop_stops [of second conns e] run_loop_pauses [of _ second conns] next_backoff_steps
  by (auto simp: Run_def)

theorem agent_reconnects_witness:
  "let conns = [(Some (Status Aborted ''connection closed''), False), (Some (Status PermissionDenied ''instance is not enrolled''), False),
      (None, False)] in
   Run conns = (Some (IdentityRejected (Status PermissionDenied ''instance is not enrolled'')), [second]) \<and>
   snd (Run conns) ! 0 = second * 2 ^ min 0 5"
proof -
  let ?c = "[(Some (Status Aborted ''connection closed''), False), (Some (Status PermissionDenied ''instance is not enrolled''), False),
      (None, False)]"
  have "Run ?c = (Some (IdentityRejected (Status PermissionDenied ''instance is not enrolled'')), [second])"
    by (simp add: Run_def identityRejected_def status_code_def)
  with agent_reconnects [of ?c "Status PermissionDenied ''instance is not enrolled''"] show ?thesis by simp
qed

end
