(* ===== verification/Programs.thy ===== *)
theory Programs
  imports Pki Auth Agent
begin

text \<open>
  The two programs: \<open>cmd/ulcer-host/main.go\<close> up to the point where it serves, over the files of the host,
  and the exit status of \<open>cmd/ulcer-instance/main.go\<close>.
\<close>

section \<open>The host\<close>

text \<open>
  What the outside gives a start: the database in a directory, whether a certificate and a key make a TLS
  pair, and whether an address can be listened on.
\<close>

record 'db outside =
  open_store :: "string \<Rightarrow> 'db option"
  key_pair :: "string \<Rightarrow> string \<Rightarrow> bool"
  can_listen :: "string \<Rightarrow> bool"

datatype start_error = StartOs os_error | StartStore | StartAuth auth_error | StartPki pki_error | StartTLS | StartListen

record ('key, 'cert) running =
  run_conf :: config_Host
  run_service :: Service
  run_authority :: "('key, 'cert) Authority"
  run_bundle :: Bundle

definition host_run ::
    "'db badger \<Rightarrow> random \<Rightarrow> ('key, 'cert) crypto \<Rightarrow> 'db outside \<Rightarrow> instant \<Rightarrow> (string \<Rightarrow> string) \<Rightarrow> fs \<Rightarrow>
     (start_error + ('key, 'cert) running) \<times> fs" where
  "host_run B rand C out now env f =
     (let configuration = HostFromEnv env; dataDir = HostDataDir configuration in
      case MkdirAll f dataDir of
        Inl e \<Rightarrow> (Inl (StartOs e), f)
      | Inr f \<Rightarrow> (case open_store out (Join [dataDir, ''badger'']) of
            None \<Rightarrow> (Inl StartStore, f)
          | Some s \<Rightarrow> (case New B rand now dataDir (ConfigSetupToken configuration) s f of
                (Inl e, f) \<Rightarrow> (Inl (StartAuth e), f)
              | (Inr (service, generated), f) \<Rightarrow> (case Ensure C 0 now dataDir (PublicName configuration) f of
                    (Inl e, f) \<Rightarrow> (Inl (StartPki e), f)
                  | (Inr (authority, serverBundle), f) \<Rightarrow>
                      if \<not> key_pair out (CertificatePEM serverBundle) (BundleKeyPEM serverBundle) then (Inl StartTLS, f)
                      else if \<not> can_listen out (GRPCAddr configuration) then (Inl StartListen, f)
                      else (Inr \<lparr>run_conf = configuration, run_service = service, run_authority = authority, run_bundle = serverBundle\<rparr>, f)))))"

lemma TrimSpace_line:
  assumes "\<forall>c\<in>set s. \<not> is_space c"
  shows "TrimSpace (s @ [CHR 0x0A]) = s"
proof -
  have nl: "is_space (CHR 0x0A)" by (simp add: is_space_def)
  show ?thesis
  proof (cases s)
    case (Cons c cs)
    then have "dropWhile is_space (s @ [CHR 0x0A]) = s @ [CHR 0x0A]" using assms by simp
    then show ?thesis using assms nl by (simp add: TrimSpace_def dropWhile_none)
  qed (simp add: TrimSpace_def nl)
qed

lemma hex_no_space: "\<forall>c\<in>set (EncodeToString d). \<not> is_space c"
proof -
  have "\<forall>c\<in>set hex_chars. \<not> is_space c" by (simp add: hex_chars_def is_space_def)
  then show ?thesis using EncodeToString_chars by blast
qed

text \<open>The setup token of a start is the one of the next start.\<close>

lemma setupToken_again:
  assumes "setupToken_fn rand dataDir configured f = (Inr (token, tokenPath, gen), f1)"
    and same: "failing f2 = failing f1" "files f2 (Join [dataDir, ''setup.token'']) = files f1 (Join [dataDir, ''setup.token''])"
  shows "\<exists>gen'. setupToken_fn rand' dataDir configured f2 = (Inr (token, tokenPath, gen'), f2)"
proof (cases "configured = []")
  case False
  with assms(1) show ?thesis by (auto simp: setupToken_fn_def)
next
  case True
  let ?p = "Join [dataDir, ''setup.token'']"
  have "ReadFile f2 ?p = ReadFile f1 ?p" using same by (simp add: ReadFile_def)
  moreover have "tokenPath = ?p \<and> (\<exists>d. ReadFile f1 ?p = Inr d \<and> TrimSpace d = token)"
  proof (cases "ReadFile f ?p")
    case (Inr d)
    with assms(1) True show ?thesis by (simp add: setupToken_fn_def)
  next
    case (Inl e)
    with assms(1) True obtain d where "rand 0 24 = Some d" "token = EncodeToString d" "tokenPath = ?p"
      "WriteFile f ?p (token @ [CHR 0x0A]) = (Inr (), f1)"
      by (auto simp: setupToken_fn_def Let_def randomHex_def MkdirAll_def split: os_error.splits option.splits sum.splits prod.splits if_splits)
    then show ?thesis using TrimSpace_line [OF hex_no_space] by (auto simp: WriteFile_def ReadFile_def split: if_splits)
  qed
  ultimately show ?thesis using True by (auto simp: setupToken_fn_def)
qed

lemma setupToken_files:
  assumes "setupToken_fn rand dataDir configured f = (Inr x, f1)"
  shows "failing f1 = failing f"
  using assms by (auto simp: setupToken_fn_def Let_def MkdirAll_def WriteFile_def split: if_splits sum.splits prod.splits os_error.splits)

lemma New_again:
  assumes "New B rand now dataDir configured s f = (Inr (service, gen), f1)"
    and "failing f2 = failing f1" "files f2 (Join [dataDir, ''setup.token'']) = files f1 (Join [dataDir, ''setup.token''])"
    and "OperatorReady B later s' = OperatorReady B now s"
  shows "\<exists>gen'. New B rand' later dataDir configured s' f2 = (Inr (service, gen'), f2)"
proof (cases "OperatorReady B now s")
  case (Inr ready)
  show ?thesis
  proof (cases ready)
    case False
    with assms(1) Inr obtain token tokenPath where tok: "setupToken_fn rand dataDir configured f = (Inr (token, tokenPath, gen), f1)"
      and sv: "service = \<lparr>setupTokenPath = tokenPath, setupToken = token\<rparr>"
      by (auto simp: New_def split: sum.splits prod.splits)
    from setupToken_again [OF tok assms(2,3), of rand'] sv Inr False assms(4) show ?thesis by (auto simp: New_def)
  qed (use assms Inr in \<open>auto simp: New_def\<close>)
qed (use assms in \<open>simp add: New_def\<close>)

lemma New_failing: "New B rand now dataDir configured s f = (Inr x, f1) \<Longrightarrow> failing f1 = failing f"
  by (auto simp: New_def dest: setupToken_files split: sum.splits bool.splits prod.splits)

lemma setup_path: "w \<in> {''ca.crt'', ''ca.key'', ''host.crt'', ''host.key''} \<Longrightarrow> Join [d, ''setup.token''] \<noteq> Join [d', w]"
  by (elim insertE; simp) (rule Join_distinct; simp add: suffix_def)+

text \<open>
  C16.  A restart changes nothing: when the host has started, then starting it again on the files it left,
  with the same environment, at any time, with other random numbers and with whatever the database holds by
  then, as long as the operator is configured in it exactly if before, succeeds with the same setup token,
  the same authority and the same certificate, and leaves the files as they are.
\<close>

theorem host_restart_stable:
  assumes "host_run B rand C out now env f = (Inr r, f')"
    and "\<And>p s. open_store out p = Some s \<Longrightarrow> \<exists>s'. open_store out' p = Some s' \<and> OperatorReady B later s' = OperatorReady B now s"
    and "key_pair out' = key_pair out" and "can_listen out' = can_listen out"
  shows "host_run B rand' C out' later env f' = (Inr r, f')"
proof -
  define conf dataDir where "conf = HostFromEnv env" and "dataDir = HostDataDir conf"
  obtain s service gen f1 authority b where mk: "\<not> failing f dataDir" and st: "open_store out (Join [dataDir, ''badger'']) = Some s"
    and new: "New B rand now dataDir (ConfigSetupToken conf) s f = (Inr (service, gen), f1)"
    and en: "Ensure C 0 now dataDir (PublicName conf) f1 = (Inr (authority, b), f')"
    and ok: "key_pair out (CertificatePEM b) (BundleKeyPEM b)" "can_listen out (GRPCAddr conf)"
    and r: "r = \<lparr>run_conf = conf, run_service = service, run_authority = authority, run_bundle = b\<rparr>"
    using assms(1) unfolding host_run_def Let_def conf_def [symmetric] dataDir_def [symmetric]
    by (auto simp: MkdirAll_def split: sum.splits prod.splits option.splits if_splits)
  note frame = Ensure_frame [OF en setup_path]
  have fail: "failing f' = failing f" using frame(1) New_failing [OF new] by simp
  obtain s' where st': "open_store out' (Join [dataDir, ''badger'']) = Some s'" "OperatorReady B later s' = OperatorReady B now s"
    using assms(2) [OF st] by blast
  obtain gen' where "New B rand' later dataDir (ConfigSetupToken conf) s' f' = (Inr (service, gen'), f')"
    using New_again [OF new frame st'(2)] by blast
  moreover have "Ensure C 0 later dataDir (PublicName conf) f' = (Inr (authority, b), f')"
    by (rule Ensure_again [OF Ensure_ok [OF en]])
  ultimately show ?thesis
    unfolding host_run_def Let_def conf_def [symmetric] dataDir_def [symmetric]
    using mk fail st' ok assms(3,4) r by (simp add: MkdirAll_def)
qed


section \<open>The instance\<close>

text \<open>
  \<open>tlsConfig\<close> of the agent: \<open>key_pair\<close> says whether two PEM texts are a certificate and its key, \<open>certs_of\<close> is
  what \<open>AppendCertsFromPEM\<close> finds in a text.
\<close>

definition VersionTLS13 :: nat where
  "VersionTLS13 = 0x304"

datatype tls_error = TlsRead os_error | TlsPair | TlsNoAuthority

record 'cert tls_config =
  MinVersion :: nat
  Certificates :: "(string \<times> string) list"
  RootCAs :: "'cert list"
  TlsServerName :: string

definition tlsConfig ::
    "(string \<Rightarrow> string \<Rightarrow> bool) \<Rightarrow> (string \<Rightarrow> 'cert list) \<Rightarrow> config_Instance \<Rightarrow> fs \<Rightarrow> tls_error + 'cert tls_config" where
  "tlsConfig pair certs_of conf f =
     bindE (map_sum TlsRead id (ReadFile f (CertFile conf))) (\<lambda>cert.
     bindE (map_sum TlsRead id (ReadFile f (KeyFile conf))) (\<lambda>key.
     if \<not> pair cert key then Inl TlsPair
     else bindE (map_sum TlsRead id (ReadFile f (CAFile conf))) (\<lambda>caPEM.
       if certs_of caPEM = [] then Inl TlsNoAuthority
       else Inr \<lparr>MinVersion = VersionTLS13, Certificates = [(cert, key)], RootCAs = certs_of caPEM, TlsServerName = ConfigServerName conf\<rparr>)))"

text \<open>
  The exit status of the agent's program, \<open>None\<close> while it runs: \<open>created\<close> says whether the client could be
  made.
\<close>

definition instance_main ::
    "(string \<Rightarrow> string) \<Rightarrow> (config_Instance \<Rightarrow> bool) \<Rightarrow> (string \<Rightarrow> string \<Rightarrow> bool) \<Rightarrow> (string \<Rightarrow> 'cert list) \<Rightarrow> fs \<Rightarrow>
     (rpc_error option \<times> bool) list \<Rightarrow> nat option" where
  "instance_main env created pair certs_of f attempts = (case InstanceFromEnv env of
       None \<Rightarrow> Some 2
     | Some configuration \<Rightarrow>
         if \<not> created configuration then Some 1
         else case tlsConfig pair certs_of configuration f of
           Inl e \<Rightarrow> Some 1
         | Inr tls \<Rightarrow> map_option (\<lambda>err. case err of
               IdentityRejected e \<Rightarrow> 0
             | Stopped ContextCanceled \<Rightarrow> 0
             | Stopped e \<Rightarrow> 1) (fst (Run attempts)))"

text \<open>
  An agent that finds the files an authority issued presents the certificate it was given, and trusts a
  host exactly as far as the authority file of the host goes.
\<close>

lemma installed_agent_trusts:
  assumes "IssueInstanceFiles C i now f a iid = Inr creds"
    and "ReadFile g (CertFile conf) = Inr (Certificate creds)" and "ReadFile g (KeyFile conf) = Inr (PrivateKey creds)"
    and "ReadFile g (CAFile conf) = Inr (CA creds)"
    and "pair (Certificate creds) (PrivateKey creds)" and "certs_of (CA creds) \<noteq> []"
  shows "\<exists>caPEM. ReadFile f (Join [auth_dir a, ''ca.crt'']) = Inr caPEM \<and>
    tlsConfig pair certs_of conf g = Inr \<lparr>MinVersion = VersionTLS13, Certificates = [(Certificate creds, PrivateKey creds)], RootCAs = certs_of caPEM,
      TlsServerName = ConfigServerName conf\<rparr>"
  using IssueInstanceFiles_CA [OF assms(1)] assms(2-) by (simp add: tlsConfig_def)

lemma run_loop_results: "fst (run_loop backoff attempts) = Some r \<Longrightarrow> (\<exists>e. r = IdentityRejected e) \<or> r = Stopped ContextCanceled"
  by (induction backoff attempts rule: run_loop.induct) (auto split: if_splits prod.splits)

text \<open>
  An agent whose identity is rejected stays stopped: its program exits with status 0, and the unit it runs
  under restarts it only on a failure.
\<close>

lemma rejected_agent_stays_stopped:
  assumes "InstanceFromEnv env = Some conf" and "created conf" and "tlsConfig pair certs_of conf f = Inr tls" and "fst (Run attempts) = Some r"
  shows "instance_main env created pair certs_of f attempts = Some 0 \<and> ''Restart=on-failure'' \<in> set (unit_lines iid img)"
  using assms run_loop_results [of second attempts r]
  by (auto simp: instance_main_def Run_def unit_lines_def Let_def)


section \<open>An example\<close>

definition example_outside :: "map_db outside" where
  "example_outside = \<lparr>open_store = (\<lambda>_. Some empty_db), key_pair = (\<lambda>_ _. True), can_listen = (\<lambda>_. True)\<rparr>"

definition example_host_env :: "string \<Rightarrow> string" where
  "example_host_env v = (if v = ''ULCER_DATA_DIR'' then ''/data'' else if v = ''ULCER_PUBLIC_NAME'' then ''ulcer.example'' else
     if v = ''ULCER_SETUP_TOKEN'' then ''secret'' else [])"

text \<open>The database of the second start is another one: a setup has begun.\<close>

definition later_outside :: "map_db outside" where
  "later_outside = example_outside\<lparr>open_store := (\<lambda>_. Some pending_db)\<rparr>"

theorem host_restart_stable_witness:
  "\<exists>r f. host_run map_badger example_rand example_crypto example_outside 5 example_host_env no_pki = (Inr r, f) \<and>
     host_run map_badger (\<lambda>_ _. None) example_crypto later_outside 99 example_host_env f = (Inr r, f)"
proof -
  have conf: "HostDataDir (HostFromEnv example_host_env) = ''/data''" "PublicName (HostFromEnv example_host_env) = ''ulcer.example''"
    "ConfigSetupToken (HostFromEnv example_host_env) = ''secret''"
    by (code_simp, code_simp, code_simp)
  obtain b f where en: "Ensure example_crypto 0 5 ''/data'' ''ulcer.example'' no_pki = (Inr (example_authority, b), f)" by (rule example_Ensure)
  obtain r where run: "host_run map_badger example_rand example_crypto example_outside 5 example_host_env no_pki = (Inr r, f)"
    using en by (simp add: host_run_def Let_def conf MkdirAll_def no_pki_def example_outside_def New_def OperatorReady_def map_badger_ops setupToken_fn_def)
  have same: "open_store example_outside p = Some s \<Longrightarrow>
      \<exists>s'. open_store later_outside p = Some s' \<and> OperatorReady map_badger 99 s' = OperatorReady map_badger 5 s" for p s
    by (auto simp: example_outside_def later_outside_def OperatorReady_def map_badger_ops pending_db_def)
  have "host_run map_badger (\<lambda>_ _. None) example_crypto later_outside 99 example_host_env f = (Inr r, f)"
    by (rule host_restart_stable [OF run same]) (simp_all add: later_outside_def)
  with run show ?thesis by blast
qed

end
