(* ===== verification/Url.thy ===== *)
theory Url
  imports Text
begin

text \<open>
  The parts of Go's \<open>net/url\<close> the sources use: escaping and unescaping of a path segment.
\<close>

definition upper_hex :: "nat \<Rightarrow> char" where
  "upper_hex n = ''0123456789ABCDEF'' ! n"

definition unhex :: "char \<Rightarrow> nat option" where
  "unhex c =
     (let n = of_char c in
      if 48 \<le> n \<and> n \<le> 57 then Some (n - 48)
      else if 97 \<le> n \<and> n \<le> 102 then Some (n - 87)
      else if 65 \<le> n \<and> n \<le> 70 then Some (n - 55)
      else None)"

text \<open>\<open>shouldEscape\<close> in the mode of a path segment.\<close>

definition segment_char :: "char \<Rightarrow> bool" where
  "segment_char c \<longleftrightarrow>
     (let n = (of_char c :: nat) in 48 \<le> n \<and> n \<le> 57 \<or> 65 \<le> n \<and> n \<le> 90 \<or> 97 \<le> n \<and> n \<le> 122) \<or> c \<in> set ''-_.~$&+:=@''"

definition escape_char :: "char \<Rightarrow> string" where
  "escape_char c =
     (if segment_char c then [c] else [CHR ''%'', upper_hex (of_char c div 16), upper_hex (of_char c mod 16)])"

definition PathEscape :: "string \<Rightarrow> string" where
  "PathEscape s = concat (map escape_char s)"

fun PathUnescape :: "string \<Rightarrow> string option" where
  "PathUnescape [] = Some []"
| "PathUnescape (c # cs) =
     (if c = CHR ''%'' then
        (case cs of
           h # l # rest \<Rightarrow> (case (unhex h, unhex l) of
               (Some a, Some b) \<Rightarrow> map_option (\<lambda>s. char_of (16 * a + b) # s) (PathUnescape rest)
             | _ \<Rightarrow> None)
         | _ \<Rightarrow> None)
      else map_option (\<lambda>s. c # s) (PathUnescape cs))"

lemma upper_hex_segment: "n < 16 \<Longrightarrow> segment_char (upper_hex n) \<and> unhex (upper_hex n) = Some n"
proof -
  assume "n < 16"
  then have "n \<in> set [0..<16]" by simp
  moreover have "\<forall>n\<in>set [0..<16]. segment_char (upper_hex n) \<and> unhex (upper_hex n) = Some n" by code_simp
  ultimately show ?thesis by blast
qed

lemma char_halves: "of_char c div 16 < (16 :: nat)" "of_char c mod 16 < (16 :: nat)" for c :: char
  using nat_of_char_less_256 [of c] by (simp_all add: less_mult_imp_div_less)

lemma segment_char_percent [simp]: "\<not> segment_char (CHR ''%'')" "\<not> segment_char (CHR ''/'')"
  by (simp_all add: segment_char_def)

lemma PathUnescape_escape_char: "PathUnescape (escape_char c @ s) = map_option (\<lambda>s. c # s) (PathUnescape s)"
proof (cases "segment_char c")
  case True
  then have "c \<noteq> CHR ''%''" by auto
  with True show ?thesis by (simp add: escape_char_def)
next
  case False
  have "16 * (of_char c div 16) + of_char c mod 16 = (of_char c :: nat)" by simp
  then have "char_of (16 * (of_char c div 16) + of_char c mod 16 :: nat) = c" by (metis char_of_char)
  with False upper_hex_segment [OF char_halves(1)] upper_hex_segment [OF char_halves(2)] show ?thesis
    by (simp add: escape_char_def)
qed

lemma PathUnescape_PathEscape: "PathUnescape (PathEscape s) = Some s"
  by (induction s) (simp_all add: PathEscape_def PathUnescape_escape_char)

lemma PathEscape_chars: "c \<in> set (PathEscape s) \<Longrightarrow> segment_char c \<or> c = CHR ''%''"
proof -
  assume "c \<in> set (PathEscape s)"
  then obtain d where "c \<in> set (escape_char d)" by (auto simp: PathEscape_def)
  then show ?thesis using upper_hex_segment char_halves [of d] by (auto simp: escape_char_def split: if_splits)
qed

lemma PathEscape_Nil [simp]: "PathEscape s = [] \<longleftrightarrow> s = []"
  by (cases s) (auto simp: PathEscape_def escape_char_def)

end
