(* ===== verification/Buildinfo.thy ===== *)
theory Buildinfo
  imports Url
begin

text \<open>
  \<open>internal/buildinfo/buildinfo.go\<close>: the version, revision and source links the API reports.  The
  variables the linker sets and what \<open>debug.ReadBuildInfo\<close> finds in the binary are arguments.
\<close>

definition SourceURL :: string where
  "SourceURL = ''https://github.com/owenewans/ulcer''"

record injected =
  InjVersion :: string
  InjRevision :: string
  InjSourceRef :: string

record runtime_info =
  MainVersion :: string
  Settings :: "(string \<times> string) list"

record Info =
  Version :: string
  Revision :: string
  SourceRef :: string
  InfoSourceURL :: string
  LicenseURL :: string

text \<open>
  \<open>unicode.IsControl\<close> of some rune of the text: an ASCII control character, or one of U+0080 to U+009F,
  which UTF-8 writes as \<open>C2\<close> and that byte.
\<close>

fun has_control :: "string \<Rightarrow> bool" where
  "has_control [] = False"
| "has_control (c # cs) =
     (let n = (of_char c :: nat) in
      n < 32 \<or> n = 127 \<or>
      (n = 194 \<and> (case cs of d # _ \<Rightarrow> 128 \<le> (of_char d :: nat) \<and> (of_char d :: nat) \<le> 159 | [] \<Rightarrow> False)) \<or>
      has_control cs)"

definition clean :: "string \<Rightarrow> string" where
  "clean value = (let value = TrimSpace value in if length value > 256 \<or> has_control value then [] else value)"

definition escapePathSegment :: "string \<Rightarrow> string" where
  "escapePathSegment value =
     (let escaped = PathEscape value in
      if escaped = ''.'' \<or> escaped = ''..'' then concat (map (\<lambda>c. if c = CHR ''.'' then ''%2E'' else [c]) escaped)
      else escaped)"

definition SourceRevisionURL :: "string \<Rightarrow> string" where
  "SourceRevisionURL revision =
     (let revision = clean revision in
      if revision = [] \<or> revision = ''unknown'' then SourceURL else SourceURL @ ''/tree/'' @ escapePathSegment revision)"

definition Current :: "injected \<Rightarrow> runtime_info option \<Rightarrow> Info" where
  "Current vars info =
     (let version = clean (InjVersion vars); revision = clean (InjRevision vars); sourceRef = clean (InjSourceRef vars);
          version = (case info of
              Some ri \<Rightarrow> if version = [] \<and> MainVersion ri \<noteq> [] \<and> MainVersion ri \<noteq> ''(devel)'' then clean (MainVersion ri) else version
            | None \<Rightarrow> version);
          revision = (case info of
              Some ri \<Rightarrow> if revision = []
                then (case find (\<lambda>s. fst s = ''vcs.revision'') (Settings ri) of Some s \<Rightarrow> clean (snd s) | None \<Rightarrow> revision)
                else revision
            | None \<Rightarrow> revision);
          version = (if version = [] then ''development'' else version);
          revision = (if revision = [] then ''unknown'' else revision);
          sourceRef = (if sourceRef = [] then revision else sourceRef);
          sourceRef = (if sourceRef = [] then ''unknown'' else sourceRef);
          licenseRef = (if revision = ''unknown'' then sourceRef else revision)
      in \<lparr>Version = version, Revision = revision, SourceRef = sourceRef, InfoSourceURL = SourceURL,
          LicenseURL = SourceURL @ ''/blob/'' @ escapePathSegment licenseRef @ ''/LICENSE''\<rparr>)"

lemma escapePathSegment_roundtrip: "PathUnescape (escapePathSegment s) = Some s"
proof (cases "PathEscape s = ''.'' \<or> PathEscape s = ''..''")
  case True
  then have "PathUnescape (PathEscape s) = Some (PathEscape s)" by auto
  then have s: "PathEscape s = s" by (simp add: PathUnescape_PathEscape)
  with True have "s = ''.'' \<or> s = ''..''" by simp
  moreover have "PathUnescape (escapePathSegment ''.'') = Some ''.''" "PathUnescape (escapePathSegment ''..'') = Some ''..''"
    by code_simp+
  ultimately show ?thesis by blast
next
  case False
  then show ?thesis by (simp add: escapePathSegment_def PathUnescape_PathEscape)
qed

lemma escapePathSegment_shape:
  assumes "s \<noteq> []"
  shows "escapePathSegment s \<notin> {[], ''.'', ''..''}" and "CHR ''/'' \<notin> set (escapePathSegment s)"
proof -
  show "escapePathSegment s \<notin> {[], ''.'', ''..''}"
    using assms by (auto simp: escapePathSegment_def Let_def)
  show "CHR ''/'' \<notin> set (escapePathSegment s)"
    using PathEscape_chars [of "CHR ''/''" s] by (auto simp: escapePathSegment_def Let_def)
qed

definition clean_text :: "string \<Rightarrow> bool" where
  "clean_text s \<longleftrightarrow> s \<noteq> [] \<and> length s \<le> 256 \<and> \<not> has_control s"

lemma clean_clean_text: "clean s = [] \<or> clean_text (clean s)"
  by (simp add: clean_def clean_text_def Let_def)

lemma clean_text_defaults: "clean_text ''development''" "clean_text ''unknown''"
  by (simp_all add: clean_text_def)

lemma Current_clean:
  "clean_text (Version (Current vars info))" "clean_text (Revision (Current vars info))" "clean_text (SourceRef (Current vars info))"
proof -
  have c: "clean s \<noteq> [] \<Longrightarrow> clean_text (clean s)" for s using clean_clean_text by blast
  show "clean_text (Version (Current vars info))" "clean_text (Revision (Current vars info))"
    by (auto simp: Current_def Let_def c clean_text_defaults split: option.splits)
  then show "clean_text (SourceRef (Current vars info))"
    by (auto simp: Current_def Let_def c clean_text_defaults split: option.splits)
qed

text \<open>
  The links of the build information are what they claim: whatever the linker or the binary says,
  version, revision and reference are short, not empty and free of control characters, and the license
  link is the repository, \<open>blob\<close>, exactly one path segment that decodes to the revision (or the
  reference when the revision is not known) and \<open>LICENSE\<close>; the segment is never empty, \<open>.\<close> or \<open>..\<close>.
\<close>

theorem license_url_one_segment:
  "\<exists>segment. LicenseURL (Current vars info) = SourceURL @ ''/blob/'' @ segment @ ''/LICENSE'' \<and>
     PathUnescape segment = Some (if Revision (Current vars info) = ''unknown'' then SourceRef (Current vars info) else Revision (Current vars info)) \<and>
     CHR ''/'' \<notin> set segment \<and> segment \<notin> {[], ''.'', ''..''} \<and>
     clean_text (Version (Current vars info)) \<and> clean_text (Revision (Current vars info)) \<and> clean_text (SourceRef (Current vars info))"
proof -
  let ?i = "Current vars info"
  define ref where "ref = (if Revision ?i = ''unknown'' then SourceRef ?i else Revision ?i)"
  have "LicenseURL ?i = SourceURL @ ''/blob/'' @ escapePathSegment ref @ ''/LICENSE''"
    by (simp add: ref_def Current_def Let_def)
  moreover have "ref \<noteq> []" using Current_clean [of vars info] by (auto simp: ref_def clean_text_def)
  ultimately show ?thesis
    using escapePathSegment_roundtrip escapePathSegment_shape Current_clean unfolding ref_def by blast
qed

end
