(* ===== verification/Router.thy ===== *)
theory Router
  imports Plane Buildinfo
begin

text \<open>
  \<open>api.New\<close> of \<open>internal/api/api.go\<close>: the routes, the wrapper that asks for a session, the security headers
  and the recovery from panics, over the part of \<open>net/http\<close>'s \<open>ServeMux\<close> the program uses: patterns of a
  method and a path whose segments are literal or \<open>{id}\<close>.  The lemmas show that no two patterns overlap (so
  the precedence of the mux does not matter), and what a request without a session can change.
\<close>

section \<open>Patterns\<close>

datatype segment = Lit string | Wild

datatype route =
    HealthRoute | BootstrapStatusRoute | BootstrapStartRoute | BootstrapCompleteRoute | LoginRoute | LogoutRoute
  | SessionRoute | DashboardRoute | MetaRoute | EnginesRoute | InstancesRoute | CreateInstanceRoute | InstallSSHRoute
  | HostKeyRoute | InstanceRoute | DeleteInstanceRoute | SetDesiredRoute | EventsRoute

definition routes :: "(string \<times> segment list \<times> route) list" where
  "routes = (let api = (\<lambda>ps. Lit ''api'' # Lit ''v1'' # ps) in
     [(''GET'', [Lit ''healthz''], HealthRoute),
      (''GET'', api [Lit ''bootstrap'', Lit ''status''], BootstrapStatusRoute),
      (''POST'', api [Lit ''bootstrap'', Lit ''start''], BootstrapStartRoute),
      (''POST'', api [Lit ''bootstrap'', Lit ''complete''], BootstrapCompleteRoute),
      (''POST'', api [Lit ''auth'', Lit ''login''], LoginRoute),
      (''POST'', api [Lit ''auth'', Lit ''logout''], LogoutRoute),
      (''GET'', api [Lit ''auth'', Lit ''session''], SessionRoute),
      (''GET'', api [Lit ''dashboard''], DashboardRoute),
      (''GET'', api [Lit ''meta''], MetaRoute),
      (''GET'', api [Lit ''engines''], EnginesRoute),
      (''GET'', api [Lit ''instances''], InstancesRoute),
      (''POST'', api [Lit ''instances''], CreateInstanceRoute),
      (''POST'', api [Lit ''instances'', Lit ''ssh''], InstallSSHRoute),
      (''POST'', api [Lit ''ssh'', Lit ''host-key''], HostKeyRoute),
      (''GET'', api [Lit ''instances'', Wild], InstanceRoute),
      (''DELETE'', api [Lit ''instances'', Wild], DeleteInstanceRoute),
      (''PUT'', api [Lit ''instances'', Wild, Lit ''desired''], SetDesiredRoute),
      (''GET'', api [Lit ''events''], EventsRoute)])"

text \<open>The segments of an escaped path, each unescaped if it can be.\<close>

definition path_segments :: "string \<Rightarrow> string list" where
  "path_segments p = (case Split p (CHR ''/'') of
       [] # ss \<Rightarrow> map (\<lambda>s. case PathUnescape s of None \<Rightarrow> s | Some u \<Rightarrow> u) ss
     | _ \<Rightarrow> [])"

fun match_segments :: "segment list \<Rightarrow> string list \<Rightarrow> string list option" where
  "match_segments [] [] = Some []"
| "match_segments (Lit l # ps) (s # ss) = (if l = s then match_segments ps ss else None)"
| "match_segments (Wild # ps) (s # ss) =
     (if s = [] \<or> s = ''/'' then None else map_option (\<lambda>vs. s # vs) (match_segments ps ss))"
| "match_segments _ _ = None"

definition method_matches :: "string \<Rightarrow> string \<Rightarrow> bool" where
  "method_matches pm m \<longleftrightarrow> pm = m \<or> pm = ''GET'' \<and> m = ''HEAD''"

definition find_routes :: "string \<Rightarrow> string list \<Rightarrow> (string \<times> segment list \<times> route) list" where
  "find_routes m ss = filter (\<lambda>(pm, ps, rt). method_matches pm m \<and> match_segments ps ss \<noteq> None) routes"

text \<open>The methods of the patterns a path matches, sorted, with \<open>HEAD\<close> beside \<open>GET\<close>.\<close>

definition allowed_methods :: "string list \<Rightarrow> string list" where
  "allowed_methods ss =
     filter (\<lambda>m. find_routes m ss \<noteq> []) [''DELETE'', ''GET'', ''HEAD'', ''POST'', ''PUT'']"

text \<open>\<open>cleanPath\<close> of \<open>net/http\<close>.\<close>

definition cleanPath :: "string \<Rightarrow> string" where
  "cleanPath p =
     (if p = [] then ''/''
      else let p = (if hd p = CHR ''/'' then p else CHR ''/'' # p); np = Clean p in
        if last p = CHR ''/'' \<and> np \<noteq> ''/'' then np @ ''/'' else np)"

datatype mux_result = MovedTo string | NoMatch | NotAllowed "string list" | Matched route "string list"

definition mux_lookup :: "string \<Rightarrow> string \<Rightarrow> mux_result" where
  "mux_lookup m p =
     (if m \<noteq> ''CONNECT'' \<and> cleanPath p \<noteq> p then MovedTo (cleanPath p)
      else let ss = path_segments p in
        case find_routes m ss of
          (pm, ps, rt) # _ \<Rightarrow> Matched rt (case match_segments ps ss of None \<Rightarrow> [] | Some vs \<Rightarrow> vs)
        | [] \<Rightarrow> if allowed_methods ss = [] then NoMatch else NotAllowed (allowed_methods ss))"


section \<open>Handlers\<close>

text \<open>
  What the program is built and configured with, beside \<open>platform\<close>: the SSH library, the configuration,
  the build information, the catalogue of engines, whether responses can be flushed, and the status
  \<open>net/http\<close> redirects with.
\<close>

record ('db, 'key, 'signer, 'client) server =
  base :: "'db platform"
  ssh_lib :: "('key, 'signer, 'client) ssh"
  probe_key :: "resolvedTarget \<Rightarrow> (string \<times> 'key) option"
  conf :: config_Host
  build_vars :: injected
  build_runtime :: "runtime_info option"
  EnginesJSON :: string
  flushes :: bool
  redirect_status :: nat

datatype opened = Stream u64 nat stream | Installation Request

definition meta :: "('db, 'key, 'signer, 'client) server \<Rightarrow> response" where
  "meta S = (let info = Current (build_vars S) (build_runtime S) in
     writeJSON 200 (JObj [(''version'', JStr (Version info)), (''revision'', JStr (Revision info)),
       (''source_ref'', JStr (SourceRef info)), (''source_url'', JStr (SourceRevisionURL (Revision info))),
       (''license_url'', JStr (LicenseURL info)), (''grpc_endpoint'', JStr (PublicGRPC (conf S))),
       (''grpc_server_name'', JStr (PublicName (conf S))), (''instance_image'', JStr (InstanceImage (conf S))),
       (''ssh_install_available'', JBool (Available (conf S)))]))"

definition engines :: "('db, 'key, 'signer, 'client) server \<Rightarrow> response" where
  "engines S = \<lparr>http_status = 200, headers = [(''Content-Type'', ''application/json'')], set_cookies = [],
     payload = Some (JRaw (EnginesJSON S))\<rparr>"

text \<open>A handler that only answers, and one that answers and changes the state.\<close>

definition answer :: "response \<Rightarrow> 'db API \<Rightarrow> ((response + 'o) \<times> 'db API) option" where
  "answer w a = Some (Inl w, a)"

definition replies :: "(response \<times> 'db API) option \<Rightarrow> ((response + 'o) \<times> 'db API) option" where
  "replies x = map_option (\<lambda>(w, a). (Inl w, a)) x"

definition route_handler ::
    "('db, 'key, 'signer, 'client) server \<Rightarrow> instant \<Rightarrow> route \<Rightarrow> request \<Rightarrow> 'db API \<Rightarrow> ((response + opened) \<times> 'db API) option" where
  "route_handler S now rt =
     (let P = base S; auth = requireAuth P now in
      case rt of
        HealthRoute \<Rightarrow> (\<lambda>r. answer health)
      | BootstrapStatusRoute \<Rightarrow> (\<lambda>r a. answer (bootstrapStatus P now a) a)
      | BootstrapStartRoute \<Rightarrow> (\<lambda>r a. replies (Some (bootstrapStart P now r a)))
      | BootstrapCompleteRoute \<Rightarrow> (\<lambda>r a. replies (bootstrapComplete P now r a))
      | LoginRoute \<Rightarrow> (\<lambda>r a. replies (Some (login P now r a)))
      | LogoutRoute \<Rightarrow> auth (\<lambda>r a. replies (Some (logout P r a)))
      | SessionRoute \<Rightarrow> (\<lambda>r a. answer (session_status P now r a) a)
      | DashboardRoute \<Rightarrow> auth (\<lambda>r a. answer (dashboard P now a) a)
      | MetaRoute \<Rightarrow> auth (\<lambda>r. answer (meta S))
      | EnginesRoute \<Rightarrow> auth (\<lambda>r. answer (engines S))
      | InstancesRoute \<Rightarrow> auth (\<lambda>r a. answer (instances_view P now a) a)
      | CreateInstanceRoute \<Rightarrow> auth (\<lambda>r a. replies (createInstance P now r a))
      | InstallSSHRoute \<Rightarrow> auth (\<lambda>r a. case install_request r of Inl w \<Rightarrow> answer w a | Inr req \<Rightarrow> Some (Inr (Installation req), a))
      | HostKeyRoute \<Rightarrow> auth (\<lambda>r. answer (sshHostKey (lookup (ssh_lib S)) (probe_key S) (fingerprint_of (ssh_lib S)) r))
      | InstanceRoute \<Rightarrow> auth (\<lambda>r a. answer (instance_view P now r a) a)
      | DeleteInstanceRoute \<Rightarrow> auth (\<lambda>r a. replies (deleteInstance P now r a))
      | SetDesiredRoute \<Rightarrow> auth (\<lambda>r a. replies (setDesired P now r a))
      | EventsRoute \<Rightarrow> auth (\<lambda>r a. map_option (\<lambda>(x, a). (map_sum id (\<lambda>(i, c, st). Stream i c st) x, a))
          (eventStream_open P now (flushes S) r a)))"

text \<open>The answers of the mux itself (their text bodies aside).\<close>

definition mux_answer :: "nat \<Rightarrow> (string \<times> string) list \<Rightarrow> response" where
  "mux_answer st hs = \<lparr>http_status = st, headers = hs, set_cookies = [], payload = None\<rparr>"

definition plain_text :: "(string \<times> string) list" where
  "plain_text = [(''Content-Type'', ''text/plain; charset=utf-8''), (''X-Content-Type-Options'', ''nosniff'')]"

definition comma_list :: "string list \<Rightarrow> string" where
  "comma_list ws = concat (map2 (\<lambda>i w. if i = (0::nat) then w else '', '' @ w) [0..<length ws] ws)"

definition serve_mux ::
    "('db, 'key, 'signer, 'client) server \<Rightarrow> instant \<Rightarrow> request \<Rightarrow> 'db API \<Rightarrow> ((response + opened) \<times> 'db API) option" where
  "serve_mux S now r a = (case mux_lookup (req_method r) (escaped_path r) of
       MovedTo p \<Rightarrow> answer (mux_answer (redirect_status S) [(''Location'', p)]) a
     | NoMatch \<Rightarrow> answer (mux_answer 404 plain_text) a
     | NotAllowed ms \<Rightarrow> answer (mux_answer 405 ((''Allow'', comma_list ms) # plain_text)) a
     | Matched rt vs \<Rightarrow> route_handler S now rt (r\<lparr>path_id := (case vs of [] \<Rightarrow> [] | v # _ \<Rightarrow> v)\<rparr>) a)"

text \<open>
  The response to a request: \<open>recoverPanic\<close> answers a panic, and \<open>securityHeaders\<close> adds its headers to
  every response.  (\<open>accessLog\<close> only logs.)
\<close>

definition serve ::
    "('db, 'key, 'signer, 'client) server \<Rightarrow> instant \<Rightarrow> request \<Rightarrow> 'db API \<Rightarrow> response + opened" where
  "serve S now r a = (case serve_mux S now r a of
       None \<Rightarrow> Inl (securityHeaders r (writeError 500 ''internal_error'' ''internal server error''))
     | Some (x, a') \<Rightarrow> map_sum (securityHeaders r) id x)"


section \<open>The patterns do not overlap\<close>

fun overlap :: "segment list \<Rightarrow> segment list \<Rightarrow> bool" where
  "overlap [] [] = True"
| "overlap (Lit a # ps) (Lit b # qs) = (a = b \<and> overlap ps qs)"
| "overlap (_ # ps) (_ # qs) = overlap ps qs"
| "overlap _ _ = False"

lemma match_overlap: "match_segments ps ss \<noteq> None \<Longrightarrow> match_segments qs ss \<noteq> None \<Longrightarrow> overlap ps qs"
proof (induction ps ss arbitrary: qs rule: match_segments.induct)
  case (2 l ps s ss)
  then show ?case by (cases "(qs, s # ss)" rule: match_segments.cases) (auto split: if_splits)
next
  case (3 ps s ss)
  then show ?case by (cases "(qs, s # ss)" rule: match_segments.cases) (auto split: if_splits)
qed (auto elim: match_segments.elims)

lemma routes_apart:
  "\<forall>x\<in>set routes. \<forall>y\<in>set routes. fst x = fst y \<and> overlap (fst (snd x)) (fst (snd y)) \<longrightarrow> x = y"
  "distinct routes" "\<forall>x\<in>set routes. fst x \<noteq> ''HEAD''"
  by code_simp+

lemma find_routes_unique:
  assumes "x \<in> set (find_routes m ss)"
  shows "find_routes m ss = [x]"
proof -
  have "y = x" if "y \<in> set (find_routes m ss)" for y
  proof -
    have "x \<in> set routes" "y \<in> set routes" "method_matches (fst x) m" "method_matches (fst y) m"
      and "match_segments (fst (snd x)) ss \<noteq> None" "match_segments (fst (snd y)) ss \<noteq> None"
      using assms that by (auto simp: find_routes_def)
    moreover from this(5,6) have "overlap (fst (snd x)) (fst (snd y))" by (rule match_overlap)
    moreover from calculation have "fst x = fst y" using routes_apart(3) by (auto simp: method_matches_def)
    ultimately show ?thesis using routes_apart(1) by metis
  qed
  moreover have "distinct (find_routes m ss)" using routes_apart(2) by (simp add: find_routes_def)
  ultimately have "set (find_routes m ss) = {x}" "distinct (find_routes m ss)" using assms by blast+
  then show ?thesis by (cases "find_routes m ss") (auto simp: subset_singleton_iff)
qed


section \<open>Requests without a session\<close>

definition public :: "route list" where
  "public = [HealthRoute, BootstrapStatusRoute, BootstrapStartRoute, BootstrapCompleteRoute, LoginRoute, SessionRoute]"

lemma authenticated_path_id [simp]: "authenticated P now (r\<lparr>path_id := v\<rparr>) a = authenticated P now r a"
  by (simp add: authenticated_def)

lemma route_refused:
  assumes "rt \<notin> set public" and "\<not> authenticated (base S) now r a"
  shows "route_handler S now rt r a = Some (Inl (writeError 401 ''unauthorized'' ''authentication required''), a)"
  using assms by (cases rt) (simp_all add: route_handler_def requireAuth_def public_def Let_def)

lemma only_auth_refl [simp]: "only_auth c c"
  by (simp add: only_auth_def)

lemma only_auth_trans: "only_auth c d \<Longrightarrow> only_auth d e \<Longrightarrow> only_auth c e"
  by (simp add: only_auth_def)

lemma auth_prefixes [simp]:
  "prefix ''auth/'' (sessionKey h)" "prefix ''auth/'' (recoveryKey h)" "prefix ''auth/'' totpStepKey" "prefix ''auth/'' pendingTOTPKey"
  "prefix ''auth/'' totpSecretKey" "prefix ''auth/'' operatorReadyKey"
  by (simp_all add: key_defs)

text \<open>A change of one credential, and of one session.\<close>

lemma only_auth_upd:
  assumes "\<And>t. c' t = (c t)(k := v)" and "prefix ''auth/'' k"
  shows "only_auth c c'"
proof -
  have "c' t j = c t j" if "\<not> prefix ''auth/'' j" for t j
    using that assms(2) by (cases "j = k") (simp_all add: assms(1))
  moreover have "timeless c'" if t: "timeless c"
    unfolding timeless_def
  proof (intro allI impI)
    fix u j assume "\<not> prefix sessionPrefix j"
    then show "c' u j = c' 0 j" using timelessD [OF t, of j u] by (simp add: assms(1))
  qed
  ultimately show ?thesis by (simp add: only_auth_def)
qed

lemma only_auth_session:
  assumes "\<And>t k. k \<noteq> sessionKey h \<Longrightarrow> c' t k = c t k"
  shows "only_auth c c'"
proof -
  have *: "\<not> prefix sessionPrefix k \<Longrightarrow> k \<noteq> sessionKey h" "\<not> prefix ''auth/'' k \<Longrightarrow> k \<noteq> sessionKey h" for k by auto
  show ?thesis unfolding only_auth_def timeless_def using assms * by metis
qed

context serial_badger
begin

lemma SetPendingTOTP_only_auth:
  assumes "SetPendingTOTP B secret s = (x, s')"
  shows "only_auth (look s) (look s')"
proof (cases x)
  case (Inl e)
  with assms have "look s' = look s" unfolding SetPendingTOTP_def by (auto dest: Update_same)
  then show ?thesis by simp
next
  case (Inr u)
  have "only_auth (look s) (\<lambda>t. (look s t)(totpStepKey := None))" by (rule only_auth_upd [where k = totpStepKey and v = None]) simp_all
  moreover have "only_auth (\<lambda>t. (look s t)(totpStepKey := None)) (look s')"
    using SetPendingTOTP_look [OF assms [unfolded Inr]] by (intro only_auth_upd [where k = pendingTOTPKey]) simp_all
  ultimately show ?thesis by (rule only_auth_trans)
qed

lemma ConsumeTOTPStep_only_auth:
  assumes "ConsumeTOTPStep B now step s = (x, s')" and "timeless (look s)"
  shows "only_auth (look s) (look s')"
proof (cases "x = Inr True")
  case True
  with ConsumeTOTPStep_accepts(1) assms show ?thesis by (intro only_auth_upd [where k = totpStepKey]) auto
next
  case False
  with ConsumeTOTPStep_others(2) [OF assms] show ?thesis by simp
qed

lemma ConsumeRecoveryCode_only_auth:
  assumes "ConsumeRecoveryCode B sha256_hex now code s = (x, s')"
  shows "only_auth (look s) (look s')"
proof -
  consider e where "x = Inl e" | "x = Inr True" | "x = Inr False" by (cases x) auto
  then show ?thesis
  proof cases
    case 1
    with assms have "look s' = look s" unfolding ConsumeRecoveryCode_def Let_def by (auto dest: Update_same)
    then show ?thesis by simp
  next
    case 2
    with ConsumeRecoveryCode_accepts(2) assms show ?thesis by (intro only_auth_upd) auto
  next
    case 3
    with ConsumeRecoveryCode_refuses(1) [OF assms [unfolded 3]] show ?thesis by simp
  qed
qed

lemma NewSession_only_auth:
  assumes "NewSession B sha256_hex rand now s = (x, s')"
  shows "only_auth (look s) (look s')"
proof (cases "randomHex rand 0 32")
  case (Inr token)
  obtain y s1 where cs: "CreateSession B sha256_hex now token SessionTTL s = (y, s1)" by fastforce
  with assms Inr have "s' = s1" by (auto simp: NewSession_def split: sum.splits)
  with CreateSession_others [OF cs] show ?thesis by (intro only_auth_session) simp
qed (use assms in \<open>simp add: NewSession_def\<close>)

lemma Login_only_auth:
  assumes t: "timeless (look s)" and login: "Login B sha256_hex code_at rand now code s = (x, s')"
  shows "only_auth (look s) (look s')"
proof -
  obtain v s1 where valid: "login_valid B sha256_hex code_at now code s = (v, s1)" by fastforce
  have "only_auth (look s) (look s1)"
  proof (cases "TOTPSecret B now s")
    case (Inr secret)
    obtain y s2 where step: "(case MatchTOTPStep code_at secret code now of (step, valid) \<Rightarrow>
        if valid then ConsumeTOTPStep B now step s else (Inr False, s)) = (y, s2)" by fastforce
    then have one: "only_auth (look s) (look s2)"
      using ConsumeTOTPStep_only_auth [OF _ t] by (auto split: prod.splits if_splits)
    obtain z s3 where rec: "ConsumeRecoveryCode B sha256_hex now code s2 = (z, s3)" by fastforce
    have "s1 = s2 \<or> s1 = s3"
      using valid step rec Inr by (auto simp: login_valid_def split: sum.splits bool.splits)
    with one only_auth_trans [OF one ConsumeRecoveryCode_only_auth [OF rec]] show ?thesis by blast
  qed (use valid in \<open>simp add: login_valid_def\<close>)
  moreover have "only_auth (look s1) (look s')"
    using login valid NewSession_only_auth by (auto simp: Login_def split: sum.splits if_splits)
  ultimately show ?thesis by (rule only_auth_trans)
qed

lemma CompleteSetup_only_auth:
  assumes "CompleteSetup B sha256_hex code_at rand now code sv s f = (x, sv', s', f')"
  shows "only_auth (look s) (look s')"
proof -
  have op: "only_auth (look s) (look s1)"
    if "CompleteOperator B sha256_hex now secret step hashes session ttl s = (y, s1)" for secret step hashes session ttl y s1
  proof (cases y)
    case (Inl e)
    with that have "look s1 = look s" unfolding CompleteOperator_def by (auto dest: Update_same)
    then show ?thesis by simp
  next
    case (Inr u)
    note at = CompleteOperator_look(2) [OF that [unfolded Inr]]
    have na: "look s1 t k = look s t k" if "\<not> prefix ''auth/'' k" for t k
    proof -
      have "k \<noteq> sessionKey (sha256_hex session)" "k \<notin> recoveryKey ` set hashes" "k \<noteq> pendingTOTPKey" "k \<noteq> operatorReadyKey"
        "k \<noteq> totpStepKey" "k \<noteq> totpSecretKey" using that by auto
      then show ?thesis by (simp add: at)
    qed
    have "timeless (look s1)" if t: "timeless (look s)"
      unfolding timeless_def
    proof (intro allI impI)
      fix u k assume k: "\<not> prefix sessionPrefix k"
      then have "k \<noteq> sessionKey (sha256_hex session)" by auto
      then show "look s1 u k = look s1 0 k" using timelessD [OF t k, of u] by (simp add: at)
    qed
    with na show ?thesis by (simp add: only_auth_def)
  qed
  show ?thesis using assms op by (auto simp: CompleteSetup_def split: sum.splits prod.splits if_splits)
qed

text \<open>
  What a request without a session may do: the hub, the registry and the accounts stay, and events are
  added only about no instance; with \<open>done\<close>, only credentials and sessions change and nothing is published.
\<close>

definition confined :: "bool \<Rightarrow> 'a API \<Rightarrow> 'a API \<Rightarrow> bool" where
  "confined done a a' \<longleftrightarrow> hub (plane a') = hub (plane a) \<and>
     keeps_registry (Some []) (look (db (plane a))) (look (db (plane a'))) \<and>
     (\<forall>t k. prefix ''meter/'' k \<longrightarrow> look (db (plane a')) t k = look (db (plane a)) t k) \<and>
     (done \<longrightarrow> bus (plane a') = bus (plane a) \<and> only_auth (look (db (plane a))) (look (db (plane a'))))"

lemma confined_refl: "registry_ok (look (db (plane a))) \<Longrightarrow> confined done a a"
  by (simp add: confined_def)

lemma meter_not_auth: "prefix ''meter/'' k \<Longrightarrow> \<not> prefix ''auth/'' k"
  by (auto simp: prefix_def)

lemma only_auth_confined:
  assumes "registry_ok (look (db (plane a)))" and "only_auth (look (db (plane a))) (look (db (plane a')))"
    and "hub (plane a') = hub (plane a)" "bus (plane a') = bus (plane a)"
  shows "confined done a a'"
  using assms only_auth_keeps [OF assms(1,2)] meter_not_auth
  by (auto simp: confined_def only_auth_def intro: keeps_registry_weaken)

lemma set_db_plane [simp]:
  "db (plane (set_db s a)) = s" "hub (plane (set_db s a)) = hub (plane a)" "bus (plane (set_db s a)) = bus (plane a)"
  "limiter (set_db s a) = limiter a"
  by (simp_all add: set_db_def)

lemma bootstrapStart_confined:
  assumes B: "badger_ops P = B" and ok: "registry_ok (look (db (plane a)))" and st: "bootstrapStart P now r a = (w, a')"
  shows "confined done a a'"
proof -
  obtain x s where begin_setup: "BeginSetup B (totp_key P) (db (plane a)) = (x, s)" by fastforce
  have "only_auth (look (db (plane a))) (look s)"
    using begin_setup SetPendingTOTP_only_auth by (auto simp: BeginSetup_def split: option.splits sum.splits prod.splits)
  moreover have "plane a' = plane a \<or> plane a' = plane (set_db s a)"
    using st begin_setup B by (auto simp: bootstrapStart_def invalid_setup_token_def split: option.splits sum.splits if_splits)
  ultimately show ?thesis using ok by (intro only_auth_confined) auto
qed

lemma login_confined:
  assumes B: "badger_ops P = B" and ok: "registry_ok (look (db (plane a)))" and st: "login P now r a = (w, a')"
  shows "confined done a a'"
proof -
  have t: "timeless (look (db (plane a)))" using ok by (simp add: registry_ok_def)
  show ?thesis
  proof (cases "plane a' = plane a")
    case True
    then show ?thesis using ok by (intro only_auth_confined) simp_all
  next
    case False
    then obtain ms where ms: "decodeJSON [(''code'', StringField)] r = Inr ms" and al: "allowAuthentication now a = None"
      using st by (auto simp: login_def split: option.splits sum.splits)
    obtain x s where l: "Login B (sha256 P) (totp_code P) (entropy P) now (string_field ms ''code'') (db (plane a)) = (x, s)" by fastforce
    then have "plane a' = plane (set_db s a)"
      using st B ms al by (auto simp: login_def split: sum.splits auth_error.splits)
    with Login_only_auth [OF t l] ok show ?thesis by (intro only_auth_confined) auto
  qed
qed

lemma AppendEvent_meter:
  assumes "timeless (look s)" and "AppendEvent B now e s = (x, s')" and "prefix ''meter/'' k"
  shows "look s' t k = look s t k"
proof (cases x)
  case (Inl e)
  with assms(2) have "look s' = look s" unfolding AppendEvent_def by (auto dest: Update_same)
  then show ?thesis by simp
next
  case (Inr e')
  have "k \<noteq> eventKey q" "k \<noteq> eventSequenceKey" for q using assms(3) by (auto simp: key_defs prefix_def)
  then show ?thesis using AppendEvent_look(2) [OF assms(2) [unfolded Inr] assms(1), of t] by simp
qed

lemma bootstrapComplete_confined:
  assumes B: "badger_ops P = B" and ok: "registry_ok (look (db (plane a)))" and b: "bus_ok (bus (plane a))"
  shows "\<exists>w a'. bootstrapComplete P now r a = Some (w, a') \<and> confined (OperatorReady B now (db (plane a)) = Inr True) a a'"
proof (cases "bootstrap_open P now a")
  case (Some w)
  then show ?thesis using confined_refl [OF ok] by (simp add: bootstrapComplete_def)
next
  case None
  then have ready: "OperatorReady B now (db (plane a)) \<noteq> Inr True"
    using B by (auto simp: bootstrap_open_def split: option.splits)
  let ?P = "\<lambda>y. \<exists>w a'. y = Some (w, a') \<and> confined False a a'"
  have quiet: "?P (Some (w, a'))" if "plane a' = plane (set_db s a)" "only_auth (look (db (plane a))) (look s)" for w a' s
    using that ok by (intro exI [of _ w] exI [of _ a'] conjI refl only_auth_confined) auto
  have loud: "\<exists>a'. api_publish P now ty [] d a1 = Some a' \<and> confined False a a'"
    if "plane a1 = plane (set_db s a)" and auth: "only_auth (look (db (plane a))) (look s)" for a1 s ty d
  proof -
    have k: "keeps_registry None (look (db (plane a))) (look s)" using ok auth by (rule only_auth_keeps)
    then have reg: "registry_ok (look s)" by (simp add: keeps_registry_def)
    then obtain s' b' where pub: "publish B now ty [] d (s, bus (plane a)) = Some (s', b')"
      and keep: "keeps_registry (Some []) (look s) (look s')" using b by (rule publish_keeps)
    obtain x s1 where app: "AppendEvent B now \<lparr>EventID = 0, EventType = ty, ResourceID = [], At = zero_time, Data = d\<rparr> s = (x, s1)"
      by fastforce
    with pub have "s' = s1" by (auto simp: publish_def Publish_def split: sum.splits option.splits)
    then have "\<forall>t k. prefix ''meter/'' k \<longrightarrow> look s' t k = look s t k"
      using AppendEvent_meter [OF _ app] reg by (simp add: registry_ok_def)
    moreover have "\<forall>t k. prefix ''meter/'' k \<longrightarrow> look s t k = look (db (plane a)) t k"
      using auth meter_not_auth by (auto simp: only_auth_def)
    moreover have "keeps_registry (Some []) (look (db (plane a))) (look s')"
      using keeps_registry_trans [OF keeps_registry_weaken [OF k] keep] .
    ultimately show ?thesis using pub that(1) B by (simp add: api_publish_def confined_def)
  qed
  show ?thesis
  proof (cases "decodeJSON [(''token'', StringField), (''code'', StringField)] r")
    case (Inl w)
    then show ?thesis using None confined_refl [OF ok] by (simp add: bootstrapComplete_def)
  next
    case (Inr ms)
    obtain x sv s f where cs: "CompleteSetup B (sha256 P) (totp_code P) (entropy P) now (string_field ms ''code'') (svc a) (db (plane a)) (files a)
        = (x, sv, s, f)" by (cases "CompleteSetup B (sha256 P) (totp_code P) (entropy P) now (string_field ms ''code'') (svc a) (db (plane a)) (files a)")
    note auth = CompleteSetup_only_auth [OF cs]
    have "?P (bootstrapComplete P now r a)"
    proof (cases "CheckSetupToken (svc a) (string_field ms ''token'')")
      case False
      then have "bootstrapComplete P now r a = Some (invalid_setup_token now a)"
        using None Inr by (simp add: bootstrapComplete_def)
      then show ?thesis using ok by (auto simp: invalid_setup_token_def intro!: only_auth_confined)
    next
      case True
      show ?thesis
      proof (cases x)
        case (Inl e)
        then have "\<exists>w a'. bootstrapComplete P now r a = Some (w, a') \<and> plane a' = plane (set_db s a)"
          using None Inr cs B True
          by (auto simp: bootstrapComplete_def Let_def split: auth_error.splits store_error.splits)
        then show ?thesis using quiet [OF _ auth] by metis
      next
        case (Inr y)
        then show ?thesis
          using None \<open>decodeJSON _ r = Inr ms\<close> cs B True
          using loud [of "(set_db s a)\<lparr>svc := sv, files := f, limiter := succeeded (limiter a)\<rparr>" s, OF _ auth]
          by (cases y) (auto simp: bootstrapComplete_def Let_def)
      qed
    qed
    with ready show ?thesis by simp
  qed
qed

lemma route_confined:
  assumes B: "badger_ops (base S) = B" and ok: "registry_ok (look (db (plane a)))" and b: "bus_ok (bus (plane a))"
    and rt: "rt \<in> set public \<or> \<not> authenticated (base S) now r a"
  shows "\<exists>w a'. route_handler S now rt r a = Some (Inl w, a') \<and> confined (OperatorReady B now (db (plane a)) = Inr True) a a'"
proof -
  note same = confined_refl [OF ok]
  consider "rt \<notin> set public" | "rt \<in> {HealthRoute, BootstrapStatusRoute, SessionRoute}" | "rt = BootstrapStartRoute"
    | "rt = BootstrapCompleteRoute" | "rt = LoginRoute" by (auto simp: public_def)
  then show ?thesis
  proof cases
    case 1
    with rt have "\<not> authenticated (base S) now r a" by blast
    from route_refused [OF 1 this] same show ?thesis by blast
  next
    case 2
    with same show ?thesis by (auto simp: route_handler_def answer_def Let_def)
  next
    case 3
    obtain w a' where "bootstrapStart (base S) now r a = (w, a')" by fastforce
    with 3 bootstrapStart_confined [OF B ok this] show ?thesis by (simp add: route_handler_def replies_def Let_def)
  next
    case 4
    with bootstrapComplete_confined [OF B ok b, of now r] show ?thesis by (auto simp: route_handler_def replies_def Let_def)
  next
    case 5
    obtain w a' where "login (base S) now r a = (w, a')" by fastforce
    with 5 login_confined [OF B ok this] show ?thesis by (simp add: route_handler_def replies_def Let_def)
  qed
qed

lemma serve_mux_confined:
  assumes B: "badger_ops (base S) = B" and ok: "registry_ok (look (db (plane a)))" and b: "bus_ok (bus (plane a))"
    and "\<not> authenticated (base S) now r a"
  shows "\<exists>w a'. serve_mux S now r a = Some (Inl w, a') \<and> confined (OperatorReady B now (db (plane a)) = Inr True) a a'"
proof (cases "mux_lookup (req_method r) (escaped_path r)")
  case (Matched rt vs)
  have "\<not> authenticated (base S) now (r\<lparr>path_id := (case vs of [] \<Rightarrow> [] | v # _ \<Rightarrow> v)\<rparr>) a" using assms(4) by simp
  from route_confined [OF B ok b disjI2, OF this, of rt] Matched show ?thesis by (simp add: serve_mux_def)
qed (use confined_refl [OF ok] in \<open>simp_all add: serve_mux_def answer_def\<close>)

end


section \<open>What the API guarantees\<close>

text \<open>
  C9.  A request without a valid session is harmless: it gets a response, opens no stream and begins no
  installation; outside the public routes that response is 401 and nothing changes; and whatever it asks
  for, the hub, the enrolled instances and the accounts stay as they are, no event about an instance is
  added, and once the operator is configured nothing at all changes but credentials and sessions.
\<close>

theorem unauthenticated_confined:
  assumes "serial_badger (badger_ops (base S)) look rely" and "registry_ok (look (db (plane a)))" and "bus_ok (bus (plane a))"
    and "\<not> authenticated (base S) now r a"
  shows "\<exists>w a'. serve_mux S now r a = Some (Inl w, a') \<and>
    hub (plane a') = hub (plane a) \<and> enrolled (look (db (plane a'))) = enrolled (look (db (plane a))) \<and>
    (\<forall>iid. iid \<noteq> [] \<longrightarrow> mentions (look (db (plane a'))) iid \<subseteq> mentions (look (db (plane a))) iid) \<and>
    (\<forall>t k. prefix ''meter/'' k \<longrightarrow> look (db (plane a')) t k = look (db (plane a)) t k) \<and>
    (\<forall>rt vs. mux_lookup (req_method r) (escaped_path r) = Matched rt vs \<and> rt \<notin> set public \<longrightarrow>
       http_status w = 401 \<and> a' = a) \<and>
    (OperatorReady (badger_ops (base S)) now (db (plane a)) = Inr True \<longrightarrow>
       bus (plane a') = bus (plane a) \<and> only_auth (look (db (plane a))) (look (db (plane a'))))"
proof -
  note sb = assms(1)
  obtain w a' where serve: "serve_mux S now r a = Some (Inl w, a')"
    and conf: "serial_badger.confined look (OperatorReady (badger_ops (base S)) now (db (plane a)) = Inr True) a a'"
    using serial_badger.serve_mux_confined [OF sb HOL.refl assms(2-4)] by blast
  have "http_status w = 401 \<and> a' = a" if "mux_lookup (req_method r) (escaped_path r) = Matched rt vs" "rt \<notin> set public" for rt vs
    using serve that route_refused [OF that(2), of S now "r\<lparr>path_id := (case vs of [] \<Rightarrow> [] | v # _ \<Rightarrow> v)\<rparr>" a] assms(4)
    by (auto simp: serve_mux_def writeError_def writeJSON_def)
  with serve conf show ?thesis
    by (intro exI [of _ w] exI [of _ a']) (auto simp: serial_badger.confined_def [OF sb] keeps_registry_def)
qed

definition example_server :: "(map_db, string, unit, unit) server" where
  "example_server = \<lparr>base = \<lparr>badger_ops = map_badger, sha256 = id, totp_code = example_code_at, totp_key = None, entropy = example_rand,
       json_scan = (\<lambda>_. True), new_uuid = example_uuid, issue = (\<lambda>_. None)\<rparr>,
     ssh_lib = example_ssh, probe_key = (\<lambda>_. None), conf = example_config,
     build_vars = \<lparr>InjVersion = [], InjRevision = [], InjSourceRef = []\<rparr>, build_runtime = None, EnginesJSON = ''{}'',
     flushes = True, redirect_status = 307\<rparr>"

definition example_api :: "map_db API" where
  "example_api = \<lparr>plane = \<lparr>hub = NewHub, db = example_registry 0, bus = New_bus\<rparr>, svc = \<lparr>setupTokenPath = [], setupToken = []\<rparr>,
     limiter = \<lparr>failures = 0, blockedUntil = 0\<rparr>, files = no_files\<rparr>"

definition delete_request :: request where
  "delete_request = \<lparr>req_method = ''DELETE'', escaped_path = ''/api/v1/instances/a'', cookie = None, tls = True, forwarded_proto = [],
     path = ''/api/v1/instances/a'', path_id = [], last_event_id = [], body = []\<rparr>"

theorem unauthenticated_confined_witness:
  "\<exists>w. serve_mux example_server 5 delete_request example_api = Some (Inl w, example_api) \<and> http_status w = 401"
proof -
  have m: "mux_lookup (req_method delete_request) (escaped_path delete_request) = Matched DeleteInstanceRoute [''a'']" by code_simp
  have sb: "serial_badger (badger_ops (base example_server)) map_look (=)"
    using map_db.serial_badger_axioms by (simp add: example_server_def)
  have reg: "registry_ok (map_look (db (plane example_api)))" "bus_ok (bus (plane example_api))"
    by (simp_all add: example_api_def bus_ok_New)
  have "\<not> authenticated (base example_server) 5 delete_request example_api"
    by (simp add: authenticated_def delete_request_def)
  from unauthenticated_confined [OF sb reg this] m show ?thesis by (auto simp: public_def)
qed

section \<open>Paths of instances\<close>

lemma split_path_append: "CHR ''/'' \<notin> set w \<Longrightarrow> split_path (w @ CHR ''/'' # p) = w # split_path p"
proof (induction w)
  case Nil
  then show ?case by (cases p) (auto split: list.splits)
next
  case (Cons c w)
  then have "c \<noteq> CHR ''/''" by auto
  with Cons show ?case by simp
qed

lemma split_path_plain: "CHR ''/'' \<notin> set w \<Longrightarrow> split_path w = [w]"
  by (induction w) auto

lemma split_path_join:
  "ws \<noteq> [] \<Longrightarrow> \<forall>w\<in>set ws. CHR ''/'' \<notin> set w \<Longrightarrow> split_path (join_path ws) = ws"
  by (induction ws rule: join_path.induct) (simp_all add: split_path_plain split_path_append)

text \<open>A path that is clean: no empty segment, no \<open>.\<close> and no \<open>..\<close>.\<close>

lemma cleanPath_clean:
  assumes "ws \<noteq> []" and "\<forall>w\<in>set ws. CHR ''/'' \<notin> set w \<and> w \<notin> {[], ''.'', ''..''}"
  shows "cleanPath (CHR ''/'' # join_path ws) = CHR ''/'' # join_path ws"
proof -
  have "foldl (clean_step True) ks us = rev us @ ks" if "set us \<subseteq> set ws" for us ks
    using that assms(2) by (induction us arbitrary: ks) (auto simp: clean_step_def)
  then have fold: "foldl (clean_step True) [] ws = rev ws" by fastforce
  have "split_path (CHR ''/'' # join_path ws) = [] # ws"
    using split_path_append [of "[]" "join_path ws"] split_path_join [OF assms(1)] assms(2) by simp
  then have clean: "Clean (CHR ''/'' # join_path ws) = CHR ''/'' # join_path ws"
    by (simp add: Clean_def clean_step_def fold)
  have "join_path us \<noteq> [] \<and> last (join_path us) \<noteq> CHR ''/''" if "us \<noteq> []" "set us \<subseteq> set ws" for us
    using that
  proof (induction us rule: join_path.induct)
    case (2 w)
    then have "w \<noteq> []" "CHR ''/'' \<notin> set w" using assms(2) by auto
    then show ?case using last_in_set [of w] by (metis join_path.simps(2))
  next
    case (3 w v us)
    then show ?case by simp
  qed simp
  with assms(1) have "last (CHR ''/'' # join_path ws) \<noteq> CHR ''/''" by auto
  then show ?thesis by (simp add: cleanPath_def clean)
qed

lemma instance_path_lookup:
  assumes "iid \<notin> {[], ''.'', ''..'', ''/''}"
  shows "mux_lookup ''GET'' (''/api/v1/instances/'' @ PathEscape iid) = Matched InstanceRoute [iid]"
    and "mux_lookup ''DELETE'' (''/api/v1/instances/'' @ PathEscape iid) = Matched DeleteInstanceRoute [iid]"
    and "mux_lookup ''PUT'' (''/api/v1/instances/'' @ PathEscape iid @ ''/desired'') = Matched SetDesiredRoute [iid]"
proof -
  define e where "e = PathEscape iid"
  have un: "PathUnescape e = Some iid" by (simp add: e_def PathUnescape_PathEscape)
  have e: "CHR ''/'' \<notin> set e" "e \<notin> {[], ''.'', ''..''}"
    using PathEscape_chars [of "CHR ''/''" iid] assms un by (auto simp: e_def)
  have p1: "''/api/v1/instances/'' @ e = CHR ''/'' # join_path [''api'', ''v1'', ''instances'', e]" by simp
  have p2: "''/api/v1/instances/'' @ e @ ''/desired'' = CHR ''/'' # join_path [''api'', ''v1'', ''instances'', e, ''desired'']" by simp
  have clean: "cleanPath (''/api/v1/instances/'' @ e) = ''/api/v1/instances/'' @ e"
    "cleanPath (''/api/v1/instances/'' @ e @ ''/desired'') = ''/api/v1/instances/'' @ e @ ''/desired''"
    unfolding p1 p2 using e by (intro cleanPath_clean; simp)+
  have segs: "path_segments (''/api/v1/instances/'' @ e) = [''api'', ''v1'', ''instances'', iid]"
    "path_segments (''/api/v1/instances/'' @ e @ ''/desired'') = [''api'', ''v1'', ''instances'', iid, ''desired'']"
    using e(1) un by (simp_all add: path_segments_def Split_no_sep Split_append)
  show "mux_lookup ''GET'' (''/api/v1/instances/'' @ PathEscape iid) = Matched InstanceRoute [iid]"
    "mux_lookup ''DELETE'' (''/api/v1/instances/'' @ PathEscape iid) = Matched DeleteInstanceRoute [iid]"
    "mux_lookup ''PUT'' (''/api/v1/instances/'' @ PathEscape iid @ ''/desired'') = Matched SetDesiredRoute [iid]"
    unfolding e_def [symmetric] mux_lookup_def clean segs Let_def
    using assms by (simp_all add: find_routes_def routes_def method_matches_def)
qed

text \<open>A request for a path, and the same request as a handler gets it, with the identifier of the path.\<close>

definition asks :: "string \<Rightarrow> string \<Rightarrow> request \<Rightarrow> request" where
  "asks verb p r = r\<lparr>req_method := verb, escaped_path := p\<rparr>"

text \<open>A client with the session \<open>token\<close>.\<close>

definition session_request :: request where
  "session_request = delete_request\<lparr>cookie := Some ''token''\<rparr>"

definition session_api :: "map_db API" where
  "session_api = example_api\<lparr>plane := \<lparr>hub = NewHub, db = db_of [(sessionKey ''token'', Bytes [CHR 0x01])] 0, bus = New_bus\<rparr>\<rparr>"

text \<open>
  C33.  The identifier in a path reaches the handler unchanged: when a client with a session escapes an
  identifier as a path segment, be it any text but the empty one, a dot, two dots or a slash, the answer to
  its request is the one the handler of the route gives for exactly that identifier.
\<close>

theorem instance_path_roundtrip:
  assumes "iid \<notin> {[], ''.'', ''..'', ''/''}" and "authenticated (base S) now r a"
  shows "(let g = asks ''GET'' (''/api/v1/instances/'' @ PathEscape iid) r in
      serve_mux S now g a = Some (Inl (instance_view (base S) now (g\<lparr>path_id := iid\<rparr>) a), a)) \<and>
    (let g = asks ''DELETE'' (''/api/v1/instances/'' @ PathEscape iid) r in
      serve_mux S now g a = map_option (\<lambda>(w, a). (Inl w, a)) (deleteInstance (base S) now (g\<lparr>path_id := iid\<rparr>) a)) \<and>
    (let g = asks ''PUT'' (''/api/v1/instances/'' @ PathEscape iid @ ''/desired'') r in
      serve_mux S now g a = map_option (\<lambda>(w, a). (Inl w, a)) (setDesired (base S) now (g\<lparr>path_id := iid\<rparr>) a))"
proof -
  have "authenticated (base S) now (asks verb p r\<lparr>path_id := iid\<rparr>) a" for verb p
    using assms(2) by (simp add: authenticated_def asks_def)
  then have auth: "requireAuth (base S) now h (asks verb p r\<lparr>path_id := iid\<rparr>) a = h (asks verb p r\<lparr>path_id := iid\<rparr>) a" for h verb p
    by (simp add: requireAuth_def)
  have asked: "req_method (asks verb p r) = verb" "escaped_path (asks verb p r) = p" for verb p by (simp_all add: asks_def)
  show ?thesis
    unfolding Let_def serve_mux_def asked instance_path_lookup [OF assms(1)]
    by (simp add: route_handler_def Let_def auth answer_def replies_def del: append.simps)
qed

theorem instance_path_roundtrip_witness:
  "serve_mux example_server 5 (asks ''GET'' (''/api/v1/instances/'' @ PathEscape ''a'') session_request) session_api =
     Some (Inl (instance_view (base example_server) 5 (asks ''GET'' (''/api/v1/instances/'' @ PathEscape ''a'') session_request\<lparr>path_id := ''a''\<rparr>) session_api), session_api)"
proof -
  have "authenticated (base example_server) 5 session_request session_api"
    by (simp add: authenticated_def session_request_def session_api_def example_server_def delete_request_def SessionValid_def SessionHash_def
        sessionKey_def map_badger_simps Let_def)
  from instance_path_roundtrip [OF _ this, of "''a''"] show ?thesis unfolding Let_def by simp
qed

end
