(* ===== verification/Enrolment.thy ===== *)
theory Enrolment
  imports Programs Router
begin

text \<open>
  How the host wires the certificate authority into the API and the SSH installer (\<open>api.New\<close> and
  \<open>sshinstall.New\<close> are given the authority of \<open>cmd/ulcer-host/main.go\<close>), and what an enrolment hands out: the
  credentials in the response of \<open>createInstance\<close> are ones the control server accepts for that instance.
\<close>

definition marshal_Bundle :: "Bundle \<Rightarrow> json" where
  "marshal_Bundle b = JObj [(''certificate_pem'', JStr (CertificatePEM b)), (''private_key_pem'', JStr (BundleKeyPEM b)),
     (''ca_pem'', JStr (CAPEM b))]"

text \<open>\<open>a.authority.IssueInstance(id)\<close> of \<open>createInstance\<close>, with the text the response gives the bundle.\<close>

definition api_issue ::
    "('key, 'cert) crypto \<Rightarrow> nat \<Rightarrow> instant \<Rightarrow> fs \<Rightarrow> ('key, 'cert) Authority \<Rightarrow> string \<Rightarrow> json option" where
  "api_issue C i now f a iid = (case IssueInstance C i now f a iid of Inl e \<Rightarrow> None | Inr b \<Rightarrow> Some (marshal_Bundle b))"

text \<open>\<open>i.authority.IssueInstanceFiles(id)\<close> of \<open>Install\<close>.\<close>

definition installer_issue ::
    "('key, 'cert) crypto \<Rightarrow> nat \<Rightarrow> instant \<Rightarrow> fs \<Rightarrow> ('key, 'cert) Authority \<Rightarrow> string \<Rightarrow> (string \<times> string \<times> string) option" where
  "installer_issue C i now f a iid = (case IssueInstanceFiles C i now f a iid of
       Inl e \<Rightarrow> None
     | Inr fs \<Rightarrow> Some (Certificate fs, PrivateKey fs, CA fs))"

text \<open>What the response of a successful enrolment says.\<close>

lemma createInstance_created:
  assumes "createInstance P now r a = Some (w, a')" and "http_status w = 201"
  obtains creds name s where "issue P (new_uuid P) = Some creds"
    and "payload w = Some (JObj [(''credentials'', creds), (''instance'', marshal_Instance (new_instance now (new_uuid P) name))])"
    and "PutInstance (badger_ops P) (new_instance now (new_uuid P) name) (db (plane a)) = (Inr (), s)"
    and "api_publish P now ''instance.enrolled'' (new_uuid P) [(''name'', JStr name)] (set_db s a) = Some a'"
proof -
  show ?thesis
    using assms that decodeJSON_status
    by (auto simp: createInstance_def Let_def writeError_def writeJSON_def split: sum.splits if_splits option.splits prod.splits)
qed

context serial_badger
begin

lemma createInstance_enrols:
  assumes "createInstance P now r a = Some (w, a')" and "http_status w = 201" and "badger_ops P = B"
    and reg: "registry_ok (look (db (plane a)))" and bus: "bus_ok (bus (plane a))"
  obtains creds i where "issue P (new_uuid P) = Some creds"
    and "payload w = Some (JObj [(''credentials'', creds), (''instance'', marshal_Instance i)])"
    and "enrolled (look (db (plane a'))) = (enrolled (look (db (plane a))))(new_uuid P \<mapsto> i)"
proof -
  obtain creds name s where c: "issue P (new_uuid P) = Some creds"
    "payload w = Some (JObj [(''credentials'', creds), (''instance'', marshal_Instance (new_instance now (new_uuid P) name))])"
    "PutInstance (badger_ops P) (new_instance now (new_uuid P) name) (db (plane a)) = (Inr (), s)"
    "api_publish P now ''instance.enrolled'' (new_uuid P) [(''name'', JStr name)] (set_db s a) = Some a'"
    using assms(1,2) by (rule createInstance_created)
  from PutInstance_refines [OF reg c(3) [unfolded assms(3)]]
  have put: "registry_ok (look s)" "enrolled (look s) = (enrolled (look (db (plane a))))(new_uuid P \<mapsto> new_instance now (new_uuid P) name)"
    by (simp_all add: new_instance_def)
  obtain s' b' where "publish B now ''instance.enrolled'' (new_uuid P) [(''name'', JStr name)] (s, bus (plane a)) = Some (s', b')"
    and "keeps_registry (Some (new_uuid P)) (look s) (look s')" using put(1) bus by (rule publish_keeps)
  with c(4) put(2) have "enrolled (look (db (plane a'))) = (enrolled (look (db (plane a))))(new_uuid P \<mapsto> new_instance now (new_uuid P) name)"
    by (auto simp: api_publish_def assms(3) set_db_def keeps_registry_def)
  with c(1,2) show ?thesis by (rule that)
qed

end

text \<open>
  C10.  What an enrolment hands out lets the agent in: when \<open>createInstance\<close> answers 201, the instance in
  the response is in the registry, and the credentials beside it are the authority's certificate, the
  certificate of that instance and its key, with which the control server authorises exactly that
  instance; no other instance is changed.
\<close>

theorem created_instance_can_connect:
  assumes "serial_badger B look rely" and "registry_ok (look (db (plane a)))" and "bus_ok (bus (plane a))"
    and "x509_ok C contents key_of signed_by" and "badger_ops P = B" and "issue P = api_issue C k now f authority"
    and "safeUUID (new_uuid P)" and "createInstance P now r a = Some (w, a')" and "http_status w = 201"
  shows "\<exists>i b c. payload w = Some (JObj [(''credentials'', marshal_Bundle b), (''instance'', marshal_Instance i)]) \<and>
    enrolled (look (db (plane a'))) = (enrolled (look (db (plane a))))(new_uuid P \<mapsto> i) \<and>
    ReadFile f (Join [auth_dir authority, ''ca.crt'']) = Inr (CAPEM b) \<and>
    pem_pair C (CertificatePEM b) (BundleKeyPEM b) c (key_of c) \<and> signed_by c (caKey authority) \<and>
    (\<forall>jid. safeUUID jid \<longrightarrow>
       (authorizeInstance (TLSInfo [[\<lparr>URIs = TemplateURIs (contents c)\<rparr>]]) jid = None \<longleftrightarrow> jid = new_uuid P))"
proof -
  obtain creds i where c: "issue P (new_uuid P) = Some creds"
    "payload w = Some (JObj [(''credentials'', creds), (''instance'', marshal_Instance i)])"
    "enrolled (look (db (plane a'))) = (enrolled (look (db (plane a))))(new_uuid P \<mapsto> i)"
    using serial_badger.createInstance_enrols [OF assms(1,8,9,5,2,3)] by blast
  then obtain b where b: "IssueInstance C k now f authority (new_uuid P) = Inr b" "creds = marshal_Bundle b"
    by (auto simp: assms(6) api_issue_def split: sum.splits)
  then obtain fs where fs: "IssueInstanceFiles C k now f authority (new_uuid P) = Inr fs"
    "CertificatePEM b = Certificate fs" "BundleKeyPEM b = PrivateKey fs" "CAPEM b = CA fs"
    by (auto simp: IssueInstance_def bind_simps)
  obtain cert serial where "pem_pair C (Certificate fs) (PrivateKey fs) cert (key_of cert)" "signed_by cert (caKey authority)"
    and cert: "contents cert = on_wire (instance_template C serial now (new_uuid P) (''spiffe://ulcer/instance/'' @ new_uuid P))"
    using assms(4,7) fs(1) by (rule IssueInstanceFiles_ok)
  moreover have "\<forall>jid. safeUUID jid \<longrightarrow>
      (authorizeInstance (TLSInfo [[\<lparr>URIs = TemplateURIs (contents cert)\<rparr>]]) jid = None \<longleftrightarrow> jid = new_uuid P)"
    unfolding cert by (intro allI impI authorize_template assms(7))
  moreover have "ReadFile f (Join [auth_dir authority, ''ca.crt'']) = Inr (CA fs)" using fs(1) by (rule IssueInstanceFiles_CA)
  ultimately show ?thesis
    using c(2,3) unfolding b(2) fs(2-4) [symmetric] by blast
qed


text \<open>
  The same holds of an SSH installation: the two files it uploads for the agent are a certificate and its
  key, and the certificate speaks for the instance of the plan alone.
\<close>

lemma installed_credentials_authorised:
  assumes lib: "x509_ok C contents key_of signed_by" and iss: "issue_files S = installer_issue C k now f authority"
    and plan: "install_plan S cfg cancelled now iid callback r = Inr p"
  shows "\<exists>cert key c. {Some (uploadFile (''/etc/ulcer/instances/'' @ iid @ ''/instance.crt'') ''0640'' ''root:65532'', cert),
      Some (uploadFile (''/etc/ulcer/instances/'' @ iid @ ''/instance.key'') ''0640'' ''root:65532'', key)} \<subseteq> set (plan_commands p) \<and>
    pem_pair C cert key c (key_of c) \<and> signed_by c (caKey authority) \<and>
    (\<forall>jid. safeUUID jid \<longrightarrow> (authorizeInstance (TLSInfo [[\<lparr>URIs = TemplateURIs (contents c)\<rparr>]]) jid = None \<longleftrightarrow> jid = iid))"
proof -
  obtain environment unit credentials where unit: "renderUnit iid (InstanceImage cfg) = Some unit"
    and cred: "issue_files S iid = Some credentials"
    and p: "p = \<lparr>plan_instance = new_instance now iid (ReqName r),
       plan_commands = remote_commands iid (InstanceImage cfg) (install_files iid environment credentials unit)\<rparr>"
    using plan by (rule install_plan_ok)
  have safe: "safeUUID iid" using unit by (auto simp: renderUnit_def split: if_splits)
  obtain fs where fs: "IssueInstanceFiles C k now f authority iid = Inr fs" and triple: "credentials = (Certificate fs, PrivateKey fs, CA fs)"
    using cred by (auto simp: iss installer_issue_def split: sum.splits)
  obtain c serial where c: "pem_pair C (Certificate fs) (PrivateKey fs) c (key_of c)" "signed_by c (caKey authority)"
    and contents: "contents c = on_wire (instance_template C serial now iid (''spiffe://ulcer/instance/'' @ iid))"
    using lib safe fs by (rule IssueInstanceFiles_ok)
  have "\<forall>jid. safeUUID jid \<longrightarrow> (authorizeInstance (TLSInfo [[\<lparr>URIs = TemplateURIs (contents c)\<rparr>]]) jid = None \<longleftrightarrow> jid = iid)"
    unfolding contents by (intro allI impI authorize_template safe)
  moreover have "{Some (uploadFile (''/etc/ulcer/instances/'' @ iid @ ''/instance.crt'') ''0640'' ''root:65532'', Certificate fs),
      Some (uploadFile (''/etc/ulcer/instances/'' @ iid @ ''/instance.key'') ''0640'' ''root:65532'', PrivateKey fs)} \<subseteq> set (plan_commands p)"
    by (simp add: p triple remote_commands_def install_files_def)
  ultimately show ?thesis using c by blast
qed

text \<open>An enrolment with the example authority.\<close>

definition enrol_platform :: "map_db platform" where
  "enrol_platform = (base example_server)\<lparr>issue := api_issue example_crypto 1 5 example_pki_files example_authority\<rparr>"

definition enrol_request :: request where
  "enrol_request = delete_request\<lparr>req_method := ''POST'', escaped_path := ''/api/v1/instances'', body := [Some (JObj [(''name'', JStr ''edge'')])]\<rparr>"

definition enrol_api :: "map_db API" where
  "enrol_api = example_api\<lparr>plane := \<lparr>hub = NewHub, db = empty_db, bus = New_bus\<rparr>\<rparr>"

lemma example_enrolment: "\<exists>w a'. createInstance enrol_platform 5 enrol_request enrol_api = Some (w, a') \<and> http_status w = 201"
proof -
  have iss: "\<exists>b. issue enrol_platform example_uuid = Some b"
    by (simp add: example_issued [simplified] enrol_platform_def api_issue_def IssueInstance_def)
  have p: "new_uuid enrol_platform = example_uuid" "badger_ops enrol_platform = map_badger"
    by (simp_all add: enrol_platform_def example_server_def)
  have d: "decodeJSON [(''name'', StringField)] enrol_request = Inr [(''name'', JStr ''edge'')]"
    by (simp add: enrol_request_def decodeJSON_def named.simps field_of_def members_def)
  have n: "string_field [(''name'', JStr ''edge'')] ''name'' = ''edge''" "ValidateInstanceName ''edge'' = None" by code_simp+
  obtain s where put: "PutInstance map_badger (new_instance 5 example_uuid ''edge'') empty_db = (Inr (), s)"
    by (simp add: PutInstance_def Update_def map_badger_ops empty_db_def)
  have "registry_ok (map_look s)" using map_db.PutInstance_refines [OF registry_ok_empty(1) put] by simp
  from map_db.publish_keeps [OF this bus_ok_New] obtain s' b' where
    "publish map_badger 5 ''instance.enrolled'' example_uuid [(''name'', JStr ''edge'')] (s, New_bus) = Some (s', b')" by metis
  with iss put show ?thesis
    by (auto simp: createInstance_def d n p Let_def enrol_api_def api_publish_def set_db_def writeJSON_def)
qed

theorem created_instance_can_connect_witness:
  "\<exists>w a' i b c. createInstance enrol_platform 5 enrol_request enrol_api = Some (w, a') \<and>
     payload w = Some (JObj [(''credentials'', marshal_Bundle b), (''instance'', marshal_Instance i)]) \<and>
     enrolled (map_look (db (plane a'))) = [example_uuid \<mapsto> i] \<and>
     authorizeInstance (TLSInfo [[\<lparr>URIs = TemplateURIs (example_contents c)\<rparr>]]) example_uuid = None"
proof -
  obtain w a' where w: "createInstance enrol_platform 5 enrol_request enrol_api = Some (w, a')" "http_status w = 201"
    using example_enrolment by blast
  have P: "badger_ops enrol_platform = map_badger" "new_uuid enrol_platform = example_uuid"
    "issue enrol_platform = api_issue example_crypto 1 5 example_pki_files example_authority"
    by (simp_all add: enrol_platform_def example_server_def)
  have a: "registry_ok (map_look (db (plane enrol_api)))" "bus_ok (bus (plane enrol_api))" "enrolled (map_look (db (plane enrol_api))) = Map.empty"
    by (simp_all add: enrol_api_def bus_ok_New registry_ok_empty)
  from created_instance_can_connect [OF map_db.serial_badger_axioms a(1,2) example_crypto_ok P(1,3) _ w]
  show ?thesis using w(1) example_uuid_safe unfolding P a(3) by blast
qed

end
