(* ===== verification/Build.thy ===== *)
theory Build
  imports Buildinfo Os
begin

text \<open>
  \<open>magefile.go\<close>: what the build script decides.  \<open>Freeze\<close> compares the submodules of the index with the
  reviewed manifest, \<open>currentBuildMetadata\<close> and \<open>buildLDFlags\<close> choose what is linked into the binaries,
  \<open>Checksums\<close> lists the release files, \<open>run\<close> merges environments.  The commands it runs are arguments: what
  \<open>git\<close> prints, the variables of the environment.
\<close>

section \<open>Frozen sources\<close>

text \<open>\<open>strings.Fields\<close>\<close>

definition skip_space :: "string \<Rightarrow> string" where
  "skip_space s = dropWhile is_space s"

function Fields :: "string \<Rightarrow> string list" where
  "Fields s = (case skip_space s of [] \<Rightarrow> [] | c # cs \<Rightarrow> takeWhile (\<lambda>c. \<not> is_space c) (c # cs) # Fields (dropWhile (\<lambda>c. \<not> is_space c) (c # cs)))"
  by auto

termination
proof (relation "measure length")
  fix s :: string and c cs assume s: "skip_space s = c # cs"
  then have "\<not> is_space c" unfolding skip_space_def by (metis hd_dropWhile list.distinct(1) list.sel(1))
  then have "length (dropWhile (\<lambda>c. \<not> is_space c) (c # cs)) \<le> length cs" by (simp add: length_dropWhile_le)
  moreover have "length (c # cs) \<le> length s" using s length_dropWhile_le unfolding skip_space_def by metis
  ultimately show "(dropWhile (\<lambda>c. \<not> is_space c) (c # cs), s) \<in> measure length" by simp
qed simp

declare Fields.simps [simp del]

definition add_gitlink :: "(string \<rightharpoonup> string) \<Rightarrow> string \<Rightarrow> string \<rightharpoonup> string" where
  "add_gitlink links line =
     (let fields = Fields line in
      if length fields \<ge> 4 \<and> fields ! 0 = ''160000'' then links(fields ! 3 \<mapsto> fields ! 1) else links)"

text \<open>The gitlinks \<open>git ls-files --stage\<close> lists.\<close>

definition gitlinks :: "string list \<Rightarrow> string \<rightharpoonup> string" where
  "gitlinks output = foldl add_gitlink Map.empty output"

text \<open>The loop over the manifest: the links that are left, or the path that differs.\<close>

fun freeze_loop :: "(string \<times> string) list \<Rightarrow> (string \<rightharpoonup> string) \<Rightarrow> string + (string \<rightharpoonup> string)" where
  "freeze_loop [] links = Inr links"
| "freeze_loop ((p, commit) # sources) links =
     (if (case links p of None \<Rightarrow> [] | Some c \<Rightarrow> c) \<noteq> commit then Inl p
      else freeze_loop sources (links(p := None)))"

definition Freeze :: "(string \<times> string) list \<Rightarrow> string list \<Rightarrow> bool" where
  "Freeze sources output = (case freeze_loop sources (gitlinks output) of
       Inl p \<Rightarrow> False
     | Inr links \<Rightarrow> links = Map.empty)"

lemma freeze_loop_exact:
  assumes "\<forall>(p, commit)\<in>set sources. commit \<noteq> []"
  shows "freeze_loop sources links = Inr Map.empty \<longleftrightarrow> distinct (map fst sources) \<and> map_of sources = links"
  using assms
proof (induction sources arbitrary: links)
  case (Cons s sources)
  obtain p commit where s: "s = (p, commit)" by fastforce
  have ne: "commit \<noteq> []" and IH: "\<And>links. freeze_loop sources links = Inr Map.empty \<longleftrightarrow> distinct (map fst sources) \<and> map_of sources = links"
    using Cons s by auto
  have none: "p \<notin> fst ` set sources \<longleftrightarrow> map_of sources p = None" by (simp add: map_of_eq_None_iff)
  have rest: "map_of sources = links(p := None) \<and> links p = Some commit \<longleftrightarrow>
      map_of sources p = None \<and> (map_of sources)(p \<mapsto> commit) = links"
    by (metis fun_upd_same fun_upd_triv fun_upd_upd)
  have head: "(case links p of None \<Rightarrow> [] | Some c \<Rightarrow> c) \<noteq> commit \<longleftrightarrow> links p \<noteq> Some commit"
    using ne by (auto split: option.splits)
  have "freeze_loop (s # sources) links = Inr Map.empty \<longleftrightarrow>
      links p = Some commit \<and> distinct (map fst sources) \<and> map_of sources = links(p := None)"
    unfolding s freeze_loop.simps head using IH [of "links(p := None)"] by simp
  also have "\<dots> \<longleftrightarrow> distinct (map fst (s # sources)) \<and> map_of (s # sources) = links"
    unfolding s using rest none by auto
  finally show ?case .
qed auto

lemma freeze_loop_covers: "freeze_loop sources links = Inr Map.empty \<Longrightarrow> links p = Some c \<Longrightarrow> (p, c) \<in> set sources"
proof (induction sources arbitrary: links)
  case (Cons s sources)
  obtain q commit where s: "s = (q, commit)" by fastforce
  show ?case
  proof (cases "q = p")
    case True
    with Cons.prems s show ?thesis by (auto split: if_splits)
  next
    case False
    with Cons.prems s have "freeze_loop sources (links(q := None)) = Inr Map.empty" "(links(q := None)) p = Some c"
      by (auto split: if_splits)
    then show ?thesis using Cons.IH by simp
  qed
qed simp

text \<open>
  C34.  The freeze is exact: \<open>Freeze\<close> passes only when every submodule of the index is in the manifest with
  the commit the index has; and with a manifest in which no commit is empty it passes exactly when the
  manifest names every submodule of the index once, with that commit, and no other path.  (A manifest entry
  with an empty commit is accepted for a path that is not in the index.)
\<close>

theorem freeze_exact:
  "(Freeze sources output \<longrightarrow> (\<forall>p c. gitlinks output p = Some c \<longrightarrow> (p, c) \<in> set sources)) \<and>
   ((\<forall>(p, commit)\<in>set sources. commit \<noteq> []) \<longrightarrow>
     (Freeze sources output \<longleftrightarrow> distinct (map fst sources) \<and> map_of sources = gitlinks output))"
proof (intro conjI impI allI)
  have freeze: "Freeze sources output \<longleftrightarrow> freeze_loop sources (gitlinks output) = Inr Map.empty"
    by (auto simp: Freeze_def split: sum.splits)
  show "(p, c) \<in> set sources" if "Freeze sources output" "gitlinks output p = Some c" for p c
    using that freeze freeze_loop_covers by blast
  show "Freeze sources output \<longleftrightarrow> distinct (map fst sources) \<and> map_of sources = gitlinks output"
    if "\<forall>(p, commit)\<in>set sources. commit \<noteq> []"
    unfolding freeze using that by (rule freeze_loop_exact)
qed

theorem freeze_exact_witness:
  "Freeze [(''engines/a'', ''c1'')] [''160000 c1 0 engines/a'', ''100644 c2 0 go.mod''] \<and>
   \<not> Freeze [(''engines/a'', ''c1'')] [''160000 c9 0 engines/a'']"
proof -
  let ?m = "[(''engines/a'', ''c1'')]" and ?one = "[''160000 c1 0 engines/a'', ''100644 c2 0 go.mod'']" and ?other = "[''160000 c9 0 engines/a'']"
  have links: "gitlinks ?one = [''engines/a'' \<mapsto> ''c1'']" "gitlinks ?other = [''engines/a'' \<mapsto> ''c9'']"
    by (simp_all add: gitlinks_def add_gitlink_def Fields.simps skip_space_def is_space_def)
  have ne: "\<forall>(p, commit)\<in>set ?m. commit \<noteq> []" by simp
  have "map_of ?m = gitlinks ?one" unfolding links by simp
  moreover have "map_of ?m (''engines/a'') \<noteq> gitlinks ?other (''engines/a'')" unfolding links by simp
  then have "map_of ?m \<noteq> gitlinks ?other" by metis
  moreover have "distinct (map fst ?m)" by simp
  ultimately show ?thesis
    using conjunct2 [OF freeze_exact [of ?m ?one]] conjunct2 [OF freeze_exact [of ?m ?other]] ne by blast
qed


section \<open>Build metadata\<close>

record buildMetadata =
  meta_version :: string
  meta_revision :: string
  meta_sourceRef :: string

definition build_char :: "char \<Rightarrow> bool" where
  "build_char c \<longleftrightarrow> ascii_between 97 c 122 \<or> ascii_between 65 c 90 \<or> ascii_between 48 c 57 \<or> c \<in> set ''._/+:-''"

definition validBuildValue :: "string \<Rightarrow> bool" where
  "validBuildValue value \<longleftrightarrow> \<not> (value = [] \<or> length value > 256) \<and> list_all build_char value"

text \<open>The first of the texts that is not empty.\<close>

fun first_set :: "string list \<Rightarrow> string" where
  "first_set [] = []"
| "first_set (v # vs) = (if v \<noteq> [] then v else first_set vs)"

text \<open>\<open>git\<close> is the trimmed output of a command, empty when it fails.\<close>

definition currentBuildMetadata :: "(string \<Rightarrow> string) \<Rightarrow> (string list \<Rightarrow> string) \<Rightarrow> buildMetadata option" where
  "currentBuildMetadata env git =
     (let releaseVersion = env ''RELEASE_VERSION'';
          exactTag = git [''describe'', ''--tags'', ''--exact-match''];
          revision0 = first_set [env ''BUILD_REVISION'', git [''rev-parse'', ''HEAD'']];
          version = first_set [env ''BUILD_VERSION'', releaseVersion, exactTag, ''development''];
          revision = first_set [revision0, ''unknown''];
          sourceRef = first_set [env ''BUILD_SOURCE_REF'', exactTag, releaseVersion, git [''symbolic-ref'', ''--short'', ''-q'', ''HEAD''], revision]
      in if validBuildValue version \<and> validBuildValue revision \<and> validBuildValue sourceRef
         then Some \<lparr>meta_version = version, meta_revision = revision, meta_sourceRef = sourceRef\<rparr> else None)"

definition ldflags :: "bool \<Rightarrow> buildMetadata \<Rightarrow> string list" where
  "ldflags strip m =
     (let packagePath = ''github.com/owenewans/ulcer/internal/buildinfo.'' in
      (if strip then [''-s'', ''-w''] else []) @
      [''-X'', packagePath @ ''Version='' @ meta_version m, ''-X'', packagePath @ ''Revision='' @ meta_revision m,
       ''-X'', packagePath @ ''SourceRef='' @ meta_sourceRef m])"

definition buildLDFlags :: "bool \<Rightarrow> (string \<Rightarrow> string) \<Rightarrow> (string list \<Rightarrow> string) \<Rightarrow> string option" where
  "buildLDFlags strip env git = map_option (\<lambda>m. join_with (CHR '' '') (ldflags strip m)) (currentBuildMetadata env git)"

lemma build_char_plain: "build_char c \<Longrightarrow> \<not> is_space c \<and> c \<noteq> CHR '' '' \<and> 32 \<le> (of_char c :: nat) \<and> (of_char c :: nat) < 127"
  by (auto simp: build_char_def ascii_between_def is_space_def)

lemma no_control: "\<forall>c\<in>set s. 32 \<le> (of_char c :: nat) \<and> (of_char c :: nat) < 127 \<Longrightarrow> \<not> has_control s"
  by (induction s) (auto simp: Let_def)

text \<open>A value the build accepts is one the binary reports as it is.\<close>

lemma clean_build_value:
  assumes "validBuildValue v"
  shows "clean v = v" and "v \<noteq> []" and "CHR '' '' \<notin> set v"
proof -
  have c: "\<forall>c\<in>set v. build_char c" "v \<noteq> []" "length v \<le> 256" using assms by (auto simp: validBuildValue_def list_all_iff)
  then have "TrimSpace v = v" using build_char_plain by (intro TrimSpace_no_space) blast
  moreover have "\<not> has_control v" using c(1) build_char_plain by (intro no_control) blast
  ultimately show "clean v = v" using c(3) by (simp add: clean_def)
  show "v \<noteq> []" "CHR '' '' \<notin> set v" using c build_char_plain by blast+
qed

text \<open>
  C35.  What is linked is what is reported: the flags of a build split at spaces into exactly the settings
  of version, revision and reference, with nothing a value could have added, and the binary then reports
  these three values unchanged, whatever its own build information says.
\<close>

theorem linked_metadata_reported:
  assumes "currentBuildMetadata env git = Some m"
  shows "\<exists>flags. buildLDFlags strip env git = Some flags \<and> Split flags (CHR '' '') = ldflags strip m \<and>
    (let i = Current \<lparr>InjVersion = meta_version m, InjRevision = meta_revision m, InjSourceRef = meta_sourceRef m\<rparr> info in
     Version i = meta_version m \<and> Revision i = meta_revision m \<and> SourceRef i = meta_sourceRef m)"
proof -
  have v: "validBuildValue (meta_version m)" "validBuildValue (meta_revision m)" "validBuildValue (meta_sourceRef m)"
    using assms by (auto simp: currentBuildMetadata_def Let_def split: if_splits)
  note clean = clean_build_value [OF v(1)] clean_build_value [OF v(2)] clean_build_value [OF v(3)]
  have "\<forall>w\<in>set (ldflags strip m). CHR '' '' \<notin> set w" "ldflags strip m \<noteq> []"
    using clean(3,6,9) by (auto simp: ldflags_def Let_def)
  then have "Split (join_with (CHR '' '') (ldflags strip m)) (CHR '' '') = ldflags strip m" by (intro Split_join_with)
  moreover have "let i = Current \<lparr>InjVersion = meta_version m, InjRevision = meta_revision m, InjSourceRef = meta_sourceRef m\<rparr> info in
     Version i = meta_version m \<and> Revision i = meta_revision m \<and> SourceRef i = meta_sourceRef m"
    using clean by (simp add: Current_def Let_def split: option.split)
  ultimately show ?thesis using assms by (simp add: buildLDFlags_def)
qed

theorem linked_metadata_reported_witness:
  "\<exists>m. currentBuildMetadata (\<lambda>v. if v = ''BUILD_VERSION'' then ''v1.2.3'' else []) (\<lambda>args. if args = [''rev-parse'', ''HEAD''] then ''abc'' else []) = Some m \<and>
     Split (the (buildLDFlags True (\<lambda>v. if v = ''BUILD_VERSION'' then ''v1.2.3'' else []) (\<lambda>args. if args = [''rev-parse'', ''HEAD''] then ''abc'' else [])))
       (CHR '' '') = ldflags True m \<and>
     Revision (Current \<lparr>InjVersion = meta_version m, InjRevision = meta_revision m, InjSourceRef = meta_sourceRef m\<rparr> None) = ''abc''"
proof -
  let ?env = "\<lambda>v. if v = ''BUILD_VERSION'' then ''v1.2.3'' else []" and ?git = "\<lambda>args. if args = [''rev-parse'', ''HEAD''] then ''abc'' else []"
  have m: "currentBuildMetadata ?env ?git = Some \<lparr>meta_version = ''v1.2.3'', meta_revision = ''abc'', meta_sourceRef = ''abc''\<rparr>"
    by code_simp
  from linked_metadata_reported [OF m, of True None] m show ?thesis by (auto simp: Let_def)
qed


section \<open>Release files and environments\<close>

text \<open>
  \<open>Checksums\<close>: a line for every entry of \<open>dist\<close> that is not a directory and not the list itself; \<open>content\<close> is
  \<open>None\<close> for a directory.
\<close>

definition checksum_line :: "(string \<Rightarrow> string) \<Rightarrow> string \<times> string option \<Rightarrow> string" where
  "checksum_line sha256_hex e = (case e of
       (name, None) \<Rightarrow> []
     | (name, Some content) \<Rightarrow> if name = ''SHA256SUMS'' then [] else sha256_hex content @ ''  '' @ name @ [CHR 0x0A])"

definition Checksums :: "(string \<Rightarrow> string) \<Rightarrow> (string \<times> string option) list \<Rightarrow> string" where
  "Checksums sha256_hex entries = concat (map (checksum_line sha256_hex) entries)"

text \<open>The environment of a command: the one of the process, overridden.\<close>

definition merged_environment :: "string list \<Rightarrow> (string \<times> string) list \<Rightarrow> string \<rightharpoonup> string" where
  "merged_environment environ overrides =
     foldl (\<lambda>env (key, value). env(key \<mapsto> value))
       (foldl (\<lambda>env entry. case Cut entry ''='' of (key, value, ok) \<Rightarrow> if ok then env(key \<mapsto> value) else env) Map.empty environ)
       overrides"

definition release_name :: "string \<Rightarrow> string \<Rightarrow> string \<Rightarrow> string" where
  "release_name binary goos goarch =
     Join [''dist'', ''ulcer-'' @ binary @ ''-'' @ goos @ ''-'' @ goarch @ (if goos = ''windows'' then ''.exe'' else [])]"

lemma merged_environment_override: "key \<in> fst ` set overrides \<Longrightarrow> merged_environment environ overrides key = merged_environment [] overrides key"
proof -
  have "key \<in> fst ` set overrides \<Longrightarrow> foldl (\<lambda>env (key, value). env(key \<mapsto> value)) e overrides key =
      foldl (\<lambda>env (key, value). env(key \<mapsto> value)) e' overrides key" for e e' :: "string \<rightharpoonup> string"
  proof (induction overrides arbitrary: e e' rule: rev_induct)
    case (snoc x overrides)
    then show ?case by (cases x) (auto split: if_splits)
  qed simp
  then show "key \<in> fst ` set overrides \<Longrightarrow> ?thesis" by (simp add: merged_environment_def)
qed


section \<open>The targets\<close>

text \<open>A command of \<open>run\<close>, and a target: commands until the first that fails.\<close>

record command =
  cmd_dir :: string
  cmd_env :: "(string \<times> string) list"
  cmd_name :: string
  cmd_args :: "string list"

fun run_all :: "(command \<Rightarrow> bool) \<Rightarrow> command list \<Rightarrow> command list \<times> bool" where
  "run_all ok [] = ([], True)"
| "run_all ok (c # cs) = (if ok c then (case run_all ok cs of (started, r) \<Rightarrow> (c # started, r)) else ([c], False))"

abbreviation cmd :: "string \<Rightarrow> string \<Rightarrow> string list \<Rightarrow> command" where
  "cmd dir name args \<equiv> \<lparr>cmd_dir = dir, cmd_env = [], cmd_name = name, cmd_args = args\<rparr>"

definition goPackages :: "string list" where
  "goPackages = [''./cmd/...'', ''./gen/...'', ''./internal/...'', ''./versions/...'']"

definition Generate :: "(command \<Rightarrow> bool) \<Rightarrow> command list \<times> bool" where
  "Generate ok = run_all ok [cmd [] ''protoc'' [''--go_out=.'', ''--go_opt=module=github.com/owenewans/ulcer'', ''--go-grpc_out=.'',
     ''--go-grpc_opt=module=github.com/owenewans/ulcer'', ''api/proto/v1/control.proto'']]"

definition Format :: "(command \<Rightarrow> bool) \<Rightarrow> command list \<times> bool" where
  "Format ok = run_all ok [cmd [] ''gofmt'' [''-w'', ''magefile.go''], cmd [] ''go'' (''fmt'' # goPackages)]"

definition Test :: "(command \<Rightarrow> bool) \<Rightarrow> command list \<times> bool" where
  "Test ok = run_all ok [cmd [] ''go'' (''test'' # goPackages)]"

definition check_commands :: "command list" where
  "check_commands = [cmd [] ''go'' (''vet'' # goPackages), cmd [] ''go'' (''test'' # ''-race'' # goPackages),
     cmd ''web'' ''bun'' [''run'', ''typecheck''], cmd ''web'' ''bun'' [''run'', ''lint'']]"

text \<open>\<open>Check\<close>, given the manifest and what \<open>git ls-files\<close> prints.\<close>

definition Check :: "(string \<times> string) list \<Rightarrow> string list \<Rightarrow> (command \<Rightarrow> bool) \<Rightarrow> command list \<times> bool" where
  "Check sources output ok = (if \<not> Freeze sources output then ([], False) else run_all ok check_commands)"

definition E2e :: "(command \<Rightarrow> bool) \<Rightarrow> command list \<times> bool" where
  "E2e ok = run_all ok [\<lparr>cmd_dir = ''web'',
     cmd_env = [(''HTTP_PROXY'', []), (''HTTPS_PROXY'', []), (''ALL_PROXY'', []), (''http_proxy'', []), (''https_proxy'', []), (''all_proxy'', []),
       (''NO_PROXY'', ''localhost,127.0.0.1,::1''), (''no_proxy'', ''localhost,127.0.0.1,::1'')],
     cmd_name = ''bun'', cmd_args = [''run'', ''test:e2e'']\<rparr>]"

definition Web_Install :: "(command \<Rightarrow> bool) \<Rightarrow> command list \<times> bool" where
  "Web_Install ok = run_all ok [cmd ''web'' ''bun'' [''install'', ''--frozen-lockfile'']]"

definition Web_Dev :: "(command \<Rightarrow> bool) \<Rightarrow> command list \<times> bool" where
  "Web_Dev ok = run_all ok [cmd ''web'' ''bun'' [''run'', ''dev'']]"

definition Web_Build :: "(command \<Rightarrow> bool) \<Rightarrow> command list \<times> bool" where
  "Web_Build ok = run_all ok [\<lparr>cmd_dir = ''web'', cmd_env = [(''NEXT_TELEMETRY_DISABLED'', ''1'')], cmd_name = ''bun'', cmd_args = [''run'', ''build'']\<rparr>]"

definition Smoke :: "(string \<Rightarrow> string) \<Rightarrow> (string list \<Rightarrow> string) \<Rightarrow> (command \<Rightarrow> bool) \<Rightarrow> command list \<times> bool" where
  "Smoke env git ok = (case currentBuildMetadata env git of
       None \<Rightarrow> ([], False)
     | Some m \<Rightarrow> run_all ok [\<lparr>cmd_dir = [],
         cmd_env = [(''BUILD_VERSION'', meta_version m), (''BUILD_REVISION'', meta_revision m), (''BUILD_SOURCE_REF'', meta_sourceRef m)],
         cmd_name = Join [''hack'', ''podman-smoke.sh''], cmd_args = []\<rparr>])"

definition go_build :: "(string \<times> string) list \<Rightarrow> string \<Rightarrow> string \<Rightarrow> string \<Rightarrow> command" where
  "go_build environment flags out package =
     \<lparr>cmd_dir = [], cmd_env = environment, cmd_name = ''go'', cmd_args = [''build'', ''-trimpath'', ''-ldflags='' @ flags, ''-o'', out, package]\<rparr>"

text \<open>\<open>made\<close>: the directory of the results could be made.\<close>

definition Go_Build :: "bool \<Rightarrow> (string \<Rightarrow> string) \<Rightarrow> (string list \<Rightarrow> string) \<Rightarrow> (command \<Rightarrow> bool) \<Rightarrow> command list \<times> bool" where
  "Go_Build made env git ok =
     (if \<not> made then ([], False)
      else case buildLDFlags False env git of
          None \<Rightarrow> ([], False)
        | Some flags \<Rightarrow> run_all ok [go_build [] flags ''bin/ulcer-host'' ''./cmd/ulcer-host'',
            go_build [] flags ''bin/ulcer-instance'' ''./cmd/ulcer-instance''])"

definition environmentOr :: "(string \<Rightarrow> string) \<Rightarrow> string \<Rightarrow> string \<Rightarrow> string" where
  "environmentOr env name fallback = (if env name \<noteq> [] then env name else fallback)"

definition release_commands :: "string \<Rightarrow> string \<Rightarrow> string \<Rightarrow> command list" where
  "release_commands goos goarch flags = map (\<lambda>binary.
     go_build [(''CGO_ENABLED'', ''0''), (''GOOS'', goos), (''GOARCH'', goarch)] flags (release_name binary goos goarch) (''./cmd/ulcer-'' @ binary))
     [''host'', ''instance'']"

definition Binaries :: "bool \<Rightarrow> (string \<Rightarrow> string) \<Rightarrow> (string list \<Rightarrow> string) \<Rightarrow> (command \<Rightarrow> bool) \<Rightarrow> command list \<times> bool" where
  "Binaries made env git ok =
     (let goos = environmentOr env ''GOOS'' ''linux''; goarch = environmentOr env ''GOARCH'' ''amd64'' in
      if \<not> made then ([], False)
      else case buildLDFlags True env git of
          None \<Rightarrow> ([], False)
        | Some flags \<Rightarrow> run_all ok (release_commands goos goarch flags))"

lemma run_all_prefix: "prefix (fst (run_all ok cs)) cs"
  by (induction cs) (auto split: prod.splits)

lemma run_all_success: "snd (run_all ok cs) \<longleftrightarrow> list_all ok cs"
  by (induction cs) (auto split: prod.splits)

lemma run_all_complete: "snd (run_all ok cs) \<Longrightarrow> fst (run_all ok cs) = cs"
  by (induction cs) (auto split: prod.splits if_splits)

text \<open>
  Every command of a release is one \<open>go build\<close> with the same accepted metadata and with C disabled,
  whatever the environment of the process says; a release that succeeds has built both programs.
\<close>

lemma release_command:
  assumes "c \<in> set (release_commands goos goarch flags)"
  shows "cmd_name c = ''go''" and "''-ldflags='' @ flags \<in> set (cmd_args c)"
    and "merged_environment environ (cmd_env c) ''CGO_ENABLED'' = Some ''0''"
  using assms by (auto simp: release_commands_def go_build_def merged_environment_def)

lemma release_builds:
  assumes "Binaries made env git ok = (started, r)"
  shows "c \<in> set started \<Longrightarrow> merged_environment environ (cmd_env c) ''CGO_ENABLED'' = Some ''0'' \<and>
      (\<exists>flags. buildLDFlags True env git = Some flags \<and> ''-ldflags='' @ flags \<in> set (cmd_args c))"
    and "r \<Longrightarrow> length started = 2"
proof -
  let ?cs = "release_commands (environmentOr env ''GOOS'' ''linux'') (environmentOr env ''GOARCH'' ''amd64'')"
  have "(started, r) = ([], False) \<or> (\<exists>flags. buildLDFlags True env git = Some flags \<and> run_all ok (?cs flags) = (started, r))"
    using assms by (auto simp: Binaries_def Let_def split: if_splits option.splits)
  then consider "started = []" "\<not> r" | flags where "buildLDFlags True env git = Some flags" "run_all ok (?cs flags) = (started, r)" by auto
  then have "(c \<in> set started \<longrightarrow> merged_environment environ (cmd_env c) ''CGO_ENABLED'' = Some ''0'' \<and>
      (\<exists>flags. buildLDFlags True env git = Some flags \<and> ''-ldflags='' @ flags \<in> set (cmd_args c))) \<and> (r \<longrightarrow> length started = 2)"
  proof cases
    case (2 flags)
    have "set started \<subseteq> set (?cs flags)" using run_all_prefix [of ok "?cs flags"] 2(2) set_mono_prefix by fastforce
    moreover have "r \<Longrightarrow> started = ?cs flags" using run_all_complete [of ok "?cs flags"] 2(2) by simp
    moreover have "length (?cs flags) = 2" by (simp add: release_commands_def)
    ultimately show ?thesis using release_command 2(1) by fast
  qed simp
  then show "c \<in> set started \<Longrightarrow> merged_environment environ (cmd_env c) ''CGO_ENABLED'' = Some ''0'' \<and>
      (\<exists>flags. buildLDFlags True env git = Some flags \<and> ''-ldflags='' @ flags \<in> set (cmd_args c))" and "r \<Longrightarrow> length started = 2"
    by blast+
qed

text \<open>Nothing is checked on sources that are not frozen.\<close>

lemma check_needs_freeze: "fst (Check sources output ok) \<noteq> [] \<Longrightarrow> Freeze sources output"
  by (simp add: Check_def split: if_splits)

end
