(* ===== verification/Spec2Isabelle.thy ===== *)
theory Spec2Isabelle
  imports Race PlaneInstalls Enrolment Build
begin

text \<open>
  \<^bold>\<open>Ulcer.\<close>  The program is a control plane: a HOST that keeps a registry of INSTANCES, accepts one
  control connection from each, hands it the desired state an operator has set, counts its traffic and
  publishes events; and an agent that runs with each instance.  This development models the program in
  HOL, component by component, and proves what makes it correct.

  \<^bold>\<open>Parts and theories\<close> (file names under \<open>src/internal\<close>)

  \<^item> Prelude, Channel, Json, Os, Text, Regex, Netip, Base64: what the sources use of Go and its standard
    library.  Strings and byte slices are lists of 8-bit characters, \<open>uint64\<close> is a 64-bit word, \<open>int64\<close>
    arithmetic is reduced explicitly, instants are nanoseconds, a function that returns an error is a sum.
    Channels carry their buffer, capacity and whether they are closed; an operation that panics in Go is
    \<open>None\<close>.
  \<^item> Model (\<open>model/model.go\<close>), Proto (the messages of \<open>gen/control/v1\<close>), Store over Badger
    (\<open>store/store.go\<close>): the data and the database.  Badger is the record of operations \<open>badger\<close> with a
    function \<open>look\<close> that reads its contents; its laws are locales (\<open>badger_laws\<close> up to
    \<open>serial_badger\<close>), interpreted on an executable map with scheduled conflicts.
  \<^item> Ledger, EventLog, Registry, Operator: what the store promises to the rest: traffic is counted once,
    events are a numbered log of which the last 500 are kept, the registry is a finite map, credentials
    are used up.
  \<^item> Auth (\<open>auth/auth.go\<close>), Limiter (\<open>api/limiter.go\<close>): setup, login and the pauses after repeated failures.
  \<^item> Hub, HubRuns (\<open>control/hub.go\<close>): reservations, connections and revocations, with every sequence of
    operations as a run.
  \<^item> Bus (\<open>events/bus.go\<close>), Streams (the event stream of \<open>api/api.go\<close>).
  \<^item> Grpc, Control (\<open>control/server.go\<close>): a connection as a state machine, cut where other goroutines can
    run.
  \<^item> Agent (\<open>instance/state.go\<close>, \<open>instance/client.go\<close>): the agent's state, its control stream and its
    reconnection.
  \<^item> Http, Api, Router (\<open>api/api.go\<close>): the handlers, the routes over the patterns \<open>net/http\<close> matches, the
    session check, the security headers and the recovery from panics.
  \<^item> Target, Render (\<open>sshinstall/target.go\<close>, \<open>render.go\<close>), Config (\<open>config/config.go\<close>): where an SSH
    installation may go, what it writes, and what the agent reads back.
  \<^item> Installer, InstallRuns (\<open>sshinstall/install.go\<close>): the checks and slots of \<open>Install\<close>, the plan it makes, and
    the goroutine from the enrolment to the end as a state machine, with the deferred rollback.
  \<^item> Pki (\<open>pki/pki.go\<close>): the certificate authority, its files, and what it issues.  Key generation, X.509 and PEM
    are the record \<open>crypto\<close>; what the code relies on is the predicate \<open>x509_ok\<close>.
  \<^item> Programs (\<open>cmd/ulcer-host\<close>, \<open>cmd/ulcer-instance\<close>, the TLS configuration of \<open>instance/client.go\<close>): the start of
    the host and the exit status of the agent.  Enrolment: the authority wired into the API and the installer.
  \<^item> Url, Buildinfo (\<open>buildinfo/buildinfo.go\<close>), Build (\<open>magefile.go\<close>): what a build links, reports and checks.
  \<^item> Plane, PlaneInv, PlaneSteps, PlaneRuns, PlaneInstalls, Race: the composition.  Goroutines of connections,
    deletions, desired states, enrolments and SSH installations run interleaved on one hub, one database and
    one bus.

  \<^bold>\<open>What is shown.\<close>  Of the composition: no goroutine panics, a connection that is attached belongs to an
  enrolled instance, nothing is heard of a deleted instance, generations never go back and keep their
  digest; an installation that succeeds leaves its instance enrolled and online, one that fails after the
  enrolment leaves it unenrolled and offline unless the database refuses the deletion, and every one ends;
  and that a desired state can be lost when it is set while the agent connects.  Of the API: a request
  without a session changes nothing it must not, an identifier in a path reaches its handler, and logins are
  refused after repeated failures.  Of enrolments: the credentials handed out are authorised for that instance and
  no other.  Of the host: a restart on its files gives the same host whatever the database holds by then, and an interrupted creation of the authority locks it
  out.  Of the store: refinement of a map, a log and a ledger.  Of the hub: reservations and revocations.
  Of authentication: codes and steps are used once as long as no setup is started again.  Of the installer: only checked
  addresses are dialled, host keys are pinned, rendered files mean what they say, commands hold nothing a
  shell expands, and a touched machine is cleaned up.  Of the build: the freeze is exact and the binary
  reports what was linked.

  \<^bold>\<open>Bounds.\<close>  Loops are recursive on their data or have a termination measure; the deletion's retries are
  the eight attempts of the code; the reconnection loop takes the list of its connection results; the
  waiting loop of an installation is a state of its own, left at the latest when its timer fires
  (\<open>install_rank\<close> bounds the steps from there).

  \<^bold>\<open>Not modelled.\<close>  Opening and closing Badger; dialling and the SSH handshake (a function of the SSH record,
  with what it promises as a hypothesis); the wiping of secrets in memory; serving, signals and shutdown
  of the programs; what the commands of the build script and of the remote machine do; generated gRPC code;
  the access log and other logging.
\<close>

end
